(* ===== verification/Prelude.thy ===== *)
theory Prelude
  imports Main "HOL-Library.Word"
begin

text \<open>
  Shared vocabulary of the development.

  The type synonyms name the machine types of \<^verbatim>\<open>include/types.h\<close>.  A computation of the
  kernel or of a driver either halts or returns a value: \<^verbatim>\<open>halt\<close> has one constructor per way
  in which the source stops (the \<^verbatim>\<open>BSOD\<close> macro, a bare \<^verbatim>\<open>smc\<close> that EL3 never
  returns from, \<^verbatim>\<open>brk\<close>, and a memory access outside every object), and results
  are values of a sum type.  The second part holds packed bit-fields: reading and writing a field of a
  64-bit word, with the laws every packed structure of the code uses.
\<close>

unbundle bit_operations_syntax

type_synonym u8 = "8 word"
type_synonym u16 = "16 word"
type_synonym u32 = "32 word"
type_synonym u64 = "64 word"

named_theorems field_simps_packed

section \<open>Results\<close>

datatype halt =
    BSOD nat   \<comment> \<open>the \<^verbatim>\<open>BSOD(n)\<close> macro: \<^verbatim>\<open>0: smc n; b 0b\<close>, \<^verbatim>\<open>n\<close> is mostly the source line\<close>
  | SMC nat    \<comment> \<open>a bare \<^verbatim>\<open>asm ("smc n")\<close>\<close>
  | BRK nat    \<comment> \<open>\<^verbatim>\<open>asm ("brk n")\<close> in a driver\<close>
  | HANG       \<comment> \<open>a loop that nothing in the model ends\<close>
  | FAULT      \<comment> \<open>an access outside every object of the program (undefined behaviour, or a kernel abort)\<close>

type_synonym 'a result = "halt + 'a"

definition rbind :: "'a result \<Rightarrow> ('a \<Rightarrow> 'b result) \<Rightarrow> 'b result" where
  "rbind r f = (case r of Inl e \<Rightarrow> Inl e | Inr a \<Rightarrow> f a)"

lemma rbind_simps [simp]:
  "rbind (Inl e) f = Inl e"
  "rbind (Inr a) f = f a"
  by (simp_all add: rbind_def)

lemma rbind_Inr_iff: "rbind r f = Inr b \<longleftrightarrow> (\<exists>a. r = Inr a \<and> f a = Inr b)"
  by (cases r) auto

lemma rbind_InrE:
  assumes "rbind r f = Inr b"
  obtains a where "r = Inr a" and "f a = Inr b"
  using assms by (auto simp: rbind_Inr_iff)

lemma rbind_assoc: "rbind (rbind r f) g = rbind r (\<lambda>a. rbind (f a) g)"
  by (cases r) auto

lemma rbind_cong [fundef_cong]:
  assumes "r = r'" and "\<And>a. r' = Inr a \<Longrightarrow> f a = f' a"
  shows "rbind r f = rbind r' f'"
  using assms by (cases r') auto

definition guard :: "bool \<Rightarrow> halt \<Rightarrow> unit result" where
  "guard b e = (if b then Inr () else Inl e)"

lemma guard_simps [simp]:
  "guard True e = Inr ()"
  "guard False e = Inl e"
  by (simp_all add: guard_def)

lemma guard_Inr_iff [simp]: "guard b e = Inr u \<longleftrightarrow> b"
  by (simp add: guard_def)

lemma find_append:
  "List.find P (xs @ ys) = (case List.find P xs of None \<Rightarrow> List.find P ys | Some x \<Rightarrow> Some x)"
  by (induction xs) auto

section \<open>Packed fields of a 64-bit word\<close>

definition get_field :: "nat \<Rightarrow> nat \<Rightarrow> u64 \<Rightarrow> u64" where
  "get_field off wd e = take_bit wd (drop_bit off e)"

definition set_field :: "nat \<Rightarrow> nat \<Rightarrow> u64 \<Rightarrow> u64 \<Rightarrow> u64" where
  "set_field off wd v e = (e AND NOT (push_bit off (mask wd))) OR push_bit off (take_bit wd v)"

lemma bit_set_field:
  "bit (set_field off wd v e) n \<longleftrightarrow>
     n < 64 \<and> (if off \<le> n \<and> n < off + wd then bit v (n - off) else bit e n)"
  by (auto simp: set_field_def bit_simps dest: bit_imp_le_length)

lemma bit_get_field:
  "bit (get_field off wd e) n \<longleftrightarrow> n < wd \<and> bit e (off + n)"
  by (auto simp: get_field_def bit_simps)

lemma get_set_field:
  assumes "off + wd \<le> 64"
  shows "get_field off wd (set_field off wd v e) = take_bit wd v"
  using assms by (intro bit_eqI) (auto simp: bit_get_field bit_set_field bit_simps)

lemma get_set_field_other:
  assumes "off + wd \<le> off' \<or> off' + wd' \<le> off"
  shows "get_field off' wd' (set_field off wd v e) = get_field off' wd' e"
  using assms by (intro bit_eqI) (auto simp: bit_get_field bit_set_field dest: bit_imp_le_length)

lemma set_get_field: "set_field off wd (get_field off wd e) e = e"
  by (intro bit_eqI) (auto simp: bit_get_field bit_set_field dest: bit_imp_le_length)

lemma set_set_field: "set_field off wd v (set_field off wd v' e) = set_field off wd v e"
  by (intro bit_eqI) (auto simp: bit_set_field)

lemma take_bit_lt: "wd < 64 \<Longrightarrow> take_bit wd (e :: u64) < 2 ^ wd"
  by (simp add: take_bit_eq_mask and_mask_less_size word_size)

lemma get_field_lt: "wd < 64 \<Longrightarrow> get_field off wd e < 2 ^ wd"
  by (simp add: get_field_def take_bit_lt)

lemma get_field_zero [simp]: "get_field off wd 0 = 0"
  by (simp add: get_field_def)

lemma unat_lt_u64: "unat (x :: u64) < 2 ^ 64"
  using unsigned_less [of x, where ?'a = nat] by simp

lemma unat_lt_u32: "unat (x :: u32) < 2 ^ 32"
  using unsigned_less [of x, where ?'a = nat] by simp

lemma unat_of_nat_u64: "n < 2 ^ 64 \<Longrightarrow> unat (of_nat n :: u64) = n"
  by (simp add: unat_of_nat)

lemma unat_of_nat_u32: "n < 2 ^ 32 \<Longrightarrow> unat (of_nat n :: u32) = n"
  by (simp add: unat_of_nat)

lemma unat_ucast_u32_u64 [simp]: "unat (ucast (c :: u32) :: u64) = unat c"
proof -
  have "unat c < 2 ^ 32" using unsigned_less [of c] by simp
  then show ?thesis by (simp add: unsigned_ucast_eq take_bit_nat_eq_self)
qed

lemma ucast_down_up_u32 [simp]: "ucast (ucast (c :: u32) :: u64) = c"
proof -
  have "unat c < 2 ^ 32" using unsigned_less [of c] by simp
  then have "unat (ucast (ucast c :: u64) :: u32) = unat c"
    by (subst unsigned_ucast_eq) (simp add: take_bit_nat_eq_self)
  then show ?thesis by (rule word_unat_eq_iff [THEN iffD2])
qed

lemma ucast_ucast_u32:
  assumes "x < 2 ^ 32"
  shows "ucast (ucast (x :: u64) :: u32) = x"
proof -
  have "unat x < 2 ^ 32" using assms by (simp add: word_less_nat_alt)
  then have "unat (ucast (ucast x :: u32) :: u64) = unat x"
    by (simp only: unat_ucast_u32_u64) (simp add: unsigned_ucast_eq take_bit_nat_eq_self)
  then show ?thesis by (rule word_unat_eq_iff [THEN iffD2])
qed

lemma unat_add_u64: "unat (a :: u64) + unat b < 2 ^ 64 \<Longrightarrow> unat (a + b) = unat a + unat b"
  using unat_add_lem [of a b] by simp

lemma take_bit_add_u64: "take_bit n (take_bit n a + take_bit n b) = take_bit n (a + b :: u64)"
  by transfer (simp add: take_bit_add)

lemma unat_and_not_mask:
  fixes x :: u64
  shows "unat (x AND NOT (mask n)) = unat x div 2 ^ n * 2 ^ n"
proof -
  have "unat x div 2 ^ n * 2 ^ n \<le> unat x" by (metis div_times_less_eq_dividend)
  then have lt: "unat x div 2 ^ n * 2 ^ n < 2 ^ 64" using unat_lt_u64 by (rule le_less_trans)
  have "unat (x AND NOT (mask n)) = unat (push_bit n (drop_bit n x))"
    by (rule arg_cong [of _ _ unat]) (intro bit_eqI, auto simp: bit_simps)
  also have "\<dots> = take_bit 64 (push_bit n (drop_bit n (take_bit 64 (unat x))))"
    by (simp only: unsigned_push_bit_eq unsigned_drop_bit_eq) simp
  also have "\<dots> = unat x div 2 ^ n * 2 ^ n"
    using lt unat_lt_u64 [of x]
    by (simp add: push_bit_eq_mult drop_bit_eq_div take_bit_nat_eq_self)
  finally show ?thesis .
qed

lemma unat_and_mask: "unat ((x :: u64) AND mask n) = unat x mod 2 ^ n"
  by (metis take_bit_eq_mask take_bit_eq_mod unsigned_take_bit_eq)

text \<open>A packed field is a well-behaved lens; the packed structures of the code interpret this
  interface for each of their fields.\<close>

locale packed_field =
  fixes get :: "u64 \<Rightarrow> u64" and set :: "u64 \<Rightarrow> u64 \<Rightarrow> u64" and norm :: "u64 \<Rightarrow> u64"
  assumes get_set: "get (set v e) = norm v"
    and set_get: "set (get e) e = e"
    and set_set: "set v (set v' e) = set v e"
begin

lemma set_norm: "set (norm v) e = set v e"
  by (metis get_set set_get set_set)

lemma get_determines: "set v e = set w e \<Longrightarrow> norm v = norm w"
  by (metis get_set)

lemma norm_idem: "norm (norm v) = norm v"
  by (metis get_set set_norm)

end

lemma packed_fieldI:
  assumes "off + wd \<le> 64"
  shows "packed_field (get_field off wd) (set_field off wd) (take_bit wd)"
  using assms by unfold_locales (simp_all add: get_set_field set_get_field set_set_field)

end
