(* ===== verification/VMSA.thy ===== *)
theory VMSA
  imports Prelude
begin

text \<open>
  Translation table entries (\<^verbatim>\<open>include/aarch64_vmsa.h\<close>).

  An entry is the raw 64-bit word; the anonymous bit-field structure of the union is read and
  written with the packed-field operations of the prelude.  The first section translates the
  constructors and attribute setters of the header one by one.  The second section states what
  the memory management unit reads off an entry (kind, output page, rights of EL0 and EL1), and
  shows for every attribute setter which rights it grants and that it keeps the address bits.
\<close>

type_synonym vmsa_entry = u64

section \<open>The fields of an entry\<close>

definition set_type :: "u64 \<Rightarrow> vmsa_entry \<Rightarrow> vmsa_entry" where "set_type = set_field 0 2"
definition set_memory_type :: "u64 \<Rightarrow> vmsa_entry \<Rightarrow> vmsa_entry" where "set_memory_type = set_field 2 3"
definition set_el0_accessible :: "u64 \<Rightarrow> vmsa_entry \<Rightarrow> vmsa_entry" where "set_el0_accessible = set_field 6 1"
definition set_read_only :: "u64 \<Rightarrow> vmsa_entry \<Rightarrow> vmsa_entry" where "set_read_only = set_field 7 1"
definition set_shareability :: "u64 \<Rightarrow> vmsa_entry \<Rightarrow> vmsa_entry" where "set_shareability = set_field 8 2"
definition set_access_flag :: "u64 \<Rightarrow> vmsa_entry \<Rightarrow> vmsa_entry" where "set_access_flag = set_field 10 1"
definition set_not_global :: "u64 \<Rightarrow> vmsa_entry \<Rightarrow> vmsa_entry" where "set_not_global = set_field 11 1"
definition set_privileged_execute_never :: "u64 \<Rightarrow> vmsa_entry \<Rightarrow> vmsa_entry" where
  "set_privileged_execute_never = set_field 53 1"
definition set_unprivileged_execute_never :: "u64 \<Rightarrow> vmsa_entry \<Rightarrow> vmsa_entry" where
  "set_unprivileged_execute_never = set_field 54 1"
definition set_level2_readable :: "u64 \<Rightarrow> vmsa_entry \<Rightarrow> vmsa_entry" where "set_level2_readable = set_field 6 1"
definition set_level2_writable :: "u64 \<Rightarrow> vmsa_entry \<Rightarrow> vmsa_entry" where "set_level2_writable = set_field 7 1"

lemmas vmsa_setters =
  set_type_def set_memory_type_def set_el0_accessible_def set_read_only_def set_shareability_def
  set_access_flag_def set_not_global_def set_privileged_execute_never_def
  set_unprivileged_execute_never_def set_level2_readable_def set_level2_writable_def

definition Device_nGnRnE :: u64 where "Device_nGnRnE = 0"
definition Device_nGnRE :: u64 where "Device_nGnRE = 1"
definition Non_cacheable :: u64 where "Non_cacheable = 2"
definition Inner_write_through :: u64 where "Inner_write_through = 3"
definition Outer_write_through :: u64 where "Outer_write_through = 4"
definition Fully_Cacheable :: u64 where "Fully_Cacheable = 5"

lemmas memory_types =
  Device_nGnRnE_def Device_nGnRE_def Non_cacheable_def Inner_write_through_def
  Outer_write_through_def Fully_Cacheable_def

definition Aarch64_VMSA_Isambard_memory_attributes :: u64 where
  "Aarch64_VMSA_Isambard_memory_attributes = 0xffbbf4440400"

section \<open>Constructors and attribute setters\<close>

definition Aarch64_VMSA_invalid :: vmsa_entry where
  "Aarch64_VMSA_invalid = 0"

definition Aarch64_VMSA_page_at :: "u64 \<Rightarrow> vmsa_entry" where
  "Aarch64_VMSA_page_at physical = set_type 3 physical"

definition Aarch64_VMSA_subtable_at :: "u64 \<Rightarrow> vmsa_entry" where
  "Aarch64_VMSA_subtable_at physical = set_type 3 physical"

definition Aarch64_VMSA_block_at :: "u64 \<Rightarrow> vmsa_entry" where
  "Aarch64_VMSA_block_at physical = set_type 1 physical"

definition Aarch64_VMSA_device_memory :: "vmsa_entry \<Rightarrow> vmsa_entry" where
  "Aarch64_VMSA_device_memory entry =
     set_unprivileged_execute_never 1
       (set_privileged_execute_never 1 (set_memory_type Device_nGnRnE entry))"

definition Aarch64_VMSA_write_back_memory :: "vmsa_entry \<Rightarrow> vmsa_entry" where
  "Aarch64_VMSA_write_back_memory entry = set_memory_type Fully_Cacheable entry"

definition Aarch64_VMSA_inner_write_through_memory :: "vmsa_entry \<Rightarrow> vmsa_entry" where
  "Aarch64_VMSA_inner_write_through_memory entry = set_memory_type Inner_write_through entry"

definition Aarch64_VMSA_outer_write_through_memory :: "vmsa_entry \<Rightarrow> vmsa_entry" where
  "Aarch64_VMSA_outer_write_through_memory entry = set_memory_type Outer_write_through entry"

definition Aarch64_VMSA_uncached_memory :: "vmsa_entry \<Rightarrow> vmsa_entry" where
  "Aarch64_VMSA_uncached_memory entry = set_memory_type Non_cacheable entry"

definition Aarch64_VMSA_not_global :: "vmsa_entry \<Rightarrow> vmsa_entry" where
  "Aarch64_VMSA_not_global entry = set_not_global 1 entry"

definition Aarch64_VMSA_global :: "vmsa_entry \<Rightarrow> vmsa_entry" where
  "Aarch64_VMSA_global entry = set_not_global 0 entry"

definition Aarch64_VMSA_priv_ro :: "vmsa_entry \<Rightarrow> int \<Rightarrow> vmsa_entry" where
  "Aarch64_VMSA_priv_ro entry level =
     (let entry = (if level = 1 then set_privileged_execute_never 1 entry else entry)
      in set_el0_accessible 0 (set_read_only 1 (set_unprivileged_execute_never 1 entry)))"

definition Aarch64_VMSA_el0_ro :: "vmsa_entry \<Rightarrow> vmsa_entry" where
  "Aarch64_VMSA_el0_ro entry =
     set_el0_accessible 1 (set_read_only 1
       (set_unprivileged_execute_never 1 (set_privileged_execute_never 1 entry)))"

definition Aarch64_VMSA_priv_rw :: "vmsa_entry \<Rightarrow> int \<Rightarrow> vmsa_entry" where
  "Aarch64_VMSA_priv_rw entry level =
     (let entry = (if level = 1 then set_privileged_execute_never 1 entry else entry)
      in set_el0_accessible 0 (set_read_only 0 (set_unprivileged_execute_never 1 entry)))"

definition Aarch64_VMSA_el0_rw :: "vmsa_entry \<Rightarrow> vmsa_entry" where
  "Aarch64_VMSA_el0_rw entry =
     set_el0_accessible 1 (set_read_only 0
       (set_unprivileged_execute_never 1 (set_privileged_execute_never 1 entry)))"

definition Aarch64_VMSA_priv_r_x :: "vmsa_entry \<Rightarrow> vmsa_entry" where
  "Aarch64_VMSA_priv_r_x entry =
     set_el0_accessible 0 (set_read_only 1
       (set_unprivileged_execute_never 0 (set_privileged_execute_never 0 entry)))"

definition Aarch64_VMSA_el0_r_x :: "vmsa_entry \<Rightarrow> vmsa_entry" where
  "Aarch64_VMSA_el0_r_x entry =
     set_el0_accessible 1 (set_read_only 1
       (set_unprivileged_execute_never 0 (set_privileged_execute_never 0 entry)))"

definition Aarch64_VMSA_priv_rwx :: "vmsa_entry \<Rightarrow> vmsa_entry" where
  "Aarch64_VMSA_priv_rwx entry =
     set_el0_accessible 0 (set_read_only 0
       (set_unprivileged_execute_never 0 (set_privileged_execute_never 0 entry)))"

definition Aarch64_VMSA_el0_rwx :: "vmsa_entry \<Rightarrow> vmsa_entry" where
  "Aarch64_VMSA_el0_rwx entry =
     set_el0_accessible 1 (set_read_only 0
       (set_unprivileged_execute_never 0 (set_privileged_execute_never 0 entry)))"

definition Aarch64_VMSA_L2_rwx :: "vmsa_entry \<Rightarrow> vmsa_entry" where
  "Aarch64_VMSA_L2_rwx entry =
     set_level2_writable 1 (set_level2_readable 1
       (set_unprivileged_execute_never 0 (set_privileged_execute_never 0 entry)))"

lemmas vmsa_constructors =
  Aarch64_VMSA_page_at_def Aarch64_VMSA_subtable_at_def Aarch64_VMSA_block_at_def

lemmas vmsa_attributes =
  Aarch64_VMSA_device_memory_def Aarch64_VMSA_write_back_memory_def
  Aarch64_VMSA_inner_write_through_memory_def Aarch64_VMSA_outer_write_through_memory_def
  Aarch64_VMSA_uncached_memory_def Aarch64_VMSA_not_global_def Aarch64_VMSA_global_def
  Aarch64_VMSA_priv_ro_def Aarch64_VMSA_el0_ro_def Aarch64_VMSA_priv_rw_def
  Aarch64_VMSA_el0_rw_def Aarch64_VMSA_priv_r_x_def Aarch64_VMSA_el0_r_x_def
  Aarch64_VMSA_priv_rwx_def Aarch64_VMSA_el0_rwx_def Aarch64_VMSA_L2_rwx_def

section \<open>What the memory management unit reads\<close>

datatype entry_kind = Invalid_entry | Block_entry | Table_entry

definition entry_kind :: "vmsa_entry \<Rightarrow> entry_kind" where
  "entry_kind e = (if \<not> bit e 0 then Invalid_entry else if bit e 1 then Table_entry else Block_entry)"

definition entry_address :: "vmsa_entry \<Rightarrow> u64" where
  "entry_address e = e AND push_bit 12 (mask 36)"

definition accessible_by_el0 :: "vmsa_entry \<Rightarrow> bool" where
  "accessible_by_el0 e \<longleftrightarrow> bit e 6 \<and> bit e 10"

definition writable_by_el0 :: "vmsa_entry \<Rightarrow> bool" where
  "writable_by_el0 e \<longleftrightarrow> accessible_by_el0 e \<and> \<not> bit e 7"

definition executable_by_el0 :: "vmsa_entry \<Rightarrow> bool" where
  "executable_by_el0 e \<longleftrightarrow> accessible_by_el0 e \<and> \<not> bit e 54"

text \<open>Memory that EL0 may write is never executable at EL1, whatever the entry says.\<close>

definition executable_by_el1 :: "vmsa_entry \<Rightarrow> bool" where
  "executable_by_el1 e \<longleftrightarrow> bit e 10 \<and> \<not> bit e 53 \<and> \<not> (bit e 6 \<and> \<not> bit e 7)"

definition writable_by_el1 :: "vmsa_entry \<Rightarrow> bool" where
  "writable_by_el1 e \<longleftrightarrow> bit e 10 \<and> \<not> bit e 7"

lemmas mmu_reads =
  entry_kind_def accessible_by_el0_def writable_by_el0_def executable_by_el0_def
  executable_by_el1_def writable_by_el1_def

lemma bit_1_u64 [simp]: "bit (1 :: u64) n \<longleftrightarrow> n = 0"
  by (simp add: bit_1_iff)

lemma bit_entry_address: "bit (entry_address e) n \<longleftrightarrow> 12 \<le> n \<and> n < 48 \<and> bit e n"
  by (auto simp: entry_address_def bit_simps)

text \<open>The address bits (47..12) lie outside every field the setters write.\<close>

lemma entry_address_set_field:
  assumes "off + wd \<le> 12 \<or> 48 \<le> off"
  shows "entry_address (set_field off wd v e) = entry_address e"
  using assms by (intro bit_eqI) (auto simp: bit_entry_address bit_set_field)

lemma entry_address_setters [simp]:
  "entry_address (set_type v e) = entry_address e"
  "entry_address (set_memory_type v e) = entry_address e"
  "entry_address (set_el0_accessible v e) = entry_address e"
  "entry_address (set_read_only v e) = entry_address e"
  "entry_address (set_shareability v e) = entry_address e"
  "entry_address (set_access_flag v e) = entry_address e"
  "entry_address (set_not_global v e) = entry_address e"
  "entry_address (set_privileged_execute_never v e) = entry_address e"
  "entry_address (set_unprivileged_execute_never v e) = entry_address e"
  by (simp_all add: vmsa_setters entry_address_set_field)

lemma entry_kind_set_field: "2 \<le> off \<Longrightarrow> entry_kind (set_field off wd v e) = entry_kind e"
  by (simp add: entry_kind_def bit_set_field)

lemma entry_kind_setters [simp]:
  "entry_kind (set_memory_type v e) = entry_kind e"
  "entry_kind (set_el0_accessible v e) = entry_kind e"
  "entry_kind (set_read_only v e) = entry_kind e"
  "entry_kind (set_shareability v e) = entry_kind e"
  "entry_kind (set_access_flag v e) = entry_kind e"
  "entry_kind (set_not_global v e) = entry_kind e"
  "entry_kind (set_privileged_execute_never v e) = entry_kind e"
  "entry_kind (set_unprivileged_execute_never v e) = entry_kind e"
  by (simp_all add: vmsa_setters entry_kind_set_field)

lemma entry_kind_constructors [simp]:
  "entry_kind (Aarch64_VMSA_page_at pa) = Table_entry"
  "entry_kind (Aarch64_VMSA_subtable_at pa) = Table_entry"
  "entry_kind (Aarch64_VMSA_block_at pa) = Block_entry"
  "entry_kind Aarch64_VMSA_invalid = Invalid_entry"
  by (simp_all add: entry_kind_def vmsa_constructors vmsa_setters bit_set_field
      Aarch64_VMSA_invalid_def bit_numeral_rec)

lemma entry_address_constructors [simp]:
  "entry_address (Aarch64_VMSA_page_at pa) = entry_address pa"
  "entry_address (Aarch64_VMSA_subtable_at pa) = entry_address pa"
  "entry_address (Aarch64_VMSA_block_at pa) = entry_address pa"
  by (simp_all add: vmsa_constructors)

text \<open>A page-aligned address below 2 to the 48 is exactly the address field.\<close>

lemma entry_address_aligned:
  assumes "take_bit 12 pa = 0" and "drop_bit 48 pa = 0"
  shows "entry_address pa = pa"
proof (rule bit_eqI)
  fix n
  have "bit pa n \<longleftrightarrow> bit (take_bit 12 pa) n" if "n < 12" using that by (simp add: bit_simps)
  moreover have "bit pa n \<longleftrightarrow> bit (drop_bit 48 pa) (n - 48)" if "48 \<le> n"
    using that by (simp add: bit_simps)
  ultimately show "bit (entry_address pa) n \<longleftrightarrow> bit pa n"
    using assms by (cases "n < 12"; cases "48 \<le> n") (auto simp: bit_entry_address)
qed

text \<open>The rights granted by each attribute setter, on an entry whose access flag is set.\<close>

lemma el0_rights [simp]:
  "writable_by_el0 (Aarch64_VMSA_el0_rw e) \<longleftrightarrow> bit e 10"
  "executable_by_el0 (Aarch64_VMSA_el0_rw e) \<longleftrightarrow> False"
  "writable_by_el0 (Aarch64_VMSA_el0_rwx e) \<longleftrightarrow> bit e 10"
  "executable_by_el0 (Aarch64_VMSA_el0_rwx e) \<longleftrightarrow> bit e 10"
  "writable_by_el0 (Aarch64_VMSA_el0_ro e) \<longleftrightarrow> False"
  "executable_by_el0 (Aarch64_VMSA_el0_ro e) \<longleftrightarrow> False"
  "writable_by_el0 (Aarch64_VMSA_el0_r_x e) \<longleftrightarrow> False"
  "executable_by_el0 (Aarch64_VMSA_el0_r_x e) \<longleftrightarrow> bit e 10"
  by (simp_all add: vmsa_attributes vmsa_setters mmu_reads bit_set_field)

lemma el0_access [simp]:
  "accessible_by_el0 (Aarch64_VMSA_el0_rw e) \<longleftrightarrow> bit e 10"
  "accessible_by_el0 (Aarch64_VMSA_el0_rwx e) \<longleftrightarrow> bit e 10"
  "accessible_by_el0 (Aarch64_VMSA_el0_ro e) \<longleftrightarrow> bit e 10"
  "accessible_by_el0 (Aarch64_VMSA_el0_r_x e) \<longleftrightarrow> bit e 10"
  "accessible_by_el0 (Aarch64_VMSA_priv_rw e l) \<longleftrightarrow> False"
  "accessible_by_el0 (Aarch64_VMSA_priv_ro e l) \<longleftrightarrow> False"
  "accessible_by_el0 (Aarch64_VMSA_priv_r_x e) \<longleftrightarrow> False"
  "accessible_by_el0 (Aarch64_VMSA_priv_rwx e) \<longleftrightarrow> False"
  by (simp_all add: vmsa_attributes vmsa_setters mmu_reads bit_set_field Let_def)

lemma entry_address_el0 [simp]:
  "entry_address (Aarch64_VMSA_el0_rw e) = entry_address e"
  "entry_address (Aarch64_VMSA_el0_rwx e) = entry_address e"
  "entry_address (Aarch64_VMSA_el0_ro e) = entry_address e"
  "entry_address (Aarch64_VMSA_el0_r_x e) = entry_address e"
  "entry_address (Aarch64_VMSA_write_back_memory e) = entry_address e"
  "entry_address (Aarch64_VMSA_uncached_memory e) = entry_address e"
  "entry_address (Aarch64_VMSA_device_memory e) = entry_address e"
  by (simp_all add: vmsa_attributes)

lemma entry_kind_el0 [simp]:
  "entry_kind (Aarch64_VMSA_el0_rw e) = entry_kind e"
  "entry_kind (Aarch64_VMSA_el0_rwx e) = entry_kind e"
  "entry_kind (Aarch64_VMSA_el0_ro e) = entry_kind e"
  "entry_kind (Aarch64_VMSA_el0_r_x e) = entry_kind e"
  "entry_kind (Aarch64_VMSA_write_back_memory e) = entry_kind e"
  "entry_kind (Aarch64_VMSA_uncached_memory e) = entry_kind e"
  "entry_kind (Aarch64_VMSA_device_memory e) = entry_kind e"
  by (simp_all add: vmsa_attributes)

text \<open>The fields of an entry are packed fields; the memory attribute index selects a byte of MAIR.\<close>

interpretation memory_type_field: packed_field "get_field 2 3" set_memory_type "take_bit 3"
  unfolding set_memory_type_def by (rule packed_fieldI) simp

interpretation shareability_field: packed_field "get_field 8 2" set_shareability "take_bit 2"
  unfolding set_shareability_def by (rule packed_fieldI) simp

definition mair_attribute :: "u64 \<Rightarrow> u64" where
  "mair_attribute idx = get_field (8 * unat idx) 8 Aarch64_VMSA_Isambard_memory_attributes"

lemma mair_attributes:
  "mair_attribute Device_nGnRnE = 0x00"
  "mair_attribute Device_nGnRE = 0x04"
  "mair_attribute Non_cacheable = 0x44"
  "mair_attribute Inner_write_through = 0xf4"
  "mair_attribute Outer_write_through = 0xbb"
  "mair_attribute Fully_Cacheable = 0xff"
  by (simp_all add: mair_attribute_def get_field_def memory_types
      Aarch64_VMSA_Isambard_memory_attributes_def take_bit_eq_mask drop_bit_eq_div mask_eq_exp_minus_1)

end
