(* ===== verification/System_Services.thy ===== *)
theory System_Services
  imports Prelude
begin

text \<open>
  The vocabulary shared by the kernel and the system driver
  (\<^verbatim>\<open>include/system_services.h\<close>, \<^verbatim>\<open>include/isambard_syscalls.h\<close>): system call
  numbers, the special requests, the entry points of the system driver, and the three packed 64-bit
  objects \<^verbatim>\<open>ContiguousMemoryBlock\<close>, \<^verbatim>\<open>VirtualMemoryBlock\<close> and
  \<^verbatim>\<open>MapValue\<close> with the round trips of their fields.
\<close>

section \<open>Numbers\<close>

definition ISAMBARD_GATE :: u32 where "ISAMBARD_GATE = 0xf001"
definition ISAMBARD_DUPLICATE_TO_RETURN :: u32 where "ISAMBARD_DUPLICATE_TO_RETURN = 0xf002"
definition ISAMBARD_DUPLICATE_TO_PASS :: u32 where "ISAMBARD_DUPLICATE_TO_PASS = 0xf003"
definition ISAMBARD_INTERFACE_TO_RETURN :: u32 where "ISAMBARD_INTERFACE_TO_RETURN = 0xf004"
definition ISAMBARD_INTERFACE_TO_PASS :: u32 where "ISAMBARD_INTERFACE_TO_PASS = 0xf005"
definition ISAMBARD_LOCK_WAIT :: u32 where "ISAMBARD_LOCK_WAIT = 0xf006"
definition ISAMBARD_LOCK_RELEASE :: u32 where "ISAMBARD_LOCK_RELEASE = 0xf007"
definition ISAMBARD_YIELD :: u32 where "ISAMBARD_YIELD = 0xf008"
definition ISAMBARD_CALL :: u32 where "ISAMBARD_CALL = 0xf009"
definition ISAMBARD_RETURN :: u32 where "ISAMBARD_RETURN = 0xf00a"
definition ISAMBARD_EXCEPTION :: u32 where "ISAMBARD_EXCEPTION = 0xf00b"
definition ISAMBARD_SWITCH_TO_PARTNER :: u32 where "ISAMBARD_SWITCH_TO_PARTNER = 0xf00c"
definition ISAMBARD_GET_PARTNER_REG :: u32 where "ISAMBARD_GET_PARTNER_REG = 0xf00d"
definition ISAMBARD_SET_PARTNER_REG :: u32 where "ISAMBARD_SET_PARTNER_REG = 0xf00e"
definition ISAMBARD_CHANGE_VM_SYSTEM_REGISTER :: u32 where
  "ISAMBARD_CHANGE_VM_SYSTEM_REGISTER = 0xf00f"
definition ISAMBARD_SYSTEM_REQUEST :: u32 where "ISAMBARD_SYSTEM_REQUEST = 0xf010"

lemmas syscall_numbers =
  ISAMBARD_GATE_def ISAMBARD_DUPLICATE_TO_RETURN_def ISAMBARD_DUPLICATE_TO_PASS_def
  ISAMBARD_INTERFACE_TO_RETURN_def ISAMBARD_INTERFACE_TO_PASS_def ISAMBARD_LOCK_WAIT_def
  ISAMBARD_LOCK_RELEASE_def ISAMBARD_YIELD_def ISAMBARD_CALL_def ISAMBARD_RETURN_def
  ISAMBARD_EXCEPTION_def ISAMBARD_SWITCH_TO_PARTNER_def ISAMBARD_GET_PARTNER_REG_def
  ISAMBARD_SET_PARTNER_REG_def ISAMBARD_CHANGE_VM_SYSTEM_REGISTER_def ISAMBARD_SYSTEM_REQUEST_def

text \<open>\<^verbatim>\<open>enum Isambard_Special_Request\<close>, in the order of the source, from 1.\<close>

datatype special_request =
    Set_Interrupt_Thread | Add_Device_Page | Updated_Map | CreateMap | NextDriver
  | ReadInterface | ReadHeap | WriteHeap | AllocateHeap | FreeHeap
  | Allocate_Thread | Release_Thread | Thread_Now_Runnable | Thread_Next_Runnable
  | Thread_Last_Runnable | Thread_Make_Partner | Create_Thread

definition special_requests :: "special_request list" where
  "special_requests =
    [Set_Interrupt_Thread, Add_Device_Page, Updated_Map, CreateMap, NextDriver, ReadInterface,
     ReadHeap, WriteHeap, AllocateHeap, FreeHeap, Allocate_Thread, Release_Thread,
     Thread_Now_Runnable, Thread_Next_Runnable, Thread_Last_Runnable, Thread_Make_Partner,
     Create_Thread]"

definition special_request_of :: "u64 \<Rightarrow> special_request option" where
  "special_request_of r =
     (if r = 0 \<or> length special_requests < unat r then None
      else Some (special_requests ! (unat r - 1)))"

definition System_Enter_Core0 :: u64 where "System_Enter_Core0 = 0"
definition System_Service_ThreadExit :: u64 where "System_Service_ThreadExit = 4"
definition System_Service_Map :: u64 where "System_Service_Map = 8"
definition System_Service_PhysicalMemoryBlock :: u64 where "System_Service_PhysicalMemoryBlock = 12"
definition DRIVER_SYSTEM_physical_address_of :: u64 where
  "DRIVER_SYSTEM_physical_address_of = 0x4a274f85"

section \<open>Packed objects\<close>

definition cmb_start_page :: "u64 \<Rightarrow> u64" where "cmb_start_page = get_field 0 24"
definition cmb_page_count :: "u64 \<Rightarrow> u64" where "cmb_page_count = get_field 24 20"
definition cmb_read_only :: "u64 \<Rightarrow> u64" where "cmb_read_only = get_field 44 1"
definition cmb_is_subpage :: "u64 \<Rightarrow> u64" where "cmb_is_subpage = get_field 60 1"
definition cmb_memory_type :: "u64 \<Rightarrow> u64" where "cmb_memory_type = get_field 61 3"

definition set_cmb_start_page :: "u64 \<Rightarrow> u64 \<Rightarrow> u64" where "set_cmb_start_page = set_field 0 24"
definition set_cmb_page_count :: "u64 \<Rightarrow> u64 \<Rightarrow> u64" where "set_cmb_page_count = set_field 24 20"
definition set_cmb_read_only :: "u64 \<Rightarrow> u64 \<Rightarrow> u64" where "set_cmb_read_only = set_field 44 1"
definition set_cmb_is_subpage :: "u64 \<Rightarrow> u64 \<Rightarrow> u64" where "set_cmb_is_subpage = set_field 60 1"
definition set_cmb_memory_type :: "u64 \<Rightarrow> u64 \<Rightarrow> u64" where "set_cmb_memory_type = set_field 61 3"

text \<open>The designated initialiser \<^verbatim>\<open>{ .start_page = s, .page_count = c, .memory_type = m }\<close>;
  members not named are zero.\<close>

definition mk_cmb :: "u64 \<Rightarrow> u64 \<Rightarrow> u64 \<Rightarrow> u64" where
  "mk_cmb s c m = set_cmb_memory_type m (set_cmb_page_count c (set_cmb_start_page s 0))"

definition vmb_start_page :: "u64 \<Rightarrow> u64" where "vmb_start_page = get_field 0 24"
definition vmb_page_count :: "u64 \<Rightarrow> u64" where "vmb_page_count = get_field 24 20"
definition vmb_read_only :: "u64 \<Rightarrow> u64" where "vmb_read_only = get_field 44 1"
definition vmb_executable :: "u64 \<Rightarrow> u64" where "vmb_executable = get_field 45 1"
definition vmb_memory_block :: "u64 \<Rightarrow> u64" where "vmb_memory_block = get_field 46 18"

definition set_vmb_start_page :: "u64 \<Rightarrow> u64 \<Rightarrow> u64" where "set_vmb_start_page = set_field 0 24"
definition set_vmb_page_count :: "u64 \<Rightarrow> u64 \<Rightarrow> u64" where "set_vmb_page_count = set_field 24 20"
definition set_vmb_read_only :: "u64 \<Rightarrow> u64 \<Rightarrow> u64" where "set_vmb_read_only = set_field 44 1"
definition set_vmb_executable :: "u64 \<Rightarrow> u64 \<Rightarrow> u64" where "set_vmb_executable = set_field 45 1"
definition set_vmb_memory_block :: "u64 \<Rightarrow> u64 \<Rightarrow> u64" where "set_vmb_memory_block = set_field 46 18"

definition mv_heap_offset_lsr4 :: "u64 \<Rightarrow> u64" where "mv_heap_offset_lsr4 = get_field 0 32"
definition mv_map_object :: "u64 \<Rightarrow> u64" where "mv_map_object = get_field 32 20"
definition mv_number_of_vmbs :: "u64 \<Rightarrow> u64" where "mv_number_of_vmbs = get_field 52 12"

definition mk_map_value :: "u64 \<Rightarrow> u64 \<Rightarrow> u64 \<Rightarrow> u64" where
  "mk_map_value h m n = set_field 52 12 n (set_field 32 20 m (set_field 0 32 h 0))"

lemmas packed_getters [field_simps_packed] =
  cmb_start_page_def cmb_page_count_def cmb_read_only_def cmb_is_subpage_def cmb_memory_type_def
  vmb_start_page_def vmb_page_count_def vmb_read_only_def vmb_executable_def vmb_memory_block_def
  mv_heap_offset_lsr4_def mv_map_object_def mv_number_of_vmbs_def

lemmas packed_setters [field_simps_packed] =
  set_cmb_start_page_def set_cmb_page_count_def set_cmb_read_only_def set_cmb_is_subpage_def
  set_cmb_memory_type_def set_vmb_start_page_def set_vmb_page_count_def set_vmb_read_only_def
  set_vmb_executable_def set_vmb_memory_block_def mk_cmb_def mk_map_value_def

declare get_set_field [field_simps_packed] get_set_field_other [field_simps_packed]

text \<open>Each member is a packed field of the 64-bit word.\<close>

interpretation cmb_start: packed_field cmb_start_page set_cmb_start_page "take_bit 24"
  unfolding field_simps_packed by (rule packed_fieldI) simp

interpretation cmb_count: packed_field cmb_page_count set_cmb_page_count "take_bit 20"
  unfolding field_simps_packed by (rule packed_fieldI) simp

interpretation cmb_type: packed_field cmb_memory_type set_cmb_memory_type "take_bit 3"
  unfolding field_simps_packed by (rule packed_fieldI) simp

interpretation vmb_start: packed_field vmb_start_page set_vmb_start_page "take_bit 24"
  unfolding field_simps_packed by (rule packed_fieldI) simp

interpretation vmb_count: packed_field vmb_page_count set_vmb_page_count "take_bit 20"
  unfolding field_simps_packed by (rule packed_fieldI) simp

interpretation vmb_block: packed_field vmb_memory_block set_vmb_memory_block "take_bit 18"
  unfolding field_simps_packed by (rule packed_fieldI) simp

text \<open>Members do not disturb each other.\<close>

lemma mk_cmb_fields [simp]:
  "cmb_start_page (mk_cmb s c m) = take_bit 24 s"
  "cmb_page_count (mk_cmb s c m) = take_bit 20 c"
  "cmb_memory_type (mk_cmb s c m) = take_bit 3 m"
  "cmb_read_only (mk_cmb s c m) = 0"
  "cmb_is_subpage (mk_cmb s c m) = 0"
  by (simp_all add: field_simps_packed)

lemma mk_map_value_fields [simp]:
  "mv_heap_offset_lsr4 (mk_map_value h m n) = take_bit 32 h"
  "mv_map_object (mk_map_value h m n) = take_bit 20 m"
  "mv_number_of_vmbs (mk_map_value h m n) = take_bit 12 n"
  by (simp_all add: field_simps_packed)

lemma special_request_of_code:
  assumes "i < length special_requests"
  shows "special_request_of (of_nat (Suc i)) = Some (special_requests ! i)"
proof -
  have i: "i < 17" using assms by (simp add: special_requests_def)
  have u: "unat (of_nat (Suc i) :: u64) = Suc i"
    by (rule unat_of_nat_u64) (use i in simp)
  moreover have "(of_nat (Suc i) :: u64) \<noteq> 0"
    using u by (metis nat.distinct(1) unat_0)
  ultimately show ?thesis
    using i by (simp add: special_request_of_def special_requests_def del: of_nat_Suc)
qed

end
