(* ===== verification/Kernel_State.thy ===== *)
theory Kernel_State
  imports VMSA System_Services
begin

text \<open>
  The state of the secure EL1 kernel: the structures of \<^verbatim>\<open>include/core_isambard.h\<close>, the file-level
  variables of \<^verbatim>\<open>secure_el1.c\<close>, and the parts of the machine the kernel reads (the
  user stack pointer, physical memory behind user addresses, the table walk).

  Kernel pointers are 64-bit words and 0 is the null pointer.  Thread contexts live in a typed heap
  from their address; the \<^verbatim>\<open>list\<close> member of a thread is a pointer to a list head, and the
  only heads of the program are \<^verbatim>\<open>core->runnable\<close> and \<^verbatim>\<open>blocked\<close>.
  Only one core is modelled: \<^verbatim>\<open>el3.c\<close> parks every other core before the kernel is entered.
  The translation tables are read directly, without a translation lookaside buffer, and cache
  maintenance and barriers have no effect on the state.
\<close>

section \<open>Structures\<close>

record inter_map_call_stack_element =
  caller_sp :: u64
  caller_return_address :: u64
  caller_map :: u32

text \<open>Values of \<^verbatim>\<open>thread_context **list\<close>.\<close>

datatype list_ref = Null_list | Runnable_list | Blocked_list

text \<open>\<^verbatim>\<open>int32_t\<close> is a 64-bit \<^verbatim>\<open>long\<close> in \<^verbatim>\<open>include/types.h\<close>, hence the width of \<^verbatim>\<open>gate\<close>.
  The stack pointer and limit are indexes into \<^verbatim>\<open>stack\<close>.\<close>

record thread_context =
  t_next :: u64
  t_prev :: u64
  t_list :: list_ref
  partner :: u64
  regs :: "nat \<Rightarrow> u64"
  t_sp :: u64
  t_pc :: u64
  spsr :: u32
  gate :: u64
  current_core :: u32
  current_map :: u32
  t_fp :: u64
  stack_pointer :: nat
  stack_limit :: nat
  stack :: "nat \<Rightarrow> inter_map_call_stack_element"

record Interface =
  user :: u32
  provider :: u32
  handler :: u64
  object :: u64

text \<open>The second member of the union: \<^verbatim>\<open>free.next\<close> overlays \<^verbatim>\<open>user\<close> and the packed \<^verbatim>\<open>free.marker\<close>
  overlays \<^verbatim>\<open>provider\<close> and the low half of \<^verbatim>\<open>handler\<close>.\<close>

definition free_next :: "Interface \<Rightarrow> u32" where
  "free_next i = user i"

definition free_marker_of :: "Interface \<Rightarrow> u64" where
  "free_marker_of i = ucast (provider i) OR push_bit 32 (handler i)"

definition set_free_next :: "u32 \<Rightarrow> Interface \<Rightarrow> Interface" where
  "set_free_next n i = i\<lparr>user := n\<rparr>"

definition set_free_marker :: "u64 \<Rightarrow> Interface \<Rightarrow> Interface" where
  "set_free_marker m i =
     i\<lparr>provider := ucast m, handler := set_field 0 32 (drop_bit 32 m) (handler i)\<rparr>"

record isambard_core =
  system_thread_stack :: "nat \<Rightarrow> u64"
  core_tt_l3 :: "nat \<Rightarrow> vmsa_entry"
  core_tt_l2 :: "nat \<Rightarrow> vmsa_entry"
  core_tt_l1 :: "nat \<Rightarrow> vmsa_entry"
  core_number :: u32
  loaded_map :: u32
  interrupt_thread :: u64
  blocked_with_timeout :: u64
  physical_address :: u64
  runnable :: u64

text \<open>An element of the table \<^verbatim>\<open>drivers\<close> of the generated \<^verbatim>\<open>drivers_info.h\<close>, of which the kernel
  reads these members; the table is a parameter of the model, kept in the state and never written.\<close>

record driver_info =
  code_pages :: u64
  data_pages :: u64
  drv_start :: u64
  drv_end :: u64

text \<open>The kernel: the core, extended by the variables of \<^verbatim>\<open>secure_el1.c\<close> and the machine.
  \<^verbatim>\<open>sysregs t\<close> is the \<^verbatim>\<open>vm_state\<close> that follows the thread context at \<^verbatim>\<open>t\<close>;
  \<^verbatim>\<open>heap_words\<close> are the 64-bit words of the kernel heap by offset from \<^verbatim>\<open>_start\<close>.\<close>

record kernel = isambard_core +
  core_address :: u64
  threads :: "u64 \<Rightarrow> thread_context"
  sysregs :: "u64 \<Rightarrow> nat \<Rightarrow> u64"
  interfaces :: "nat \<Rightarrow> Interface"
  blocked :: u64
  heap_words :: "u64 \<Rightarrow> u64"
  kernel_tt_l3 :: "nat \<Rightarrow> vmsa_entry"
  kernel_heap_top :: u32
  kernel_heap_bottom :: u32
  kernel_interfaces_offset :: u32
  kernel_free_interface :: u32
  kernel_last_interface :: u32
  shared_system_map :: "nat \<Rightarrow> vmsa_entry"
  shared_system_map_core_page :: u32
  shared_system_map_mapped_pages :: u32
  sp_el0 :: u64
  ttbr0_el1 :: u64
  phys_mem :: "u64 \<Rightarrow> u64"
  drivers :: "nat \<Rightarrow> driver_info"
  number_of_drivers :: nat

record thread_switch =
  sw_then :: u64
  sw_now :: u64

abbreviation stay :: "u64 \<Rightarrow> thread_switch" where
  "stay t \<equiv> \<lparr>sw_then = t, sw_now = t\<rparr>"

section \<open>Constants and thread codes\<close>

definition system_map_index :: u32 where "system_map_index = 1"
definition memory_allocator_map_index :: u32 where "memory_allocator_map_index = 2"
definition illegal_interface_index :: u32 where "illegal_interface_index = 0"
definition top_of_kernel_working_memory :: u32 where "top_of_kernel_working_memory = 2 * 1024 * 1024"
definition max_physical_memory_gb :: nat where "max_physical_memory_gb = 8"

text \<open>The kernel runs at the top 32 MB of the address space.\<close>

definition start_address :: u64 where "start_address = 0xfffffffffe000000"

definition sizeof_thread_context :: u64 where "sizeof_thread_context = 488"
definition sizeof_vm_state :: u64 where "sizeof_vm_state = 144"
definition sizeof_Interface :: u64 where "sizeof_Interface = 24"

definition thread_code :: "u64 \<Rightarrow> u32" where
  "thread_code t = (if t = 0 then 0 else ucast (t - start_address))"

definition thread_from_code :: "u32 \<Rightarrow> u64" where
  "thread_from_code c = (if c = 0 then 0 else start_address + ucast c)"

text \<open>Thread codes name the addresses of the 4 GB above \<^verbatim>\<open>_start\<close> one to one.\<close>

definition kernel_pointer :: "u64 \<Rightarrow> bool" where
  "kernel_pointer t \<longleftrightarrow> start_address < t"

lemma kernel_pointer_offset:
  assumes "kernel_pointer t"
  shows "t - start_address < 2 ^ 32" and "t \<noteq> start_address"
proof -
  have "unat (t - start_address) = unat t - 0xfffffffffe000000"
    using assms by (simp add: kernel_pointer_def start_address_def unat_sub less_imp_le)
  moreover have "unat t < 2 ^ 64" using unsigned_less [of t] by simp
  ultimately have "unat (t - start_address) < 2 ^ 32" by simp
  then show "t - start_address < 2 ^ 32" by (simp add: word_less_nat_alt)
  show "t \<noteq> start_address" using assms by (simp add: kernel_pointer_def)
qed

lemma thread_code_nonzero:
  assumes "kernel_pointer t"
  shows "thread_code t \<noteq> 0"
proof
  assume "thread_code t = 0"
  moreover have "t \<noteq> 0" using assms by (auto simp: kernel_pointer_def)
  ultimately have "(ucast (ucast (t - start_address) :: u32) :: u64) = 0"
    by (simp add: thread_code_def)
  then show False
    using ucast_ucast_u32 [OF kernel_pointer_offset(1) [OF assms]] kernel_pointer_offset(2) [OF assms]
    by simp
qed

lemma thread_from_code_of_thread_code:
  assumes "kernel_pointer t"
  shows "thread_from_code (thread_code t) = t"
proof -
  have "t \<noteq> 0" using assms by (auto simp: kernel_pointer_def)
  then show ?thesis
    using thread_code_nonzero [OF assms] ucast_ucast_u32 [OF kernel_pointer_offset(1) [OF assms]]
    by (simp add: thread_from_code_def thread_code_def)
qed

lemma thread_code_of_thread_from_code:
  assumes "c < 0x2000000"
  shows "thread_code (thread_from_code c) = c"
proof (cases "c = 0")
  case False
  have "unat (start_address + ucast c) = 0xfffffffffe000000 + unat c"
    using assms by (simp add: unat_add_lem [THEN iffD1] start_address_def word_less_nat_alt)
  then have "start_address + ucast c \<noteq> 0" by auto
  with False show ?thesis
    by (simp add: thread_from_code_def thread_code_def)
qed (simp add: thread_from_code_def thread_code_def)

section \<open>Access to thread contexts\<close>

definition upd_thread :: "u64 \<Rightarrow> (thread_context \<Rightarrow> thread_context) \<Rightarrow> kernel \<Rightarrow> kernel" where
  "upd_thread t f k = k\<lparr>threads := (threads k)(t := f (threads k t))\<rparr>"

definition set_reg :: "u64 \<Rightarrow> nat \<Rightarrow> u64 \<Rightarrow> kernel \<Rightarrow> kernel" where
  "set_reg t i v = upd_thread t (\<lambda>c. c\<lparr>regs := (regs c)(i := v)\<rparr>)"

abbreviation reg :: "kernel \<Rightarrow> u64 \<Rightarrow> nat \<Rightarrow> u64" where
  "reg k t i \<equiv> regs (threads k t) i"

text \<open>Register numbers stay numerals in proofs.\<close>

declare One_nat_def [simp del]

lemma threads_upd_thread [simp]:
  "threads (upd_thread t f k) = (threads k)(t := f (threads k t))"
  by (simp add: upd_thread_def)

lemma upd_thread_frame [simp]:
  "runnable (upd_thread t f k) = runnable k"
  "blocked (upd_thread t f k) = blocked k"
  "blocked_with_timeout (upd_thread t f k) = blocked_with_timeout k"
  "interrupt_thread (upd_thread t f k) = interrupt_thread k"
  "interfaces (upd_thread t f k) = interfaces k"
  "kernel_heap_bottom (upd_thread t f k) = kernel_heap_bottom k"
  "kernel_heap_top (upd_thread t f k) = kernel_heap_top k"
  "kernel_last_interface (upd_thread t f k) = kernel_last_interface k"
  "kernel_free_interface (upd_thread t f k) = kernel_free_interface k"
  "core_address (upd_thread t f k) = core_address k"
  "loaded_map (upd_thread t f k) = loaded_map k"
  "core_tt_l1 (upd_thread t f k) = core_tt_l1 k"
  "core_tt_l2 (upd_thread t f k) = core_tt_l2 k"
  "core_tt_l3 (upd_thread t f k) = core_tt_l3 k"
  "physical_address (upd_thread t f k) = physical_address k"
  "phys_mem (upd_thread t f k) = phys_mem k"
  "sp_el0 (upd_thread t f k) = sp_el0 k"
  "heap_words (upd_thread t f k) = heap_words k"
  "kernel_tt_l3 (upd_thread t f k) = kernel_tt_l3 k"
  "sysregs (upd_thread t f k) = sysregs k"
  "shared_system_map (upd_thread t f k) = shared_system_map k"
  "shared_system_map_core_page (upd_thread t f k) = shared_system_map_core_page k"
  "shared_system_map_mapped_pages (upd_thread t f k) = shared_system_map_mapped_pages k"
  by (simp_all add: upd_thread_def)

section \<open>The table walk\<close>

definition tt_l3_address :: "kernel \<Rightarrow> u64" where "tt_l3_address k = physical_address k + 4096"
definition tt_l2_address :: "kernel \<Rightarrow> u64" where "tt_l2_address k = physical_address k + 8192"
definition tt_l1_address :: "kernel \<Rightarrow> u64" where "tt_l1_address k = physical_address k + 12288"

definition index_l1 :: "u64 \<Rightarrow> nat" where "index_l1 va = unat (get_field 30 9 va)"
definition index_l2 :: "u64 \<Rightarrow> nat" where "index_l2 va = unat (get_field 21 9 va)"
definition index_l3 :: "u64 \<Rightarrow> nat" where "index_l3 va = unat (get_field 12 9 va)"

lemma index_bounds [simp]: "index_l1 va < 512" "index_l2 va < 512" "index_l3 va < 512"
  using get_field_lt [of 9 30 va] get_field_lt [of 9 21 va] get_field_lt [of 9 12 va]
  by (simp_all add: index_l1_def index_l2_def index_l3_def word_less_nat_alt)

text \<open>The leaf entry for a low address and the number of address bits it leaves to the offset.
  \<^verbatim>\<open>TCR_EL1.T0SZ\<close> is 30, so the tables cover 34-bit addresses; a table entry leads on only
  when it holds the address of the core's next table, as no other table exists.\<close>

definition walk :: "kernel \<Rightarrow> u64 \<Rightarrow> (vmsa_entry \<times> nat) option" where
  "walk k va =
    (if drop_bit 34 va \<noteq> 0 then None
     else let e1 = core_tt_l1 k (index_l1 va) in
       case entry_kind e1 of
         Invalid_entry \<Rightarrow> None
       | Block_entry \<Rightarrow> Some (e1, 30)
       | Table_entry \<Rightarrow>
          (if entry_address e1 \<noteq> tt_l2_address k then None
           else let e2 = core_tt_l2 k (index_l2 va) in
             case entry_kind e2 of
               Invalid_entry \<Rightarrow> None
             | Block_entry \<Rightarrow> Some (e2, 21)
             | Table_entry \<Rightarrow>
                (if entry_address e2 \<noteq> tt_l3_address k then None
                 else let e3 = core_tt_l3 k (index_l3 va) in
                   case entry_kind e3 of
                     Table_entry \<Rightarrow> Some (e3, 12)
                   | _ \<Rightarrow> None)))"

text \<open>The output address; \<^verbatim>\<open>TCR_EL1.IPS\<close> is 0, so addresses above 4 GB do not translate.\<close>

definition output_address :: "vmsa_entry \<Rightarrow> nat \<Rightarrow> u64 \<Rightarrow> u64" where
  "output_address e lsb va = (entry_address e AND NOT (mask lsb)) OR (va AND mask lsb)"

definition translate :: "kernel \<Rightarrow> u64 \<Rightarrow> (u64 \<times> vmsa_entry) option" where
  "translate k va =
    (case walk k va of
       None \<Rightarrow> None
     | Some (e, lsb) \<Rightarrow>
        (let pa = output_address e lsb va
         in if drop_bit 32 pa \<noteq> 0 \<or> \<not> bit e 10 then None else Some (pa, e)))"

text \<open>\<^verbatim>\<open>AT S1E0W\<close> followed by a read of \<^verbatim>\<open>PAR_EL1\<close>: bit 0 is set on failure; on success the page
  of the output address, of which the kernel uses bits 51 to 12.\<close>

definition at_s1e0w :: "kernel \<Rightarrow> u64 \<Rightarrow> u64" where
  "at_s1e0w k va =
    (case translate k va of
       None \<Rightarrow> 1
     | Some (pa, e) \<Rightarrow> if writable_by_el0 e then pa AND NOT (mask 12) else 1)"

text \<open>Accesses of the kernel (at EL1) to a low address; a failing access enters
  \<^verbatim>\<open>SEL1_SPX_SYNC_CODE\<close>, whose \<^verbatim>\<open>incompatible_event\<close> stops at line 542.\<close>

definition read_user64 :: "kernel \<Rightarrow> u64 \<Rightarrow> u64 result" where
  "read_user64 k va =
    (case translate k va of None \<Rightarrow> Inl (BSOD 542) | Some (pa, e) \<Rightarrow> Inr (phys_mem k pa))"

definition write_user64 :: "kernel \<Rightarrow> u64 \<Rightarrow> u64 \<Rightarrow> kernel result" where
  "write_user64 k va v =
    (case translate k va of
       None \<Rightarrow> Inl (BSOD 542)
     | Some (pa, e) \<Rightarrow>
        if writable_by_el1 e then Inr (k\<lparr>phys_mem := (phys_mem k)(pa := v)\<rparr>) else Inl (BSOD 542))"

lemma at_s1e0w_ok_iff:
  "\<not> bit (at_s1e0w k va) 0 \<longleftrightarrow> (\<exists>pa e. translate k va = Some (pa, e) \<and> writable_by_el0 e)"
  by (auto simp: at_s1e0w_def bit_simps split: option.splits prod.splits if_splits)

lemma writable_by_el0_imp_el1: "writable_by_el0 e \<Longrightarrow> writable_by_el1 e"
  by (simp add: mmu_reads)

lemma walk_cong:
  assumes "core_tt_l1 k' = core_tt_l1 k" "core_tt_l2 k' = core_tt_l2 k" "core_tt_l3 k' = core_tt_l3 k"
    and "physical_address k' = physical_address k"
  shows "walk k' va = walk k va"
  unfolding walk_def Let_def tt_l2_address_def tt_l3_address_def by (simp only: assms)

lemma translate_cong:
  assumes "core_tt_l1 k' = core_tt_l1 k" "core_tt_l2 k' = core_tt_l2 k" "core_tt_l3 k' = core_tt_l3 k"
    and "physical_address k' = physical_address k"
  shows "translate k' va = translate k va"
  using walk_cong [OF assms] by (simp add: translate_def)

lemma translate_upd_thread [simp]: "translate (upd_thread t f k) va = translate k va"
  by (rule translate_cong) simp_all

lemma translate_frame [simp]:
  "translate (k\<lparr>runnable := r\<rparr>) va = translate k va"
  "translate (k\<lparr>blocked := b\<rparr>) va = translate k va"
  "translate (k\<lparr>blocked_with_timeout := b\<rparr>) va = translate k va"
  "translate (k\<lparr>phys_mem := m\<rparr>) va = translate k va"
  "translate (k\<lparr>interrupt_thread := it\<rparr>) va = translate k va"
  "translate (k\<lparr>threads := h\<rparr>) va = translate k va"
  by (rule translate_cong; simp)+

lemma read_write_user64:
  assumes "write_user64 k va v = Inr k'"
  shows "read_user64 k' va = Inr v"
  using assms by (auto simp: write_user64_def read_user64_def split: option.splits prod.splits if_splits)

text \<open>Accesses of the kernel to the 64-bit words of its own 2 MB, by offset from \<^verbatim>\<open>_start\<close>:
  \<^verbatim>\<open>kernel_tt_l3\<close> decides whether the page is there and may be written.\<close>

definition read_kernel64 :: "kernel \<Rightarrow> u64 \<Rightarrow> u64 result" where
  "read_kernel64 k off =
    (if off < 0x200000 \<and> bit (kernel_tt_l3 k (unat (drop_bit 12 off))) 0
     then Inr (heap_words k off) else Inl (BSOD 542))"

definition write_kernel64 :: "kernel \<Rightarrow> u64 \<Rightarrow> u64 \<Rightarrow> kernel result" where
  "write_kernel64 k off v =
    (if off < 0x200000 \<and> bit (kernel_tt_l3 k (unat (drop_bit 12 off))) 0
        \<and> \<not> bit (kernel_tt_l3 k (unat (drop_bit 12 off))) 7
     then Inr (k\<lparr>heap_words := (heap_words k)(off := v)\<rparr>) else Inl (BSOD 542))"

text \<open>Reading and writing a \<^verbatim>\<open>thread_context *\<close> through the pointers the list code stores.\<close>

definition deref_list :: "kernel \<Rightarrow> list_ref \<Rightarrow> u64 result" where
  "deref_list k r =
    (case r of
       Null_list \<Rightarrow> read_user64 k 0
     | Runnable_list \<Rightarrow> Inr (runnable k)
     | Blocked_list \<Rightarrow> Inr (blocked k))"

definition assign_list :: "kernel \<Rightarrow> list_ref \<Rightarrow> u64 \<Rightarrow> kernel result" where
  "assign_list k r v =
    (case r of
       Null_list \<Rightarrow> write_user64 k 0 v
     | Runnable_list \<Rightarrow> Inr (k\<lparr>runnable := v\<rparr>)
     | Blocked_list \<Rightarrow> Inr (k\<lparr>blocked := v\<rparr>))"

end
