(* ===== verification/Dll.thy ===== *)
theory Dll
  imports Kernel_State
begin

text \<open>
  Owned doubly linked lists of threads (\<^verbatim>\<open>include/doubly_linked_lists.h\<close> instantiated by
  \<^verbatim>\<open>DEFINE_DOUBLE_LINKED_LIST( thread, thread_context, next, prev, list )\<close>).

  The operations are translated statement by statement on the thread heap.  The predicate
  \<^verbatim>\<open>ring\<close> abstracts a circular list to the list of its members from a given head; insertion
  and removal refine the list operations, counting returns the length, and threads outside the ring
  keep their links.
\<close>

section \<open>The operations\<close>

definition set_next :: "u64 \<Rightarrow> u64 \<Rightarrow> kernel \<Rightarrow> kernel" where
  "set_next a v = upd_thread a (\<lambda>c. c\<lparr>t_next := v\<rparr>)"

definition set_prev :: "u64 \<Rightarrow> u64 \<Rightarrow> kernel \<Rightarrow> kernel" where
  "set_prev a v = upd_thread a (\<lambda>c. c\<lparr>t_prev := v\<rparr>)"

definition set_list :: "u64 \<Rightarrow> list_ref \<Rightarrow> kernel \<Rightarrow> kernel" where
  "set_list a v = upd_thread a (\<lambda>c. c\<lparr>t_list := v\<rparr>)"

lemmas link_setters = set_next_def set_prev_def set_list_def

definition insert_new_thread_after_old :: "u64 \<Rightarrow> u64 \<Rightarrow> kernel \<Rightarrow> kernel" where
  "insert_new_thread_after_old new old k =
    (let k = set_next new (t_next (threads k old)) k;
         k = set_prev new old k;
         k = set_next old new k;
         k = set_prev (t_next (threads k new)) new k
     in set_list new (t_list (threads k old)) k)"

definition insert_new_thread_before_old :: "u64 \<Rightarrow> u64 \<Rightarrow> kernel \<Rightarrow> kernel" where
  "insert_new_thread_before_old new old k =
    (let k = set_next new old k;
         k = set_prev new (t_prev (threads k old)) k;
         k = set_prev old new k;
         k = set_next (t_prev (threads k new)) new k
     in set_list new (t_list (threads k old)) k)"

definition insert_thread_at_tail :: "list_ref \<Rightarrow> u64 \<Rightarrow> kernel \<Rightarrow> kernel result" where
  "insert_thread_at_tail list new_tail k =
    rbind (deref_list k list) (\<lambda>old_head.
      if old_head = 0 then
        (let k = set_next new_tail new_tail k;
             k = set_prev new_tail new_tail k;
             k = set_list new_tail list k
         in assign_list k list new_tail)
      else Inr (insert_new_thread_before_old new_tail old_head k))"

definition insert_thread_as_head :: "list_ref \<Rightarrow> u64 \<Rightarrow> kernel \<Rightarrow> kernel result" where
  "insert_thread_as_head list new_head k =
    rbind (insert_thread_at_tail list new_head k) (\<lambda>k. assign_list k list new_head)"

text \<open>The counting loop follows \<^verbatim>\<open>next\<close> until it is back at the head; on links that never lead
  back it does not return.\<close>

partial_function (option) count_thread_loop :: "kernel \<Rightarrow> u64 \<Rightarrow> u64 \<Rightarrow> nat \<Rightarrow> nat option" where
  "count_thread_loop k list entry result =
    (if list = entry then Some result
     else count_thread_loop k list (t_next (threads k entry)) (result + 1))"

definition count_thread_entries :: "kernel \<Rightarrow> u64 \<Rightarrow> nat option" where
  "count_thread_entries k list =
    (if list = 0 then Some 0 else count_thread_loop k list (t_next (threads k list)) 1)"

partial_function (option) foreach_thread_loop ::
    "kernel \<Rightarrow> u64 \<Rightarrow> (u64 \<Rightarrow> int) \<Rightarrow> u64 \<Rightarrow> int option" where
  "foreach_thread_loop k list func entry =
    (let result = func entry; entry = t_next (threads k entry) in
     if list \<noteq> entry \<and> result = 0 then foreach_thread_loop k list func entry else Some result)"

definition foreach_thread_entry_until :: "kernel \<Rightarrow> u64 \<Rightarrow> (u64 \<Rightarrow> int) \<Rightarrow> int option" where
  "foreach_thread_entry_until k list func =
    (if list = 0 then Some 0 else foreach_thread_loop k list func list)"

text \<open>Unlinking, after the list head has been moved on.\<close>

definition unlink_thread :: "u64 \<Rightarrow> kernel \<Rightarrow> kernel" where
  "unlink_thread entry k =
    (let k = set_next (t_prev (threads k entry)) (t_next (threads k entry)) k;
         k = set_prev (t_next (threads k entry)) (t_prev (threads k entry)) k;
         k = set_prev entry entry k
     in set_next entry entry k)"

definition remove_thread :: "u64 \<Rightarrow> kernel \<Rightarrow> kernel result" where
  "remove_thread entry k =
    rbind (deref_list k (t_list (threads k entry))) (\<lambda>head.
    rbind
      (if head = entry then
         (let head = t_next (threads k head) in
          if head = entry then assign_list k (t_list (threads k entry)) 0
          else assign_list k (t_list (threads k entry)) head)
       else Inr k)
      (\<lambda>k. Inr (unlink_thread entry k)))"

section \<open>Effect on the fields of a thread\<close>

lemma insert_after_links [simp]:
  assumes "new \<noteq> old"
  shows "t_next (threads (insert_new_thread_after_old new old k) z) =
           (if z = new then t_next (threads k old) else if z = old then new else t_next (threads k z))"
    and "t_prev (threads (insert_new_thread_after_old new old k) z) =
           (if z = t_next (threads k old) then new else if z = new then old else t_prev (threads k z))"
    and "t_list (threads (insert_new_thread_after_old new old k) z) =
           (if z = new then t_list (threads k old) else t_list (threads k z))"
  using assms by (auto simp: insert_new_thread_after_old_def link_setters Let_def)

lemma insert_before_links [simp]:
  assumes "new \<noteq> old"
  shows "t_next (threads (insert_new_thread_before_old new old k) z) =
           (if z = t_prev (threads k old) then new else if z = new then old else t_next (threads k z))"
    and "t_prev (threads (insert_new_thread_before_old new old k) z) =
           (if z = new then t_prev (threads k old) else if z = old then new else t_prev (threads k z))"
    and "t_list (threads (insert_new_thread_before_old new old k) z) =
           (if z = new then t_list (threads k old) else t_list (threads k z))"
  using assms by (auto simp: insert_new_thread_before_old_def link_setters Let_def)

lemma unlink_links:
  assumes "t_prev (threads k e) \<noteq> e" and "t_next (threads k e) \<noteq> e"
  shows "t_next (threads (unlink_thread e k) z) =
           (if z = e then e else if z = t_prev (threads k e) then t_next (threads k e)
            else t_next (threads k z))"
    and "t_prev (threads (unlink_thread e k) z) =
           (if z = e then e else if z = t_next (threads k e) then t_prev (threads k e)
            else t_prev (threads k z))"
  using assms by (auto simp: unlink_thread_def link_setters Let_def)

lemma unlink_list [simp]: "t_list (threads (unlink_thread e k) z) = t_list (threads k z)"
  by (simp add: unlink_thread_def link_setters Let_def)

text \<open>Everything but the three link members of a thread is its payload; list operations keep it.\<close>

definition payload :: "thread_context \<Rightarrow> thread_context" where
  "payload c = c\<lparr>t_next := 0, t_prev := 0, t_list := Null_list\<rparr>"

lemma payload_fields:
  assumes "payload c = payload d"
  shows "regs c = regs d" and "partner c = partner d" and "t_sp c = t_sp d" and "t_pc c = t_pc d"
    and "spsr c = spsr d" and "gate c = gate d" and "current_map c = current_map d"
    and "stack_pointer c = stack_pointer d" and "stack_limit c = stack_limit d"
    and "stack c = stack d" and "t_fp c = t_fp d" and "current_core c = current_core d"
  using assms by (cases c; cases d; simp add: payload_def)+

lemma payload_links [simp]:
  "payload (c\<lparr>t_next := a\<rparr>) = payload c"
  "payload (c\<lparr>t_prev := a\<rparr>) = payload c"
  "payload (c\<lparr>t_list := l\<rparr>) = payload c"
  by (simp_all add: payload_def)

lemma payload_insert_after [simp]:
  "payload (threads (insert_new_thread_after_old new old k) z) = payload (threads k z)"
  by (simp add: insert_new_thread_after_old_def link_setters Let_def)

lemma payload_insert_before [simp]:
  "payload (threads (insert_new_thread_before_old new old k) z) = payload (threads k z)"
  by (simp add: insert_new_thread_before_old_def link_setters Let_def)

lemma payload_unlink [simp]:
  "payload (threads (unlink_thread e k) z) = payload (threads k z)"
  by (simp add: unlink_thread_def link_setters Let_def)

lemmas insert_after_fields [simp] = payload_fields [OF payload_insert_after]
lemmas insert_before_fields [simp] = payload_fields [OF payload_insert_before]
lemmas unlink_fields [simp] = payload_fields [OF payload_unlink]

text \<open>Nothing but the thread heap changes.\<close>

lemma insert_after_frame:
  "insert_new_thread_after_old new old k =
     k\<lparr>threads := threads (insert_new_thread_after_old new old k)\<rparr>"
  by (simp add: insert_new_thread_after_old_def link_setters Let_def upd_thread_def)

lemma insert_before_frame:
  "insert_new_thread_before_old new old k =
     k\<lparr>threads := threads (insert_new_thread_before_old new old k)\<rparr>"
  by (simp add: insert_new_thread_before_old_def link_setters Let_def upd_thread_def)

lemma unlink_frame: "unlink_thread e k = k\<lparr>threads := threads (unlink_thread e k)\<rparr>"
  by (simp add: unlink_thread_def link_setters Let_def upd_thread_def)

lemma insert_after_state [simp]:
  "runnable (insert_new_thread_after_old new old k) = runnable k"
  "blocked (insert_new_thread_after_old new old k) = blocked k"
  "blocked_with_timeout (insert_new_thread_after_old new old k) = blocked_with_timeout k"
  "interrupt_thread (insert_new_thread_after_old new old k) = interrupt_thread k"
  "core_address (insert_new_thread_after_old new old k) = core_address k"
  "phys_mem (insert_new_thread_after_old new old k) = phys_mem k"
  "translate (insert_new_thread_after_old new old k) = translate k"
  by (subst insert_after_frame, simp add: fun_eq_iff)+

lemma insert_before_state [simp]:
  "runnable (insert_new_thread_before_old new old k) = runnable k"
  "blocked (insert_new_thread_before_old new old k) = blocked k"
  "blocked_with_timeout (insert_new_thread_before_old new old k) = blocked_with_timeout k"
  "interrupt_thread (insert_new_thread_before_old new old k) = interrupt_thread k"
  "core_address (insert_new_thread_before_old new old k) = core_address k"
  "phys_mem (insert_new_thread_before_old new old k) = phys_mem k"
  "translate (insert_new_thread_before_old new old k) = translate k"
  by (subst insert_before_frame, simp add: fun_eq_iff)+

lemma unlink_state [simp]:
  "runnable (unlink_thread e k) = runnable k"
  "blocked (unlink_thread e k) = blocked k"
  "blocked_with_timeout (unlink_thread e k) = blocked_with_timeout k"
  "interrupt_thread (unlink_thread e k) = interrupt_thread k"
  "core_address (unlink_thread e k) = core_address k"
  "phys_mem (unlink_thread e k) = phys_mem k"
  "translate (unlink_thread e k) = translate k"
  by (subst unlink_frame, simp add: fun_eq_iff)+

section \<open>Rings\<close>

type_synonym thread_heap = "u64 \<Rightarrow> thread_context"

fun chain :: "thread_heap \<Rightarrow> u64 \<Rightarrow> u64 list \<Rightarrow> u64 \<Rightarrow> bool" where
  "chain h a [] b \<longleftrightarrow> t_next (h a) = b \<and> t_prev (h b) = a"
| "chain h a (x # xs) b \<longleftrightarrow> t_next (h a) = x \<and> t_prev (h x) = a \<and> chain h x xs b"

fun ring :: "thread_heap \<Rightarrow> u64 list \<Rightarrow> bool" where
  "ring h [] \<longleftrightarrow> False"
| "ring h (x # xs) \<longleftrightarrow> distinct (x # xs) \<and> 0 \<notin> set (x # xs) \<and> chain h x xs x"

lemma chain_append:
  "chain h a (xs @ y # ys) b \<longleftrightarrow> chain h a xs y \<and> chain h y ys b"
  by (induction xs arbitrary: a) auto

lemma chain_cong:
  assumes "\<And>x. x \<in> insert a (set xs) \<Longrightarrow> t_next (h' x) = t_next (h x)"
    and "\<And>x. x \<in> insert b (set xs) \<Longrightarrow> t_prev (h' x) = t_prev (h x)"
  shows "chain h' a xs b \<longleftrightarrow> chain h a xs b"
  using assms by (induction xs arbitrary: a) auto

lemma ring_cong:
  assumes "\<And>x. x \<in> set xs \<Longrightarrow> t_next (h' x) = t_next (h x) \<and> t_prev (h' x) = t_prev (h x)"
  shows "ring h' xs \<longleftrightarrow> ring h xs"
proof (cases xs)
  case (Cons y ys)
  then show ?thesis using assms chain_cong [of y ys h' h y] by auto
qed simp

lemma ring_rotate: "ring h (xs @ ys) \<longleftrightarrow> ring h (ys @ xs)"
  by (cases xs; cases ys) (auto simp: chain_append)

lemma ring_nonempty: "ring h xs \<Longrightarrow> xs \<noteq> []"
  by auto

lemma ring_distinct: "ring h xs \<Longrightarrow> distinct xs"
  by (cases xs) auto

lemma ring_nonnull: "ring h xs \<Longrightarrow> 0 \<notin> set xs"
  by (cases xs) auto

lemma ring_next_head: "ring h (x # y # ys) \<Longrightarrow> t_next (h x) = y"
  by simp

lemma chain_last: "chain h a xs b \<Longrightarrow> t_prev (h b) = last (a # xs)"
  by (induction xs arbitrary: a) auto

lemma chain_first: "chain h a xs b \<Longrightarrow> t_next (h a) = hd (xs @ [b])"
  by (cases xs) auto

text \<open>Following \<^verbatim>\<open>next\<close> or \<^verbatim>\<open>prev\<close> from a member stays in the ring, and the two are inverse.\<close>

lemma ring_member_links:
  assumes "ring h xs" and "x \<in> set xs"
  shows "t_next (h x) \<in> set xs" and "t_prev (h x) \<in> set xs"
    and "t_prev (h (t_next (h x))) = x" and "t_next (h (t_prev (h x))) = x"
proof -
  obtain as bs where xs: "xs = as @ x # bs" using assms(2) by (meson split_list)
  have r: "chain h x (bs @ as) x"
    using assms(1) ring_rotate [of h as "x # bs"] unfolding xs by simp
  have "t_next (h x) = hd (bs @ as @ [x])" using chain_first [OF r] by simp
  then show "t_next (h x) \<in> set xs" unfolding xs by (cases bs; cases as) auto
  have p: "t_prev (h x) = last (x # bs @ as)" using chain_last [OF r] .
  have "last (x # bs @ as) \<in> set (x # bs @ as)" by (rule last_in_set) simp
  then show "t_prev (h x) \<in> set xs" unfolding xs p by auto
  show "t_prev (h (t_next (h x))) = x" using r by (cases "bs @ as") auto
  show "t_next (h (t_prev (h x))) = x"
  proof (cases "bs @ as" rule: rev_cases)
    case Nil then show ?thesis using r p by simp
  next
    case (snoc ys y)
    then show ?thesis using r p by (simp add: chain_append)
  qed
qed

section \<open>The interface of a ring\<close>

text \<open>What the clients of the lists rely on: rings may be read from any member, a member can be added
  after or before the head and the head can be unlinked.\<close>

locale ring_interface =
  fixes is_ring :: "'s \<Rightarrow> 'a list \<Rightarrow> bool"
    and ok :: "'a \<Rightarrow> bool"
    and insert_after insert_before :: "'a \<Rightarrow> 'a \<Rightarrow> 's \<Rightarrow> 's"
    and unlink :: "'a \<Rightarrow> 's \<Rightarrow> 's"
  assumes rotate: "is_ring s (xs @ ys) \<longleftrightarrow> is_ring s (ys @ xs)"
    and after_head: "is_ring s (x # xs) \<Longrightarrow> new \<notin> set (x # xs) \<Longrightarrow> ok new \<Longrightarrow>
          is_ring (insert_after new x s) (x # new # xs)"
    and before_head: "is_ring s (x # xs) \<Longrightarrow> new \<notin> set (x # xs) \<Longrightarrow> ok new \<Longrightarrow>
          is_ring (insert_before new x s) (x # xs @ [new])"
    and unlink_head: "is_ring s (e # x # xs) \<Longrightarrow> is_ring (unlink e s) (x # xs)"
begin

lemma after_member:
  assumes "is_ring s (as @ x # bs)" "new \<notin> set (as @ x # bs)" "ok new"
  shows "is_ring (insert_after new x s) (as @ x # new # bs)"
proof -
  have "is_ring s (x # bs @ as)" using assms(1) rotate [of s as "x # bs"] by simp
  then have "is_ring (insert_after new x s) ((x # new # bs) @ as)"
    using after_head [of s x "bs @ as" new] assms by auto
  then show ?thesis using rotate [of _ as "x # new # bs"] by simp
qed

lemma before_member:
  assumes "is_ring s (as @ x # bs)" "new \<notin> set (as @ x # bs)" "ok new"
  shows "is_ring (insert_before new x s) (as @ new # x # bs)"
proof -
  have "is_ring s (x # bs @ as)" using assms(1) rotate [of s as "x # bs"] by simp
  then have "is_ring (insert_before new x s) ((x # bs) @ as @ [new])"
    using before_head [of s x "bs @ as" new] assms by auto
  then show ?thesis using rotate [of _ "as @ [new]" "x # bs"] by simp
qed

lemma unlink_member:
  assumes "is_ring s (as @ e # bs)" "as @ bs \<noteq> []"
  shows "is_ring (unlink e s) (as @ bs)"
proof -
  have r: "is_ring s (e # bs @ as)" using assms(1) rotate [of s as "e # bs"] by simp
  obtain y ys where y: "bs @ as = y # ys" using assms(2) by (cases "bs @ as") auto
  have "is_ring (unlink e s) (bs @ as)" using r unlink_head unfolding y by simp
  then show ?thesis by (simp add: rotate)
qed

lemma insert_then_unlink:
  assumes "is_ring s (as @ x # bs)" "new \<notin> set (as @ x # bs)" "ok new"
  shows "is_ring (unlink new (insert_after new x s)) (as @ x # bs)"
  using unlink_member [of "insert_after new x s" "as @ [x]" new bs] after_member [OF assms] by simp

end

lemma ring_insert_after_head:
  assumes "ring (threads k) (x # xs)" and "new \<notin> set (x # xs)" and "new \<noteq> 0"
  shows "ring (threads (insert_new_thread_after_old new x k)) (x # new # xs)"
proof (cases xs)
  case Nil
  then show ?thesis using assms by simp
next
  case (Cons y ys)
  have "chain (threads (insert_new_thread_after_old new x k)) y ys x \<longleftrightarrow> chain (threads k) y ys x"
    by (rule chain_cong) (use assms Cons in auto)
  then show ?thesis using assms Cons by auto
qed

lemma ring_insert_before_head:
  assumes r: "ring (threads k) (x # xs)" and "new \<notin> set (x # xs)" and "new \<noteq> 0"
  shows "ring (threads (insert_new_thread_before_old new x k)) (x # xs @ [new])"
proof (cases xs rule: rev_cases)
  case Nil
  then show ?thesis using assms by simp
next
  case (snoc ys y)
  then have c: "chain (threads k) x ys y" "t_next (threads k y) = x" "t_prev (threads k x) = y"
    using r by (simp_all add: chain_append)
  have "chain (threads (insert_new_thread_before_old new x k)) x ys y \<longleftrightarrow> chain (threads k) x ys y"
    by (rule chain_cong) (use assms snoc c in auto)
  then show ?thesis using assms snoc c by (auto simp: chain_append)
qed

lemma ring_unlink_head:
  assumes r: "ring (threads k) (e # x # xs)"
  shows "ring (threads (unlink_thread e k)) (x # xs)"
proof -
  let ?h = "threads k" and ?h' = "threads (unlink_thread e k)"
  have n: "t_next (?h e) = x" using r by simp
  have c: "chain ?h x xs e" using r by simp
  then have p: "t_prev (?h e) = last (x # xs)" by (rule chain_last)
  then have pe: "t_prev (?h e) \<noteq> e" "t_next (?h e) \<noteq> e" using r n last_in_set [of "x # xs"] by auto
  note links = unlink_links [OF pe]
  show ?thesis
  proof (cases xs rule: rev_cases)
    case Nil
    then show ?thesis using r n p by (simp add: links)
  next
    case (snoc ys y)
    have "chain ?h' x ys y \<longleftrightarrow> chain ?h x ys y"
      by (rule chain_cong) (use r snoc p n in \<open>auto simp: links\<close>)
    then show ?thesis using r c snoc p n by (auto simp: links chain_append)
  qed
qed

lemma ring_unlinked_self: "x \<noteq> 0 \<Longrightarrow> ring (threads (unlink_thread x k)) [x]"
  by (simp add: unlink_thread_def link_setters Let_def)

text \<open>A ring is untouched by operations on threads it does not contain.\<close>

lemma ring_other_insert_after:
  assumes "ring (threads k) ys" "new \<notin> set ys" "old \<notin> set ys" "t_next (threads k old) \<notin> set ys"
    and "new \<noteq> old"
  shows "ring (threads (insert_new_thread_after_old new old k)) ys"
  using assms by (subst ring_cong [of _ _ "threads k"]) auto

lemma ring_other_insert_before:
  assumes "ring (threads k) ys" "new \<notin> set ys" "old \<notin> set ys" "t_prev (threads k old) \<notin> set ys"
    and "new \<noteq> old"
  shows "ring (threads (insert_new_thread_before_old new old k)) ys"
  using assms by (subst ring_cong [of _ _ "threads k"]) auto

lemma ring_other_unlink:
  assumes "ring (threads k) ys" "e \<notin> set ys" "t_next (threads k e) \<notin> set ys" "t_prev (threads k e) \<notin> set ys"
  shows "ring (threads (unlink_thread e k)) ys"
  using assms
  by (subst ring_cong [of _ _ "threads k"]) (auto simp: unlink_thread_def link_setters Let_def)

interpretation thread_ring: ring_interface "\<lambda>k. ring (threads k)" "\<lambda>t. t \<noteq> 0"
  insert_new_thread_after_old insert_new_thread_before_old unlink_thread
proof (unfold_locales, goal_cases)
  case (1 s xs ys) show ?case by (rule ring_rotate)
next
  case (2 s x xs new) then show ?case by (rule ring_insert_after_head)
next
  case (3 s x xs new) then show ?case by (rule ring_insert_before_head)
next
  case (4 s e x xs) then show ?case by (rule ring_unlink_head)
qed

section \<open>Lists with a head\<close>

text \<open>\<^verbatim>\<open>queue k r xs\<close>: the list whose head pointer is \<^verbatim>\<open>r\<close> has the members \<^verbatim>\<open>xs\<close>.\<close>

definition queue :: "kernel \<Rightarrow> list_ref \<Rightarrow> u64 list \<Rightarrow> bool" where
  "queue k r xs \<longleftrightarrow>
     (if xs = [] then deref_list k r = Inr 0
      else ring (threads k) xs \<and> deref_list k r = Inr (hd xs))"

lemma count_thread_loop_ring:
  assumes "chain (threads k) a xs x" and "x \<notin> set xs" and "a \<noteq> x"
  shows "count_thread_loop k x a n = Some (n + length xs + 1)"
  using assms
proof (induction xs arbitrary: a n)
  case Nil
  then show ?case by (simp add: count_thread_loop.simps [of k x a] count_thread_loop.simps [of k x x])
next
  case (Cons y ys)
  then show ?case using Cons.IH [of y "Suc n"] by (auto simp: count_thread_loop.simps [of k x a])
qed

text \<open>A walk over a member list visits it in order and stops at the first non-zero result.\<close>

fun first_result :: "('a \<Rightarrow> int) \<Rightarrow> 'a list \<Rightarrow> int" where
  "first_result f [] = 0"
| "first_result f (x # xs) = (if f x \<noteq> 0 then f x else first_result f xs)"

lemma foreach_thread_loop_ring:
  assumes "chain (threads k) a xs x" and "x \<notin> set xs"
  shows "foreach_thread_loop k x f a = Some (first_result f (a # xs))"
  using assms
proof (induction xs arbitrary: a)
  case Nil
  then show ?case by (simp add: foreach_thread_loop.simps [of k x f a])
next
  case (Cons y ys)
  then show ?case by (auto simp: foreach_thread_loop.simps [of k x f a])
qed

lemma count_ring:
  assumes "ring (threads k) (x # xs)"
  shows "count_thread_entries k x = Some (length (x # xs))"
proof (cases xs)
  case Nil
  then show ?thesis
    using assms by (simp add: count_thread_entries_def count_thread_loop.simps [of k x x])
next
  case (Cons y ys)
  then show ?thesis
    using assms count_thread_loop_ring [of k y ys x 1] by (auto simp: count_thread_entries_def)
qed

lemma foreach_ring:
  assumes "ring (threads k) (x # xs)"
  shows "foreach_thread_entry_until k x f = Some (first_result f (x # xs))"
  using assms foreach_thread_loop_ring [of k x xs x f] by (simp add: foreach_thread_entry_until_def)

text \<open>The operations through a head pointer refine the list operations.\<close>

definition is_head :: "list_ref \<Rightarrow> bool" where
  "is_head r \<longleftrightarrow> r \<noteq> Null_list"

lemma deref_list_head:
  assumes "is_head r"
  shows "deref_list k r = Inr (if r = Runnable_list then runnable k else blocked k)"
  using assms by (cases r) (auto simp: deref_list_def is_head_def)

lemma deref_head_state [simp]:
  "is_head r \<Longrightarrow> deref_list (unlink_thread e k) r = deref_list k r"
  "is_head r \<Longrightarrow> deref_list (insert_new_thread_before_old n p k) r = deref_list k r"
  "is_head r \<Longrightarrow> deref_list (insert_new_thread_after_old n p k) r = deref_list k r"
  "is_head r \<Longrightarrow> deref_list (upd_thread t f k) r = deref_list k r"
  by (simp_all add: deref_list_head)

lemma assign_list_head:
  assumes "is_head r"
  obtains k' where "assign_list k r v = Inr k'" "threads k' = threads k" "deref_list k' r = Inr v"
  using assms by (cases r) (auto simp: assign_list_def is_head_def deref_list_def)

lemma queue_insert_tail:
  assumes "queue k r xs" and "is_head r" and "new \<notin> set xs" and "new \<noteq> 0"
  obtains k' where "insert_thread_at_tail r new k = Inr k'" and "queue k' r (xs @ [new])"
proof (cases xs)
  case Nil
  let ?k = "set_list new r (set_prev new new (set_next new new k))"
  obtain k' where k': "assign_list ?k r new = Inr k'" "threads k' = threads ?k" "deref_list k' r = Inr new"
    by (rule assign_list_head [OF assms(2)])
  have "queue k' r [new]"
    using k' assms(4) by (simp add: queue_def) (simp add: link_setters)
  then show ?thesis
    using that [of k'] Nil assms(1) k'(1) by (simp add: insert_thread_at_tail_def queue_def Let_def)
next
  case (Cons x ys)
  have r: "ring (threads k) (x # ys)" and d: "deref_list k r = Inr x" and x: "x \<noteq> 0"
    using assms(1) ring_nonnull [of "threads k" xs] by (auto simp: queue_def Cons)
  have "ring (threads (insert_new_thread_before_old new x k)) (x # ys @ [new])"
    using assms Cons by (intro ring_insert_before_head [OF r]) auto
  then have "queue (insert_new_thread_before_old new x k) r (xs @ [new])"
    using d assms(2) by (simp add: queue_def Cons)
  then show ?thesis using that d x by (simp add: insert_thread_at_tail_def)
qed

lemma queue_insert_head:
  assumes "queue k r xs" and "is_head r" and "new \<notin> set xs" and "new \<noteq> 0"
  obtains k' where "insert_thread_as_head r new k = Inr k'" and "queue k' r (new # xs)"
proof -
  obtain k1 where k1: "insert_thread_at_tail r new k = Inr k1" "queue k1 r (xs @ [new])"
    by (rule queue_insert_tail [OF assms])
  obtain k2 where k2: "assign_list k1 r new = Inr k2" "threads k2 = threads k1" "deref_list k2 r = Inr new"
    by (rule assign_list_head [OF assms(2)])
  have "ring (threads k2) (new # xs)"
    using k1(2) k2(2) ring_rotate [of "threads k1" xs "[new]"] by (simp add: queue_def)
  then show ?thesis
    using that [of k2] k1(1) k2 by (simp add: insert_thread_as_head_def queue_def)
qed

lemma queue_remove:
  assumes "queue k r (as @ e # bs)" and "is_head r" and "t_list (threads k e) = r"
  obtains k' where "remove_thread e k = Inr k'" and "queue k' r (as @ bs)"
proof (cases "as @ bs = []")
  case True
  then have r: "ring (threads k) [e]" and d: "deref_list k r = Inr e"
    using assms(1) by (auto simp: queue_def)
  obtain k1 where k1: "assign_list k r 0 = Inr k1" "threads k1 = threads k" "deref_list k1 r = Inr 0"
    by (rule assign_list_head [OF assms(2)])
  show ?thesis
    using that [of "unlink_thread e k1"] True r d k1 assms(2,3)
    by (simp add: remove_thread_def queue_def)
next
  case False
  have rk: "ring (threads k) (as @ e # bs)" and d: "deref_list k r = Inr (hd (as @ [e]))"
    using assms(1) by (cases as; auto simp: queue_def)+
  show ?thesis
  proof (cases as)
    case Nil
    then obtain b cs where b: "bs = b # cs" using False by (cases bs) auto
    obtain k1 where k1: "assign_list k r b = Inr k1" "threads k1 = threads k" "deref_list k1 r = Inr b"
      by (rule assign_list_head [OF assms(2)])
    have "ring (threads (unlink_thread e k1)) (as @ bs)"
      using rk k1(2) False by (intro thread_ring.unlink_member) simp_all
    moreover have "t_next (threads k e) = b" "b \<noteq> e" using rk Nil b by auto
    ultimately show ?thesis
      using that [of "unlink_thread e k1"] Nil b d k1 assms(2,3)
      by (simp add: remove_thread_def queue_def)
  next
    case (Cons a as')
    have "ring (threads (unlink_thread e k)) (as @ bs)"
      using rk False by (intro thread_ring.unlink_member)
    moreover have "a \<noteq> e" using ring_distinct [OF rk] Cons by auto
    ultimately show ?thesis
      using that [of "unlink_thread e k"] Cons d assms(2,3)
      by (simp add: remove_thread_def queue_def)
  qed
qed

end
