(* ===== verification/Heap.thy ===== *)
theory Heap
  imports Dll
begin

text \<open>
  The kernel heap (\<^verbatim>\<open>secure_el1.c\<close>, lines 182-291), new thread contexts and the check of a
  thread code.

  The heap grows down from the top of the kernel's 2 MB.  \<^verbatim>\<open>allocate_heap\<close> retries an
  exclusive load and store; the retry loop takes the values other writers leave in
  \<^verbatim>\<open>kernel_heap_bottom\<close> before each failed store, and the block it returns is shown to lie
  directly below the last of them.  With a single core and interrupts masked the list of
  interferences is empty.
\<close>

section \<open>Offsets\<close>

definition could_be_in_heap :: "kernel \<Rightarrow> u32 \<Rightarrow> bool" where
  "could_be_in_heap k p \<longleftrightarrow> p < kernel_heap_top k \<and> p \<ge> kernel_heap_bottom k"

definition heap_pointer_from_offset :: "u32 \<Rightarrow> u64" where
  "heap_pointer_from_offset heap_offset =
     start_address + ucast top_of_kernel_working_memory - ucast heap_offset"

definition heap_pointer_from_offset_lsr4 :: "u32 \<Rightarrow> u64" where
  "heap_pointer_from_offset_lsr4 heap_offset_lsr4 = heap_pointer_from_offset (push_bit 4 heap_offset_lsr4)"

definition heap_offset :: "u64 \<Rightarrow> u32" where
  "heap_offset p = ucast (start_address + ucast top_of_kernel_working_memory - p)"

definition heap_offset_lsr4 :: "u64 \<Rightarrow> u32" where
  "heap_offset_lsr4 p = drop_bit 4 (heap_offset p)"

section \<open>Copying between the heap and a user address\<close>

fun read_heap_loop :: "nat \<Rightarrow> u64 \<Rightarrow> u64 \<Rightarrow> kernel \<Rightarrow> kernel result" where
  "read_heap_loop 0 s d k = Inr k"
| "read_heap_loop (Suc n) s d k =
    rbind (read_kernel64 k s) (\<lambda>v.
    rbind (write_user64 k d v) (\<lambda>k. read_heap_loop n (s + 8) (d + 8) k))"

fun write_heap_loop :: "nat \<Rightarrow> u64 \<Rightarrow> u64 \<Rightarrow> kernel \<Rightarrow> kernel result" where
  "write_heap_loop 0 d s k = Inr k"
| "write_heap_loop (Suc n) d s k =
    rbind (read_user64 k s) (\<lambda>v.
    rbind (write_kernel64 k d v) (\<lambda>k. write_heap_loop n (d + 8) (s + 8) k))"

definition read_heap :: "u64 \<Rightarrow> u64 \<Rightarrow> u64 \<Rightarrow> kernel \<Rightarrow> kernel result" where
  "read_heap offset len destination k =
    (if offset > ucast (kernel_heap_top k - kernel_heap_bottom k) then Inl (BSOD 223)
     else if offset AND 15 \<noteq> 0 then Inl (BSOD 227)
     else if len AND 15 \<noteq> 0 then Inl (BSOD 231)
     else read_heap_loop (unat (len div 8)) (ucast (kernel_heap_top k) - offset) destination k)"

definition write_heap :: "u64 \<Rightarrow> u64 \<Rightarrow> u64 \<Rightarrow> kernel \<Rightarrow> kernel result" where
  "write_heap offset len source k =
    (if offset > ucast (kernel_heap_top k - kernel_heap_bottom k) then Inl (BSOD 246)
     else if offset AND 15 \<noteq> 0 then Inl (BSOD 250)
     else if len AND 15 \<noteq> 0 then Inl (BSOD 254)
     else write_heap_loop (unat (len div 8)) (ucast (kernel_heap_top k) - offset) source k)"

section \<open>Allocation\<close>

definition round_up_32 :: "u64 \<Rightarrow> u64" where
  "round_up_32 sz = (sz + 31) AND NOT 31"

fun allocate_heap_loop :: "u32 list \<Rightarrow> u64 \<Rightarrow> kernel \<Rightarrow> u64 \<times> kernel" where
  "allocate_heap_loop [] sz k =
    (let new_bottom = ucast (ucast (kernel_heap_bottom k) - sz) :: u32
     in (start_address + ucast new_bottom, k\<lparr>kernel_heap_bottom := new_bottom\<rparr>))"
| "allocate_heap_loop (other # rest) sz k =
    allocate_heap_loop rest sz (k\<lparr>kernel_heap_bottom := other\<rparr>)"

definition allocate_heap_under :: "u32 list \<Rightarrow> u64 \<Rightarrow> kernel \<Rightarrow> u64 \<times> kernel" where
  "allocate_heap_under interference sz k = allocate_heap_loop interference (round_up_32 sz) k"

definition allocate_heap :: "u64 \<Rightarrow> kernel \<Rightarrow> u64 \<times> kernel" where
  "allocate_heap sz k = allocate_heap_under [] sz k"

text \<open>No memory is ever given back: every path stops.\<close>

definition free_heap :: "u64 \<Rightarrow> u64 \<Rightarrow> kernel \<Rightarrow> kernel result" where
  "free_heap offset sz k =
    (if offset > ucast (kernel_heap_top k - kernel_heap_bottom k) then Inl (BSOD 280)
     else if offset AND 15 \<noteq> 0 then Inl (BSOD 284)
     else if sz AND 15 \<noteq> 0 then Inl (BSOD 288)
     else Inl (BSOD 290))"

section \<open>Thread contexts\<close>

definition is_real_thread :: "kernel \<Rightarrow> u32 \<Rightarrow> bool" where
  "is_real_thread k code =
    (if \<not> could_be_in_heap k code
        \<or> \<not> could_be_in_heap k (ucast (ucast code + sizeof_thread_context - 1)) then False
     else let thread = thread_from_code code in
       \<not> (t_prev (threads k (t_next (threads k thread))) \<noteq> thread
          \<or> t_next (threads k (t_prev (threads k thread))) \<noteq> thread))"

definition initial_frame :: inter_map_call_stack_element where
  "initial_frame = \<lparr>caller_sp = 0, caller_return_address = System_Service_ThreadExit,
                    caller_map = system_map_index\<rparr>"

definition initialise_new_thread :: "u64 \<Rightarrow> kernel \<Rightarrow> kernel" where
  "initialise_new_thread thread =
    upd_thread thread (\<lambda>c.
      c\<lparr>regs := (\<lambda>i. if i < 31
                     then if i = 18 then ucast (thread_code thread)
                          else push_bit 8 (0xffffff AND thread) + of_nat i
                     else regs c i),
        t_next := thread, t_prev := thread, t_list := Null_list, partner := 0,
        spsr := 0, gate := 0, t_fp := 0,
        stack_pointer := 5, stack_limit := 0,
        stack := (stack c)(5 := initial_frame)\<rparr>)"

section \<open>Properties of the allocator\<close>

text \<open>The interface of a bump allocator: a block lies directly below what was allocated before.\<close>

locale bump_allocator =
  fixes alloc :: "nat \<Rightarrow> 's \<Rightarrow> nat \<times> 's" and bottom :: "'s \<Rightarrow> nat" and space :: "nat \<Rightarrow> nat"
  assumes enough: "sz \<le> space sz"
    and alloc_at: "space sz \<le> bottom s \<Longrightarrow> fst (alloc sz s) + space sz = bottom s"
    and alloc_bottom: "space sz \<le> bottom s \<Longrightarrow> bottom (snd (alloc sz s)) = fst (alloc sz s)"
begin

definition block :: "nat \<Rightarrow> 's \<Rightarrow> nat set" where
  "block sz s = {fst (alloc sz s)..<fst (alloc sz s) + sz}"

lemma block_below:
  assumes "space sz \<le> bottom s" and "x \<in> block sz s"
  shows "x < bottom s" and "bottom (snd (alloc sz s)) \<le> x"
  using assms alloc_at [OF assms(1)] alloc_bottom [OF assms(1)] enough [of sz]
  by (auto simp: block_def)

lemma blocks_disjoint:
  assumes "space m \<le> bottom s" and "space n \<le> bottom (snd (alloc m s))"
  shows "block m s \<inter> block n (snd (alloc m s)) = {}"
  using block_below [OF assms(1)] block_below [OF assms(2)] by fastforce

end

lemma round_up_32_unat:
  assumes "unat sz + 31 < 2 ^ 64"
  shows "unat (round_up_32 sz) = (unat sz + 31) div 32 * 32"
proof -
  have u: "unat (sz + 31) = unat sz + 31" using assms by (simp add: unat_add_lem [THEN iffD1])
  have "round_up_32 sz = (sz + 31) AND NOT (mask 5)"
    by (simp add: round_up_32_def mask_eq_exp_minus_1)
  then show ?thesis by (simp add: unat_and_not_mask u)
qed

text \<open>The value of \<^verbatim>\<open>kernel_heap_bottom\<close> that the successful attempt reads.\<close>

definition seen_bottom :: "u32 list \<Rightarrow> kernel \<Rightarrow> u32" where
  "seen_bottom interference k = last (kernel_heap_bottom k # interference)"

lemma allocate_heap_loop_result:
  "allocate_heap_loop interference sz k =
    (let new_bottom = ucast (ucast (seen_bottom interference k) - sz) :: u32
     in (start_address + ucast new_bottom, k\<lparr>kernel_heap_bottom := new_bottom\<rparr>))"
  by (induction interference arbitrary: k) (simp_all add: seen_bottom_def Let_def)

lemma unat_new_bottom:
  assumes "unat sz \<le> unat (b :: u32)"
  shows "unat (ucast (ucast b - (sz :: u64)) :: u32) = unat b - unat sz"
proof -
  have "unat (ucast b - sz) = unat b - unat sz"
    using assms by (subst unat_sub) (simp_all add: word_le_nat_alt)
  moreover have "unat b - unat sz < 2 ^ 32" using unat_lt_u32 [of b] by simp
  ultimately show ?thesis by (simp add: unsigned_ucast_eq take_bit_nat_eq_self)
qed

lemma allocate_heap_under_block:
  assumes "allocate_heap_under interference sz k = (p, k')"
    and "unat (round_up_32 sz) \<le> unat (seen_bottom interference k)"
  shows "unat (p - start_address) + unat (round_up_32 sz) = unat (seen_bottom interference k)"
    and "unat (kernel_heap_bottom k') = unat (p - start_address)"
    and "k' = k\<lparr>kernel_heap_bottom := kernel_heap_bottom k'\<rparr>"
  using assms unat_new_bottom [OF assms(2)]
  by (auto simp: allocate_heap_under_def allocate_heap_loop_result Let_def)

definition heap_alloc :: "nat \<Rightarrow> kernel \<Rightarrow> nat \<times> kernel" where
  "heap_alloc n k = map_prod (\<lambda>p. unat (p - start_address)) id (allocate_heap (of_nat n) k)"

lemma round_up_32_of_nat:
  assumes "(n + 31) div 32 * 32 \<le> unat (b :: u32)"
  shows "unat (round_up_32 (of_nat n)) = (n + 31) div 32 * 32"
proof -
  have "n < 2 ^ 33" using assms unat_lt_u32 [of b] by auto
  then have "unat (of_nat n :: u64) = n" by (intro unat_of_nat_u64) simp
  then show ?thesis using \<open>n < 2 ^ 33\<close> by (subst round_up_32_unat) simp_all
qed

interpretation kernel_heap: bump_allocator heap_alloc "\<lambda>k. unat (kernel_heap_bottom k)"
  "\<lambda>n. (n + 31) div 32 * 32"
proof (unfold_locales, goal_cases)
  case (1 n) show ?case by presburger
next
  case (2 n k)
  obtain p k' where a: "allocate_heap (of_nat n) k = (p, k')" by fastforce
  show ?case
    using a allocate_heap_under_block(1) [of "[]" "of_nat n" k p k'] round_up_32_of_nat [OF 2] 2
    by (simp add: heap_alloc_def allocate_heap_def seen_bottom_def)
next
  case (3 n k)
  obtain p k' where a: "allocate_heap (of_nat n) k = (p, k')" by fastforce
  show ?case
    using a allocate_heap_under_block(2) [of "[]" "of_nat n" k p k'] round_up_32_of_nat [OF 3] 3
    by (simp add: heap_alloc_def allocate_heap_def seen_bottom_def)
qed

section \<open>Properties of new threads\<close>

lemma initialise_new_thread_ring:
  "t \<noteq> 0 \<Longrightarrow> ring (threads (initialise_new_thread t k)) [t]"
  by (simp add: initialise_new_thread_def)

lemma ring_real_thread:
  assumes "ring (threads k) xs" and "t \<in> set xs" and "kernel_pointer t"
    and "could_be_in_heap k (thread_code t)"
    and "could_be_in_heap k (ucast (ucast (thread_code t) + sizeof_thread_context - 1))"
  shows "is_real_thread k (thread_code t)"
  using assms ring_member_links [OF assms(1,2)]
  by (simp add: is_real_thread_def Let_def thread_from_code_of_thread_code)

text \<open>\<^verbatim>\<open>heap_offset\<close> and \<^verbatim>\<open>heap_pointer_from_offset\<close> are inverse, also in units of 16 bytes.\<close>

lemma heap_offset_of_pointer [simp]: "heap_offset (heap_pointer_from_offset ho) = ho"
  by (simp add: heap_offset_def heap_pointer_from_offset_def)

lemma heap_pointer_from_offset_lsr4_of_pointer:
  assumes "start_address + ucast top_of_kernel_working_memory - p < 2 ^ 32"
    and "take_bit 4 (heap_offset p) = 0"
  shows "heap_pointer_from_offset_lsr4 (heap_offset_lsr4 p) = p"
proof -
  have "push_bit 4 (drop_bit 4 (heap_offset p)) = heap_offset p"
    using assms(2) bits_ident [of 4 "heap_offset p"] by simp
  then show ?thesis
    using ucast_ucast_u32 [OF assms(1)]
    by (simp add: heap_pointer_from_offset_lsr4_def heap_offset_lsr4_def
        heap_pointer_from_offset_def heap_offset_def)
qed

end
