(* ===== verification/Gate.thy ===== *)
theory Gate
  imports Heap
begin

text \<open>
  The gate system call (\<^verbatim>\<open>handle_svc_gate\<close>, \<^verbatim>\<open>include/svc_handling.h\<close>, lines 4-136):
  waiting, waking and the timer tick, for the build without \<^verbatim>\<open>QEMU\<close> defined.

  Blocked threads with a timeout form a singly linked list through their saved \<^verbatim>\<open>x17\<close>, with a
  pointer back to the pointer at them in \<^verbatim>\<open>x16\<close> and the ticks after the previous entry in
  \<^verbatim>\<open>x1\<close>.  \<^verbatim>\<open>timeouts\<close> abstracts it to the list of threads with the ticks left to each.
  Enqueueing refines sorted insertion, a tick takes one from every entry and releases exactly the
  expired ones, and waking removes one entry and keeps the ticks of the others.
\<close>

section \<open>Pointers to thread pointers\<close>

definition blocked_with_timeout_address :: "kernel \<Rightarrow> u64" where
  "blocked_with_timeout_address k = core_address k + 12448"

definition regs17_address :: "u64 \<Rightarrow> u64" where
  "regs17_address t = t + 168"

definition load_pp :: "kernel \<Rightarrow> u64 \<Rightarrow> u64" where
  "load_pp k p =
    (if p = blocked_with_timeout_address k then blocked_with_timeout k else reg k (p - 168) 17)"

definition store_pp :: "u64 \<Rightarrow> u64 \<Rightarrow> kernel \<Rightarrow> kernel" where
  "store_pp p v k =
    (if p = blocked_with_timeout_address k then k\<lparr>blocked_with_timeout := v\<rparr>
     else set_reg (p - 168) 17 v k)"

definition set_gate :: "u64 \<Rightarrow> u64 \<Rightarrow> kernel \<Rightarrow> kernel" where
  "set_gate t v = upd_thread t (\<lambda>c. c\<lparr>gate := v\<rparr>)"

definition THREAD_WAITING :: u64 where "THREAD_WAITING = - 1"

section \<open>The handler\<close>

partial_function (option) gate_release_loop :: "u64 \<Rightarrow> u64 \<Rightarrow> kernel \<Rightarrow> (u64 \<times> kernel) option" where
  "gate_release_loop thread blocked_list_head k =
    (let k = set_reg blocked_list_head 0 (- 1) k;
         k = set_gate blocked_list_head 0 k;
         k = insert_new_thread_after_old blocked_list_head thread k;
         blocked_list_head = reg k blocked_list_head 17
     in if blocked_list_head \<noteq> 0 \<and> reg k blocked_list_head 1 = 0
        then gate_release_loop thread blocked_list_head k
        else Some (blocked_list_head, k))"

definition gate_tick :: "u64 \<Rightarrow> kernel \<Rightarrow> (thread_switch \<times> kernel) result" where
  "gate_tick thread k =
    (if current_map (threads k thread) \<noteq> system_map_index then Inl (BSOD 40)
     else if blocked_with_timeout k \<noteq> 0 then
       (let blocked_list_head = blocked_with_timeout k;
            k = set_reg blocked_list_head 1 (reg k blocked_list_head 1 - 1) k
        in if reg k blocked_list_head 1 = 0 then
             (case gate_release_loop thread blocked_list_head k of
                None \<Rightarrow> Inl HANG
              | Some (blocked_list_head, k) \<Rightarrow>
                 (let k = k\<lparr>blocked_with_timeout := blocked_list_head\<rparr>;
                      k = (if blocked_list_head \<noteq> 0
                           then set_reg blocked_list_head 16 (blocked_with_timeout_address k) k else k)
                  in Inr (stay thread, k)))
           else Inr (stay thread, k))
     else Inr (stay thread, k))"

partial_function (option) gate_enqueue_loop ::
    "kernel \<Rightarrow> u64 \<Rightarrow> u64 \<Rightarrow> u64 \<Rightarrow> (u64 \<times> u64 \<times> u64) option" where
  "gate_enqueue_loop k prev blocked_thread remaining =
    (if blocked_thread \<noteq> 0 \<and> remaining > reg k blocked_thread 1 then
       (let remaining = remaining - reg k blocked_thread 1;
            prev = regs17_address blocked_thread
        in gate_enqueue_loop k prev (load_pp k prev) remaining)
     else Some (prev, blocked_thread, remaining))"

definition gate_enqueue :: "u64 \<Rightarrow> kernel \<Rightarrow> kernel result" where
  "gate_enqueue thread k =
    (let prev = blocked_with_timeout_address k in
     case gate_enqueue_loop k prev (load_pp k prev) (reg k thread 1) of
       None \<Rightarrow> Inl HANG
     | Some (prev, blocked_thread, remaining) \<Rightarrow>
        (let k = set_reg thread 1 remaining k;
             k = set_reg thread 17 blocked_thread k;
             k = set_reg thread 16 prev k;
             k = store_pp prev thread k;
             k = (if blocked_thread \<noteq> 0 then
                    set_reg blocked_thread 16 (regs17_address thread)
                      (set_reg blocked_thread 1 (reg k blocked_thread 1 - remaining) k)
                  else k)
         in Inr k))"

definition gate_wait :: "u64 \<Rightarrow> kernel \<Rightarrow> (thread_switch \<times> kernel) result" where
  "gate_wait thread k =
    (let now = t_next (threads k thread);
         k = k\<lparr>runnable := t_next (threads k thread)\<rparr>
     in rbind (remove_thread thread k) (\<lambda>k.
       let k = set_gate thread THREAD_WAITING k;
           k = set_reg thread 0 0 k
       in rbind
            (if reg k thread 1 > 0 then gate_enqueue thread k
             else Inr (set_reg thread 17 0 (set_reg thread 16 0 k)))
            (\<lambda>k. Inr (\<lparr>sw_then = thread, sw_now = now\<rparr>, k))))"

text \<open>Removing a woken thread from the timeout list.\<close>

definition gate_cancel :: "u64 \<Rightarrow> kernel \<Rightarrow> kernel" where
  "gate_cancel release_thread k =
    (if reg k release_thread 16 \<noteq> 0 then
       (let prevp = reg k release_thread 16;
            nxt = reg k release_thread 17;
            k = store_pp prevp nxt k
        in if nxt \<noteq> 0 then
             set_reg nxt 16 (reg k release_thread 16)
               (set_reg nxt 1 (reg k nxt 1 + reg k release_thread 1) k)
           else k)
     else k)"

definition gate_wake :: "u64 \<Rightarrow> kernel \<Rightarrow> (thread_switch \<times> kernel) result" where
  "gate_wake thread k =
    (let release_thread = thread_from_code (ucast (reg k thread 0)) in
     if gate (threads k release_thread) = THREAD_WAITING then
       (if current_map (threads k thread) = current_map (threads k release_thread) then
          (let k = insert_new_thread_after_old release_thread thread k;
               k = set_gate release_thread 0 k
           in Inr (stay thread, gate_cancel release_thread k))
        else Inl (BSOD 124))
     else if sint (gate (threads k release_thread)) < 0x7fffffff then
       Inr (stay thread, set_gate release_thread (gate (threads k release_thread) + 1) k)
     else Inr (stay thread, k))"

definition handle_svc_gate :: "u64 \<Rightarrow> kernel \<Rightarrow> (thread_switch \<times> kernel) result" where
  "handle_svc_gate thread k =
    (if partner (threads k thread) = 0 \<and>
        ((spsr (threads k thread) AND 0x1e) = 8 \<or> 0 \<noteq> (spsr (threads k thread) AND 0x10))
     then Inl (SMC 5)
     else if reg k thread 0 = 0 then
       (if thread = interrupt_thread k then gate_tick thread k
        else if sint (gate (threads k thread)) > 0 then
          Inr (stay thread, set_gate thread 0 (set_reg thread 0 (gate (threads k thread)) k))
        else gate_wait thread k)
     else if is_real_thread k (ucast (reg k thread 0)) then gate_wake thread k
     else Inl (BSOD 132))"

section \<open>The timeout list\<close>

fun tq_chain :: "thread_heap \<Rightarrow> u64 \<Rightarrow> u64 \<Rightarrow> u64 list \<Rightarrow> bool" where
  "tq_chain h p t [] \<longleftrightarrow> t = 0"
| "tq_chain h p t (x # xs) \<longleftrightarrow>
     t = x \<and> x \<noteq> 0 \<and> regs (h x) 16 = p \<and> tq_chain h (regs17_address x) (regs (h x) 17) xs"

definition timeout_list :: "kernel \<Rightarrow> u64 list \<Rightarrow> bool" where
  "timeout_list k ts \<longleftrightarrow>
     distinct ts \<and> blocked_with_timeout_address k \<noteq> 0
     \<and> (\<forall>t\<in>set ts. regs17_address t \<noteq> blocked_with_timeout_address k \<and> regs17_address t \<noteq> 0)
     \<and> tq_chain (threads k) (blocked_with_timeout_address k) (blocked_with_timeout k) ts"

text \<open>The ticks left to each thread of the list: the sum of the entries up to its own.\<close>

fun deadlines :: "thread_heap \<Rightarrow> nat \<Rightarrow> u64 list \<Rightarrow> (u64 \<times> nat) list" where
  "deadlines h base [] = []"
| "deadlines h base (t # ts) =
     (t, base + unat (regs (h t) 1)) # deadlines h (base + unat (regs (h t) 1)) ts"

definition timeouts :: "kernel \<Rightarrow> u64 list \<Rightarrow> (u64 \<times> nat) list" where
  "timeouts k ts = deadlines (threads k) 0 ts"

text \<open>The first entry has at least one tick to go, and no sum wraps.\<close>

definition timeout_inv :: "kernel \<Rightarrow> u64 list \<Rightarrow> bool" where
  "timeout_inv k ts \<longleftrightarrow>
     timeout_list k ts \<and> (ts \<noteq> [] \<longrightarrow> reg k (hd ts) 1 \<noteq> 0)
     \<and> (\<forall>(t, d)\<in>set (timeouts k ts). d < 2 ^ 64)"

lemma tq_chain_cong:
  assumes "\<And>t. t \<in> set ts \<Longrightarrow> regs (h' t) 16 = regs (h t) 16 \<and> regs (h' t) 17 = regs (h t) 17"
  shows "tq_chain h' p x ts \<longleftrightarrow> tq_chain h p x ts"
  using assms by (induction ts arbitrary: p x) auto

lemma tq_chain_head: "tq_chain h p x ts \<Longrightarrow> x = (if ts = [] then 0 else hd ts)"
  by (cases ts) auto

lemma tq_chain_nonnull: "tq_chain h p x ts \<Longrightarrow> 0 \<notin> set ts"
  by (induction ts arbitrary: p x) auto

lemma deadlines_cong:
  assumes "\<And>t. t \<in> set ts \<Longrightarrow> regs (h' t) 1 = regs (h t) 1"
  shows "deadlines h' b ts = deadlines h b ts"
  using assms by (induction ts arbitrary: b) auto

lemma deadlines_append:
  "deadlines h b (xs @ ys) = deadlines h b xs @ deadlines h (b + (\<Sum>x\<leftarrow>xs. unat (regs (h x) 1))) ys"
  by (induction xs arbitrary: b) (simp_all add: add.assoc)

lemma map_fst_deadlines [simp]: "map fst (deadlines h b ts) = ts"
  by (induction ts arbitrary: b) auto

lemma deadlines_ge: "(t, d) \<in> set (deadlines h b ts) \<Longrightarrow> b \<le> d"
  by (induction ts arbitrary: b) fastforce+

lemma deadlines_sorted: "sorted (map snd (deadlines h b ts))"
  by (induction ts arbitrary: b) (auto dest: deadlines_ge)

lemma deadlines_shift: "deadlines h (b + c) ts = map (\<lambda>(t, d). (t, d + c)) (deadlines h b ts)"
proof (induction ts arbitrary: b)
  case (Cons t ts)
  show ?case using Cons.IH [of "b + unat (regs (h t) 1)"] by (simp add: ac_simps)
qed simp

lemma regs17_address_minus [simp]: "regs17_address t - 168 = t"
  by (simp add: regs17_address_def)

lemma regs17_address_eq [simp]: "regs17_address s = regs17_address t \<longleftrightarrow> s = t"
  by (simp add: regs17_address_def)

lemma threads_set_reg [simp]:
  "threads (set_reg t i v k) = (threads k)(t := (threads k t)\<lparr>regs := (regs (threads k t))(i := v)\<rparr>)"
  by (simp add: set_reg_def)

lemma threads_set_gate [simp]:
  "threads (set_gate t v k) = (threads k)(t := (threads k t)\<lparr>gate := v\<rparr>)"
  by (simp add: set_gate_def)

lemma bwt_address_frame [simp]:
  "blocked_with_timeout_address (upd_thread t f k) = blocked_with_timeout_address k"
  "blocked_with_timeout_address (k\<lparr>threads := h\<rparr>) = blocked_with_timeout_address k"
  "blocked_with_timeout_address (k\<lparr>runnable := r\<rparr>) = blocked_with_timeout_address k"
  "blocked_with_timeout_address (k\<lparr>blocked_with_timeout := b\<rparr>) = blocked_with_timeout_address k"
  by (simp_all add: blocked_with_timeout_address_def)

section \<open>Enqueueing refines sorted insertion\<close>

text \<open>The place the search loop finds: the entries it passes, the rest and the ticks left over.\<close>

fun tq_split :: "thread_heap \<Rightarrow> u64 \<Rightarrow> u64 list \<Rightarrow> u64 list \<times> u64 list \<times> u64" where
  "tq_split h n [] = ([], [], n)"
| "tq_split h n (t # ts) =
    (if n > regs (h t) 1
     then (let (as, bs, r) = tq_split h (n - regs (h t) 1) ts in (t # as, bs, r))
     else ([], t # ts, n))"

lemma tq_split_append: "tq_split h n ts = (as, bs, r) \<Longrightarrow> ts = as @ bs"
  by (induction ts arbitrary: n as bs r) (auto split: prod.splits if_splits)

lemma gate_enqueue_loop_split:
  assumes "tq_chain (threads k) p x ts" and "\<forall>t\<in>set ts. regs17_address t \<noteq> blocked_with_timeout_address k"
    and "tq_split (threads k) n ts = (as, bs, r)"
  shows "gate_enqueue_loop k p x n =
           Some (if as = [] then p else regs17_address (last as), if bs = [] then 0 else hd bs, r)"
  using assms
proof (induction ts arbitrary: p x n as bs r)
  case Nil
  then show ?case by (auto simp: gate_enqueue_loop.simps [of k p 0])
next
  case (Cons t ts)
  show ?case
  proof (cases "n > reg k t 1")
    case False
    then show ?thesis using Cons.prems by (auto simp: gate_enqueue_loop.simps [of k p t])
  next
    case True
    obtain as' where as': "as = t # as'" "tq_split (threads k) (n - reg k t 1) ts = (as', bs, r)"
      using Cons.prems(3) True by (auto split: prod.splits)
    have "load_pp k (regs17_address t) = reg k t 17" using Cons.prems(2) by (simp add: load_pp_def)
    then show ?thesis
      using Cons.IH [of "regs17_address t" "reg k t 17" "n - reg k t 1"] Cons.prems True as'
      by (auto simp: gate_enqueue_loop.simps [of k p t])
  qed
qed

text \<open>Putting an entry between two parts of the chain, and taking one out.\<close>

lemma tq_chain_insert:
  assumes "tq_chain h p x (as @ bs)" and "distinct (as @ bs)" and "t \<notin> set (as @ bs)" and "t \<noteq> 0"
    and "regs (h' t) 16 = (if as = [] then p else regs17_address (last as))"
    and "regs (h' t) 17 = (if bs = [] then 0 else hd bs)"
    and "\<And>a. a \<in> set as \<Longrightarrow> regs (h' a) 16 = regs (h a) 16
           \<and> regs (h' a) 17 = (if a = last as then t else regs (h a) 17)"
    and "\<And>b. b \<in> set bs \<Longrightarrow> regs (h' b) 16 = (if b = hd bs then regs17_address t else regs (h b) 16)
           \<and> regs (h' b) 17 = regs (h b) 17"
  shows "tq_chain h' p (if as = [] then t else x) (as @ t # bs)"
  using assms
proof (induction as arbitrary: p x)
  case Nil
  then show ?case
  proof (cases bs)
    case (Cons b bs')
    have "tq_chain h' (regs17_address b) (regs (h b) 17) bs' \<longleftrightarrow>
          tq_chain h (regs17_address b) (regs (h b) 17) bs'"
      by (rule tq_chain_cong) (use Nil Cons in auto)
    then show ?thesis using Nil Cons by auto
  qed simp
next
  case (Cons a as)
  have "tq_chain h' (regs17_address a) (if as = [] then t else regs (h a) 17) (as @ t # bs)"
    by (rule Cons.IH) (use Cons.prems in \<open>auto split: if_splits\<close>)
  moreover have "regs (h' a) 17 = (if as = [] then t else regs (h a) 17)"
    using Cons.prems(2) Cons.prems(7) [of a] by auto
  ultimately show ?case using Cons.prems(1) Cons.prems(7) [of a] by (auto split: if_splits)
qed

lemma tq_chain_remove:
  assumes "tq_chain h p x (as @ t # bs)" and "distinct (as @ t # bs)"
    and "\<And>a. a \<in> set as \<Longrightarrow> regs (h' a) 16 = regs (h a) 16
           \<and> regs (h' a) 17 = (if a = last as then (if bs = [] then 0 else hd bs) else regs (h a) 17)"
    and "\<And>b. b \<in> set bs \<Longrightarrow> regs (h' b) 16 = (if b = hd bs then regs (h t) 16 else regs (h b) 16)
           \<and> regs (h' b) 17 = regs (h b) 17"
  shows "tq_chain h' p (if as = [] then (if bs = [] then 0 else hd bs) else x) (as @ bs)"
  using assms
proof (induction as arbitrary: p x)
  case Nil
  then show ?case
  proof (cases bs)
    case (Cons b bs')
    have "tq_chain h' (regs17_address b) (regs (h b) 17) bs' \<longleftrightarrow>
          tq_chain h (regs17_address b) (regs (h b) 17) bs'"
      by (rule tq_chain_cong) (use Nil Cons in auto)
    then show ?thesis using Nil Cons by auto
  qed simp
next
  case (Cons a as)
  have "tq_chain h' (regs17_address a)
      (if as = [] then (if bs = [] then 0 else hd bs) else regs (h a) 17) (as @ bs)"
    by (rule Cons.IH) (use Cons.prems in \<open>auto split: if_splits\<close>)
  moreover have "regs (h' a) 17 = (if as = [] then (if bs = [] then 0 else hd bs) else regs (h a) 17)"
    using Cons.prems(2) Cons.prems(3) [of a] by auto
  ultimately show ?case using Cons.prems(1) Cons.prems(3) [of a] by (auto split: if_splits)
qed

lemma tq_chain_member:
  assumes "tq_chain h p x (as @ t # bs)"
  shows "regs (h t) 16 = (if as = [] then p else regs17_address (last as))"
    and "regs (h t) 17 = (if bs = [] then 0 else hd bs)"
proof -
  show "regs (h t) 16 = (if as = [] then p else regs17_address (last as))"
    using assms by (induction as arbitrary: p x) auto
  show "regs (h t) 17 = (if bs = [] then 0 else hd bs)"
    using assms by (induction as arbitrary: p x) (auto dest: tq_chain_head)
qed

text \<open>The deadlines of the list with the new entry.\<close>

lemma deadlines_insert:
  assumes "tq_split h n ts = (as, bs, r)"
    and "\<And>a. a \<in> set as \<Longrightarrow> regs (h' a) 1 = regs (h a) 1" and "regs (h' t) 1 = r"
    and "\<And>c. c \<in> set bs \<Longrightarrow> regs (h' c) 1 = (if c = hd bs then regs (h c) 1 - r else regs (h c) 1)"
    and "distinct ts"
  shows "deadlines h' b (as @ t # bs) = insort_key snd (t, b + unat n) (deadlines h b ts)"
  using assms
proof (induction ts arbitrary: n b as bs r)
  case Nil
  then show ?case by simp
next
  case (Cons x xs)
  show ?case
  proof (cases "n > regs (h x) 1")
    case True
    obtain as' where as': "as = x # as'" "tq_split h (n - regs (h x) 1) xs = (as', bs, r)"
      using Cons.prems(1) True by (auto split: prod.splits)
    have u: "unat (n - regs (h x) 1) = unat n - unat (regs (h x) 1)"
      using True by (intro unat_sub) (simp add: less_imp_le)
    have le: "unat (regs (h x) 1) < unat n" using True by (simp add: word_less_nat_alt)
    have "deadlines h' (b + unat (regs (h x) 1)) (as' @ t # bs)
        = insort_key snd (t, b + unat (regs (h x) 1) + unat (n - regs (h x) 1))
            (deadlines h (b + unat (regs (h x) 1)) xs)"
      by (rule Cons.IH [OF as'(2)]) (use Cons.prems as'(1) in auto)
    then show ?thesis using as'(1) Cons.prems(2) [of x] u le by simp
  next
    case False
    then have *: "as = []" "bs = x # xs" "r = n" using Cons.prems(1) by auto
    have "unat (regs (h x) 1 - n) = unat (regs (h x) 1) - unat n" "unat n \<le> unat (regs (h x) 1)"
      using False by (auto simp: unat_sub not_less word_le_nat_alt)
    moreover have "deadlines h' c xs = deadlines h c xs" for c
      by (rule deadlines_cong) (use Cons.prems(4,5) * in auto)
    ultimately show ?thesis using * Cons.prems(3) Cons.prems(4) [of x] by simp
  qed
qed

text \<open>What a gate operation may change of a thread that stays where it is: registers 1, 16 and 17.\<close>

definition only_queue_regs :: "kernel \<Rightarrow> kernel \<Rightarrow> u64 set \<Rightarrow> bool" where
  "only_queue_regs k k' S \<longleftrightarrow>
     k' = k\<lparr>threads := threads k', blocked_with_timeout := blocked_with_timeout k'\<rparr>
     \<and> (\<forall>u. threads k' u = (threads k u)\<lparr>regs := regs (threads k' u)\<rparr>)
     \<and> (\<forall>u i. i \<noteq> 1 \<and> i \<noteq> 16 \<and> i \<noteq> 17 \<longrightarrow> reg k' u i = reg k u i)
     \<and> (\<forall>u. u \<notin> S \<longrightarrow> threads k' u = threads k u)"

lemma only_queue_regsD:
  assumes "only_queue_regs k k' S"
  shows "t_next (threads k' u) = t_next (threads k u)" and "t_prev (threads k' u) = t_prev (threads k u)"
    and "gate (threads k' u) = gate (threads k u)" and "t_list (threads k' u) = t_list (threads k u)"
    and "current_map (threads k' u) = current_map (threads k u)" and "reg k' u 0 = reg k u 0"
    and "runnable k' = runnable k" and "interrupt_thread k' = interrupt_thread k"
    and "core_address k' = core_address k"
proof -
  have h: "threads k' u = (threads k u)\<lparr>regs := regs (threads k' u)\<rparr>" for u
    using assms by (simp add: only_queue_regs_def)
  show "t_next (threads k' u) = t_next (threads k u)" and "t_prev (threads k' u) = t_prev (threads k u)"
    and "gate (threads k' u) = gate (threads k u)" and "t_list (threads k' u) = t_list (threads k u)"
    and "current_map (threads k' u) = current_map (threads k u)"
    by (subst h, simp)+
  have k: "k' = k\<lparr>threads := threads k', blocked_with_timeout := blocked_with_timeout k'\<rparr>"
    using assms by (simp add: only_queue_regs_def)
  show "runnable k' = runnable k" and "interrupt_thread k' = interrupt_thread k"
    and "core_address k' = core_address k"
    by (subst k, simp)+
  show "reg k' u 0 = reg k u 0" using assms by (simp add: only_queue_regs_def)
qed

lemma only_queue_regs_trans:
  assumes "only_queue_regs k k1 S" and "only_queue_regs k1 k2 S"
  shows "only_queue_regs k k2 S"
proof -
  have 1: "k1 = k\<lparr>threads := threads k1, blocked_with_timeout := blocked_with_timeout k1\<rparr>"
      "threads k1 u = (threads k u)\<lparr>regs := regs (threads k1 u)\<rparr>"
    and 2: "k2 = k1\<lparr>threads := threads k2, blocked_with_timeout := blocked_with_timeout k2\<rparr>"
      "threads k2 u = (threads k1 u)\<lparr>regs := regs (threads k2 u)\<rparr>" for u
    using assms unfolding only_queue_regs_def by blast+
  have "k2 = k\<lparr>threads := threads k2, blocked_with_timeout := blocked_with_timeout k2\<rparr>"
    by (subst 2(1), subst 1(1)) simp
  moreover have "threads k2 u = (threads k u)\<lparr>regs := regs (threads k2 u)\<rparr>" for u
    by (subst 2(2), subst 1(2)) simp
  ultimately show ?thesis using assms by (simp add: only_queue_regs_def)
qed

lemma only_queue_regs_set_reg:
  assumes "t \<in> S" and "i = 1 \<or> i = 16 \<or> i = 17" and "only_queue_regs k k1 S"
  shows "only_queue_regs k (set_reg t i v k1) S"
proof (rule only_queue_regs_trans [OF assms(3)])
  show "only_queue_regs k1 (set_reg t i v k1) S"
    using assms(1,2) by (auto simp: only_queue_regs_def set_reg_def upd_thread_def)
qed

lemma only_queue_regs_bwt:
  assumes "only_queue_regs k k1 S"
  shows "only_queue_regs k (k1\<lparr>blocked_with_timeout := b\<rparr>) S"
proof (rule only_queue_regs_trans [OF assms])
  show "only_queue_regs k1 (k1\<lparr>blocked_with_timeout := b\<rparr>) S"
    by (simp add: only_queue_regs_def)
qed

lemma only_queue_regs_refl: "only_queue_regs k k S"
  by (simp add: only_queue_regs_def)

lemmas only_queue_regs_intros =
  only_queue_regs_set_reg only_queue_regs_bwt only_queue_regs_refl

lemma only_queue_regs_ring: "only_queue_regs k k' S \<Longrightarrow> ring (threads k') xs \<longleftrightarrow> ring (threads k) xs"
  by (intro ring_cong) (simp add: only_queue_regsD)

lemma timeout_listD:
  assumes "timeout_list k ts"
  shows "distinct ts" and "blocked_with_timeout_address k \<noteq> 0"
    and "\<And>t. t \<in> set ts \<Longrightarrow> regs17_address t \<noteq> blocked_with_timeout_address k \<and> regs17_address t \<noteq> 0"
    and "tq_chain (threads k) (blocked_with_timeout_address k) (blocked_with_timeout k) ts"
    and "0 \<notin> set ts"
  using assms tq_chain_nonnull by (auto simp: timeout_list_def)

definition queueable :: "kernel \<Rightarrow> u64 \<Rightarrow> bool" where
  "queueable k t \<longleftrightarrow> t \<noteq> 0 \<and> regs17_address t \<noteq> 0 \<and> regs17_address t \<noteq> blocked_with_timeout_address k"

lemma tq_split_remaining:
  "tq_split h n ts = (as, bs, r) \<Longrightarrow> n \<noteq> 0 \<Longrightarrow> r \<noteq> 0"
  by (induction ts arbitrary: n as bs r) (fastforce split: prod.splits if_splits)+

text \<open>The state after the pointer updates of \<^verbatim>\<open>gate_enqueue\<close>, read register by register.\<close>

lemma gate_enqueue_regs:
  assumes inv: "timeout_list k ts" and t: "t \<notin> set ts" "queueable k t"
    and sp: "tq_split (threads k) (reg k t 1) ts = (as, bs, r)"
  obtains k' where "gate_enqueue t k = Inr k'" and "only_queue_regs k k' (insert t (set ts))"
    and "blocked_with_timeout k' = (if as = [] then t else blocked_with_timeout k)"
    and "reg k' t 1 = r" "reg k' t 16 = (if as = [] then blocked_with_timeout_address k else regs17_address (last as))"
      "reg k' t 17 = (if bs = [] then 0 else hd bs)"
    and "\<And>a. a \<in> set as \<Longrightarrow> reg k' a 1 = reg k a 1 \<and> reg k' a 16 = reg k a 16
           \<and> reg k' a 17 = (if a = last as then t else reg k a 17)"
    and "\<And>b. b \<in> set bs \<Longrightarrow> reg k' b 1 = (if b = hd bs then reg k b 1 - r else reg k b 1)
           \<and> reg k' b 16 = (if b = hd bs then regs17_address t else reg k b 16)
           \<and> reg k' b 17 = reg k b 17"
proof -
  note d = timeout_listD [OF inv]
  have ts: "ts = as @ bs" by (rule tq_split_append [OF sp])
  let ?p = "if as = [] then blocked_with_timeout_address k else regs17_address (last as)"
  let ?b = "if bs = [] then 0 else hd bs"
  have loop: "gate_enqueue_loop k (blocked_with_timeout_address k) (blocked_with_timeout k) (reg k t 1)
      = Some (?p, ?b, r)"
    by (rule gate_enqueue_loop_split [OF d(4) _ sp]) (use d(3) in blast)
  define k1 where "k1 = set_reg t 16 ?p (set_reg t 17 ?b (set_reg t 1 r k))"
  define k2 where "k2 = store_pp ?p t k1"
  define k' where "k' = (if bs = [] then k2
    else set_reg (hd bs) 16 (regs17_address t) (set_reg (hd bs) 1 (reg k2 (hd bs) 1 - r) k2))"
  have bnz: "?b \<noteq> 0 \<longleftrightarrow> bs \<noteq> []" using d(5) ts by (cases bs) auto
  have e: "gate_enqueue t k = Inr k'"
    using bnz by (simp add: gate_enqueue_def load_pp_def loop Let_def k1_def k2_def k'_def)
  have k2: "k2 = (if as = [] then k1\<lparr>blocked_with_timeout := t\<rparr> else set_reg (last as) 17 t k1)"
    using d(3) [of "last as"] ts by (auto simp: k2_def store_pp_def k1_def set_reg_def)
  have la: "as \<noteq> [] \<Longrightarrow> last as \<in> set as" and hb: "bs \<noteq> [] \<Longrightarrow> hd bs \<in> set bs" by auto
  have dis: "a \<in> set as \<Longrightarrow> b \<in> set bs \<Longrightarrow> a \<noteq> b" for a b using d(1) ts by auto
  have ne: "as \<noteq> [] \<Longrightarrow> last as \<noteq> t" "bs \<noteq> [] \<Longrightarrow> hd bs \<noteq> t"
      "as \<noteq> [] \<Longrightarrow> bs \<noteq> [] \<Longrightarrow> last as \<noteq> hd bs"
    using t(1) la hb ts dis by auto
  have r1: "reg k1 u i = (if u = t then if i = 16 then ?p else if i = 17 then ?b else if i = 1 then r
      else reg k t i else reg k u i)" for u i
    by (simp add: k1_def)
  have r2: "reg k2 u i = (if as \<noteq> [] \<and> u = last as \<and> i = 17 then t else reg k1 u i)" for u i
    by (simp add: k2)
  have r': "reg k' u i = (if bs \<noteq> [] \<and> u = hd bs then if i = 16 then regs17_address t
      else if i = 1 then reg k2 u 1 - r else reg k2 u i else reg k2 u i)" for u i
    by (simp add: k'_def)
  show ?thesis
  proof (rule that [OF e])
    have "only_queue_regs k k1 (insert t (set ts))"
      unfolding k1_def by (intro only_queue_regs_intros) simp_all
    then have "only_queue_regs k k2 (insert t (set ts))"
      unfolding k2 using la ts by (auto intro: only_queue_regs_intros)
    then show "only_queue_regs k k' (insert t (set ts))"
      unfolding k'_def using hb ts by (auto intro!: only_queue_regs_set_reg)
    show "blocked_with_timeout k' = (if as = [] then t else blocked_with_timeout k)"
      by (simp add: k'_def k2 k1_def set_reg_def)
    show "reg k' t 1 = r" "reg k' t 16 = ?p" "reg k' t 17 = ?b" using ne by (auto simp: r' r2 r1)
    show "reg k' a 1 = reg k a 1 \<and> reg k' a 16 = reg k a 16
        \<and> reg k' a 17 = (if a = last as then t else reg k a 17)" if "a \<in> set as" for a
    proof -
      have "a \<noteq> t" "bs \<noteq> [] \<Longrightarrow> a \<noteq> hd bs" "as \<noteq> []" using that t(1) ts dis [OF that] hb by auto
      then show ?thesis by (auto simp: r' r2 r1)
    qed
    show "reg k' b 1 = (if b = hd bs then reg k b 1 - r else reg k b 1)
        \<and> reg k' b 16 = (if b = hd bs then regs17_address t else reg k b 16)
        \<and> reg k' b 17 = reg k b 17" if "b \<in> set bs" for b
    proof -
      have "b \<noteq> t" "as \<noteq> [] \<Longrightarrow> b \<noteq> last as" "bs \<noteq> []"
        using that t(1) ts dis [OF la that] by auto
      then show ?thesis by (auto simp: r' r2 r1)
    qed
  qed
qed

lemma timeout_list_frame:
  "only_queue_regs k k' S \<Longrightarrow> blocked_with_timeout_address k' = blocked_with_timeout_address k"
  by (simp add: blocked_with_timeout_address_def only_queue_regsD)

lemma gate_enqueue_refines:
  assumes inv: "timeout_inv k ts" and t: "t \<notin> set ts" "queueable k t" and pos: "reg k t 1 \<noteq> 0"
  obtains k' as bs where "gate_enqueue t k = Inr k'" and "ts = as @ bs"
    and "timeout_inv k' (as @ t # bs)"
    and "timeouts k' (as @ t # bs) = insort_key snd (t, unat (reg k t 1)) (timeouts k ts)"
    and "only_queue_regs k k' (insert t (set ts))"
proof -
  have tl: "timeout_list k ts" using inv by (simp add: timeout_inv_def)
  note d = timeout_listD [OF tl]
  obtain as bs r where sp: "tq_split (threads k) (reg k t 1) ts = (as, bs, r)"
    by (metis prod_cases3)
  have ts: "ts = as @ bs" by (rule tq_split_append [OF sp])
  obtain k' where k': "gate_enqueue t k = Inr k'" "only_queue_regs k k' (insert t (set ts))"
      "blocked_with_timeout k' = (if as = [] then t else blocked_with_timeout k)"
      "reg k' t 1 = r" "reg k' t 16 = (if as = [] then blocked_with_timeout_address k else regs17_address (last as))"
      "reg k' t 17 = (if bs = [] then 0 else hd bs)"
    and as: "\<And>a. a \<in> set as \<Longrightarrow> reg k' a 1 = reg k a 1 \<and> reg k' a 16 = reg k a 16
           \<and> reg k' a 17 = (if a = last as then t else reg k a 17)"
    and bs: "\<And>b. b \<in> set bs \<Longrightarrow> reg k' b 1 = (if b = hd bs then reg k b 1 - r else reg k b 1)
           \<and> reg k' b 16 = (if b = hd bs then regs17_address t else reg k b 16)
           \<and> reg k' b 17 = reg k b 17"
    by (rule gate_enqueue_regs [OF tl t sp], rule that)
  note bwt = timeout_list_frame [OF k'(2)]
  have dl: "timeouts k' (as @ t # bs) = insort_key snd (t, unat (reg k t 1)) (timeouts k ts)"
    using deadlines_insert [of "threads k" "reg k t 1" ts as bs r "threads k'" t 0] sp k'(4) d(1) as bs
    by (simp add: timeouts_def)
  have "tq_chain (threads k') (blocked_with_timeout_address k) (if as = [] then t else blocked_with_timeout k)
      (as @ t # bs)"
    by (rule tq_chain_insert [of "threads k"]) (use d ts t k' as bs in \<open>auto simp: queueable_def\<close>)
  then have "timeout_list k' (as @ t # bs)"
    using k'(3) d t ts by (auto simp: timeout_list_def bwt queueable_def)
  moreover have "reg k' (hd (as @ t # bs)) 1 \<noteq> 0"
    using tq_split_remaining [OF sp pos] k'(4) as inv ts by (cases as) (auto simp: timeout_inv_def)
  moreover have "d < 2 ^ 64" if "(u, d) \<in> set (timeouts k' (as @ t # bs))" for u d
    using that inv unat_lt_u64 [of "reg k t 1"] unfolding dl
    by (auto simp: timeout_inv_def set_insort_key)
  ultimately have "timeout_inv k' (as @ t # bs)" by (auto simp: timeout_inv_def)
  then show ?thesis using that k'(1,2) ts dl by blast
qed

section \<open>Cancelling keeps the other deadlines\<close>

lemma deadlines_first_more:
  assumes "distinct bs" and "\<And>b. b \<in> set bs \<Longrightarrow>
      unat (regs (h' b) 1) = unat (regs (h b) 1) + (if b = hd bs then d else 0)"
  shows "deadlines h' c bs = deadlines h (c + d) bs"
proof (cases bs)
  case (Cons b bs')
  have "regs (h' x) 1 = regs (h x) 1" if "x \<in> set bs'" for x
  proof -
    have "x \<noteq> b" "x \<in> set bs" using assms(1) that Cons by auto
    then show ?thesis using assms(2) [of x] Cons by (auto intro: word_unat_eq_iff [THEN iffD2])
  qed
  then have "deadlines h' e bs' = deadlines h e bs'" for e by (rule deadlines_cong)
  then show ?thesis using assms(2) [of b] Cons by (simp add: ac_simps)
qed simp

lemma filter_fst_other:
  "t \<notin> set ts \<Longrightarrow> filter (\<lambda>(u, _). u \<noteq> t) (deadlines h b ts) = deadlines h b ts"
  by (induction ts arbitrary: b) auto

lemma gate_cancel_regs:
  assumes inv: "timeout_list k (as @ t # bs)"
  shows "only_queue_regs k (gate_cancel t k) (set (as @ bs))"
    and "blocked_with_timeout (gate_cancel t k) =
           (if as = [] then (if bs = [] then 0 else hd bs) else blocked_with_timeout k)"
    and "\<And>a. a \<in> set as \<Longrightarrow> reg (gate_cancel t k) a 1 = reg k a 1 \<and> reg (gate_cancel t k) a 16 = reg k a 16
           \<and> reg (gate_cancel t k) a 17 = (if a = last as then (if bs = [] then 0 else hd bs) else reg k a 17)"
    and "\<And>b. b \<in> set bs \<Longrightarrow> reg (gate_cancel t k) b 1 = (if b = hd bs then reg k b 1 + reg k t 1 else reg k b 1)
           \<and> reg (gate_cancel t k) b 16 = (if b = hd bs then reg k t 16 else reg k b 16)
           \<and> reg (gate_cancel t k) b 17 = reg k b 17"
proof -
  note d = timeout_listD [OF inv]
  note m = tq_chain_member [OF d(4)]
  let ?b = "if bs = [] then 0 else hd bs"
  have la: "as \<noteq> [] \<Longrightarrow> last as \<in> set as" and hb: "bs \<noteq> [] \<Longrightarrow> hd bs \<in> set bs" by auto
  have dis: "a \<in> set as \<Longrightarrow> b \<in> set bs \<Longrightarrow> a \<noteq> b" for a b using d(1) by auto
  have ne: "as \<noteq> [] \<Longrightarrow> last as \<noteq> t" "bs \<noteq> [] \<Longrightarrow> hd bs \<noteq> t"
      "as \<noteq> [] \<Longrightarrow> bs \<noteq> [] \<Longrightarrow> last as \<noteq> hd bs"
    using d(1) la hb dis by auto
  have p: "reg k t 16 \<noteq> 0" using m(1) d(2) d(3) [of "last as"] la by auto
  have bnz: "?b \<noteq> 0 \<longleftrightarrow> bs \<noteq> []" using d(5) by (cases bs) auto
  define k1 where "k1 = store_pp (reg k t 16) ?b k"
  have k1: "k1 = (if as = [] then k\<lparr>blocked_with_timeout := ?b\<rparr> else set_reg (last as) 17 ?b k)"
    using m(1) d(3) [of "last as"] by (auto simp: k1_def store_pp_def)
  have r1: "reg k1 u i = (if as \<noteq> [] \<and> u = last as \<and> i = 17 then ?b else reg k u i)" for u i
    by (simp add: k1)
  have c: "gate_cancel t k = (if bs = [] then k1 else
      set_reg (hd bs) 16 (reg k1 t 16) (set_reg (hd bs) 1 (reg k1 (hd bs) 1 + reg k1 t 1) k1))"
    using p bnz m(2) by (simp add: gate_cancel_def Let_def k1_def)
  have r': "reg (gate_cancel t k) u i = (if bs \<noteq> [] \<and> u = hd bs then if i = 16 then reg k1 t 16
      else if i = 1 then reg k1 u 1 + reg k1 t 1 else reg k1 u i else reg k1 u i)" for u i
    by (simp add: c)
  have "only_queue_regs k k1 (set (as @ bs))"
    unfolding k1 using la by (auto intro: only_queue_regs_intros)
  then show "only_queue_regs k (gate_cancel t k) (set (as @ bs))"
    unfolding c using hb by (auto intro!: only_queue_regs_set_reg)
  show "blocked_with_timeout (gate_cancel t k) =
           (if as = [] then (if bs = [] then 0 else hd bs) else blocked_with_timeout k)"
    by (simp add: c k1 set_reg_def)
  show "reg (gate_cancel t k) a 1 = reg k a 1 \<and> reg (gate_cancel t k) a 16 = reg k a 16
      \<and> reg (gate_cancel t k) a 17 = (if a = last as then ?b else reg k a 17)" if "a \<in> set as" for a
  proof -
    have "bs \<noteq> [] \<Longrightarrow> a \<noteq> hd bs" "as \<noteq> []" using that dis [OF that] hb by auto
    then show ?thesis by (auto simp: r' r1)
  qed
  show "reg (gate_cancel t k) b 1 = (if b = hd bs then reg k b 1 + reg k t 1 else reg k b 1)
      \<and> reg (gate_cancel t k) b 16 = (if b = hd bs then reg k t 16 else reg k b 16)
      \<and> reg (gate_cancel t k) b 17 = reg k b 17" if "b \<in> set bs" for b
  proof -
    have "as \<noteq> [] \<Longrightarrow> b \<noteq> last as" "bs \<noteq> []" using that dis [OF la that] by auto
    then show ?thesis using ne by (auto simp: r' r1)
  qed
qed

lemma gate_cancel_refines:
  assumes inv: "timeout_inv k (as @ t # bs)"
  shows "timeout_inv (gate_cancel t k) (as @ bs)"
    and "timeouts (gate_cancel t k) (as @ bs) = filter (\<lambda>(u, _). u \<noteq> t) (timeouts k (as @ t # bs))"
    and "only_queue_regs k (gate_cancel t k) (set (as @ bs))"
proof -
  let ?k = "gate_cancel t k"
  have tl: "timeout_list k (as @ t # bs)" using inv by (simp add: timeout_inv_def)
  note d = timeout_listD [OF tl] and c = gate_cancel_regs [OF tl]
  note bwt = timeout_list_frame [OF c(1)]
  let ?s = "\<Sum>x\<leftarrow>as. unat (reg k x 1)"
  have nowrap: "unat (reg k (hd bs) 1 + reg k t 1) = unat (reg k (hd bs) 1) + unat (reg k t 1)"
    if ne: "bs \<noteq> []"
  proof -
    obtain b bs' where b: "bs = b # bs'" using ne by (cases bs) auto
    have "(b, ?s + unat (reg k t 1) + unat (reg k b 1)) \<in> set (timeouts k (as @ t # bs))"
      by (simp add: timeouts_def deadlines_append b)
    then have "?s + unat (reg k t 1) + unat (reg k b 1) < 2 ^ 64" using inv by (auto simp: timeout_inv_def)
    then show ?thesis using b by (simp add: unat_add_lem [THEN iffD1])
  qed
  have "deadlines (threads ?k) 0 as = deadlines (threads k) 0 as"
    by (rule deadlines_cong) (use c(3) in blast)
  moreover have "(\<Sum>x\<leftarrow>as. unat (reg ?k x 1)) = ?s"
    by (rule arg_cong [of _ _ sum_list], rule map_cong) (use c(3) in auto)
  moreover have "deadlines (threads ?k) ?s bs = deadlines (threads k) (?s + unat (reg k t 1)) bs"
  proof (rule deadlines_first_more)
    fix b assume b: "b \<in> set bs"
    then have "bs \<noteq> []" by auto
    from nowrap [OF this] c(4) [OF b]
    show "unat (reg ?k b 1) = unat (reg k b 1) + (if b = hd bs then unat (reg k t 1) else 0)" by simp
  qed (use d(1) in simp)
  ultimately show dl: "timeouts ?k (as @ bs) = filter (\<lambda>(u, _). u \<noteq> t) (timeouts k (as @ t # bs))"
    using d(1) by (simp add: timeouts_def deadlines_append filter_fst_other)
  have "tq_chain (threads ?k) (blocked_with_timeout_address k)
      (if as = [] then (if bs = [] then 0 else hd bs) else blocked_with_timeout k) (as @ bs)"
    by (rule tq_chain_remove [OF d(4,1)]) (use c(3,4) in blast)+
  then have "timeout_list ?k (as @ bs)" using c(2) d by (auto simp: timeout_list_def bwt)
  moreover have "as @ bs \<noteq> [] \<longrightarrow> reg ?k (hd (as @ bs)) 1 \<noteq> 0"
  proof (cases as)
    case Nil
    then have "reg k t 1 \<noteq> 0" using inv by (simp add: timeout_inv_def)
    then have "0 < unat (reg k t 1)" by (simp add: unat_gt_0)
    then have "bs \<noteq> [] \<Longrightarrow> reg ?k (hd bs) 1 \<noteq> 0"
      using nowrap c(4) [of "hd bs"] by (metis add_eq_0_iff_both_eq_0 hd_in_set less_irrefl unat_0)
    then show ?thesis using Nil by simp
  next
    case (Cons a as') then show ?thesis using inv c(3) [of a] by (simp add: timeout_inv_def)
  qed
  moreover have "\<forall>(u, e)\<in>set (timeouts ?k (as @ bs)). e < 2 ^ 64"
    using inv unfolding dl by (auto simp: timeout_inv_def)
  ultimately show "timeout_inv ?k (as @ bs)" by (simp add: timeout_inv_def)
  show "only_queue_regs k ?k (set (as @ bs))" by (rule c(1))
qed

section \<open>The timer tick\<close>

definition expire :: "thread_context \<Rightarrow> thread_context" where
  "expire c = c\<lparr>regs := (regs c)(0 := - 1), gate := 0\<rparr>"

text \<open>One round of the release loop.\<close>

definition release_step :: "u64 \<Rightarrow> u64 \<Rightarrow> kernel \<Rightarrow> kernel" where
  "release_step thread t k =
     insert_new_thread_after_old t thread (set_gate t 0 (set_reg t 0 (- 1) k))"

lemma set_gate_reg_ring:
  "ring (threads (set_gate t v (set_reg u i w k))) xs \<longleftrightarrow> ring (threads k) xs"
  by (rule ring_cong) simp

lemma release_step_facts:
  shows "payload (threads (release_step thread t k) u) =
           payload (if u = t then expire (threads k t) else threads k u)"
    and "release_step thread t k = k\<lparr>threads := threads (release_step thread t k)\<rparr>"
proof -
  show "payload (threads (release_step thread t k) u) =
      payload (if u = t then expire (threads k t) else threads k u)"
    by (simp add: release_step_def expire_def)
  show "release_step thread t k = k\<lparr>threads := threads (release_step thread t k)\<rparr>"
    unfolding release_step_def by (subst insert_after_frame) (simp add: set_gate_def set_reg_def upd_thread_def)
qed

lemma release_step_ring:
  assumes "ring (threads k) (th # rest)" and "t \<notin> set (th # rest)" and "t \<noteq> 0"
  shows "ring (threads (release_step th t k)) (th # t # rest)"
proof -
  have "ring (threads (set_gate t 0 (set_reg t 0 (- 1) k))) (th # rest)"
    using assms(1) by (simp only: set_gate_reg_ring)
  then show ?thesis
    unfolding release_step_def by (rule thread_ring.after_head [OF _ assms(2,3)])
qed

lemma release_step_regs: "i \<noteq> 0 \<Longrightarrow> reg (release_step th t k) u i = reg k u i"
  using payload_fields(1) [OF release_step_facts(1) [of th t k u]] by (simp add: expire_def)

lemma payload_expire_cong: "payload c = payload d \<Longrightarrow> payload (expire c) = payload (expire d)"
  by (cases c; cases d; simp add: payload_def expire_def)

lemma gate_release_loop_releases:
  assumes "tq_chain (threads k) p t (t # ts)" and "distinct (t # ts)"
    and "ring (threads k) (th # rest)" and "set (t # ts) \<inter> set (th # rest) = {}"
    and zs: "zs = takeWhile (\<lambda>u. reg k u 1 = 0) ts" and ks: "keep = dropWhile (\<lambda>u. reg k u 1 = 0) ts"
  shows "\<exists>k'. gate_release_loop th t k = Some (if keep = [] then 0 else hd keep, k')
     \<and> ring (threads k') (th # rev (t # zs) @ rest) \<and> k' = k\<lparr>threads := threads k'\<rparr>
     \<and> (\<forall>u. payload (threads k' u) =
              payload (if u \<in> set (t # zs) then expire (threads k u) else threads k u))"
  using assms
proof (induction ts arbitrary: k p t rest zs keep)
  case Nil
  let ?k = "release_step th t k"
  have "reg ?k t 17 = 0" using Nil.prems(1) by (simp add: release_step_regs)
  then have "gate_release_loop th t k = Some (0, ?k)"
    by (simp add: gate_release_loop.simps [of th t k] Let_def release_step_def)
  then show ?case
    using Nil.prems release_step_ring [of k th rest t] release_step_facts [of th t k] by auto
next
  case (Cons s ss)
  let ?k = "release_step th t k"
  have n: "reg ?k t 17 = s" "s \<noteq> 0" using Cons.prems(1) by (auto simp: release_step_regs)
  have r: "ring (threads ?k) (th # t # rest)" using Cons.prems by (intro release_step_ring) auto
  have loop: "gate_release_loop th t k =
      (if reg k s 1 = 0 then gate_release_loop th s ?k else Some (s, ?k))"
    using n release_step_regs [of 1 th t k s]
    by (simp add: gate_release_loop.simps [of th t k] Let_def release_step_def)
  show ?case
  proof (cases "reg k s 1 = 0")
    case False
    then show ?thesis using loop r release_step_facts [of th t k] Cons.prems(5,6) by auto
  next
    case True
    obtain zs' where zs: "zs = s # zs'" "zs' = takeWhile (\<lambda>u. reg ?k u 1 = 0) ss"
      using Cons.prems(5) True by (simp add: release_step_regs)
    have "tq_chain (threads ?k) (regs17_address t) s (s # ss)"
      using Cons.prems(1) by (subst tq_chain_cong [of _ _ "threads k"]) (auto simp: release_step_regs)
    then obtain k' where k': "gate_release_loop th s ?k = Some (if keep = [] then 0 else hd keep, k')"
        "ring (threads k') (th # rev (s # zs') @ t # rest)" "k' = ?k\<lparr>threads := threads k'\<rparr>"
        "\<And>u. payload (threads k' u) =
           payload (if u \<in> set (s # zs') then expire (threads ?k u) else threads ?k u)"
      using Cons.IH [of ?k "regs17_address t" s "t # rest" zs' keep] Cons.prems r zs True
      by (auto simp: release_step_regs)
    have "t \<notin> set (s # zs')" using Cons.prems(2) zs by (auto dest: set_takeWhileD)
    then have "payload (threads k' u) =
        payload (if u \<in> set (t # zs) then expire (threads k u) else threads k u)" for u
      using k'(4) [of u] release_step_facts(1) [of th t k u] zs(1)
      by (auto intro: payload_expire_cong)
    moreover have "k' = k\<lparr>threads := threads k'\<rparr>"
      by (subst k'(3), subst release_step_facts(2)) simp
    ultimately show ?thesis using loop True k'(1,2) zs(1) by auto
  qed
qed

definition tick_all :: "(u64 \<times> nat) list \<Rightarrow> (u64 \<times> nat) list" where
  "tick_all L = filter (\<lambda>(_, d). 0 < d) (map (\<lambda>(t, d). (t, d - 1)) L)"

definition expiring :: "(u64 \<times> nat) list \<Rightarrow> u64 list" where
  "expiring L = map fst (filter (\<lambda>(_, d). d = 1) L)"

lemma tick_all_append [simp]: "tick_all (L @ M) = tick_all L @ tick_all M"
  by (simp add: tick_all_def)

lemma expiring_append [simp]: "expiring (L @ M) = expiring L @ expiring M"
  by (simp add: expiring_def)

lemma tick_all_later:
  assumes "0 < b"
  shows "tick_all (deadlines h (b + 1) ts) = deadlines h b ts" and "expiring (deadlines h (b + 1) ts) = []"
proof -
  have "d \<ge> b" if "(t, d) \<in> set (deadlines h b ts)" for t d using that by (rule deadlines_ge)
  then have *: "0 < d" if "(t, d) \<in> set (deadlines h b ts)" for t d using that assms by fastforce
  then show "tick_all (deadlines h (b + 1) ts) = deadlines h b ts"
    unfolding deadlines_shift tick_all_def by (auto simp: comp_def case_prod_beta filter_id_conv)
  show "expiring (deadlines h (b + 1) ts) = []"
    unfolding deadlines_shift expiring_def by (auto simp: filter_empty_conv dest: *)
qed

lemma deadlines_zero:
  "(\<And>u. u \<in> set zs \<Longrightarrow> regs (h u) 1 = 0) \<Longrightarrow> deadlines h b zs = map (\<lambda>u. (u, b)) zs"
  by (induction zs) auto

lemma tick_all_first:
  assumes "\<And>u. u \<in> set zs \<Longrightarrow> regs (h u) 1 = 0" and "keep \<noteq> [] \<Longrightarrow> regs (h (hd keep)) 1 \<noteq> 0"
    and "unat (regs (h t) 1) = 1"
  shows "tick_all (deadlines h 0 (t # zs @ keep)) = deadlines h 0 keep"
    and "expiring (deadlines h 0 (t # zs @ keep)) = t # zs"
proof -
  have s: "(\<Sum>x\<leftarrow>zs. unat (regs (h x) 1)) = 0" using assms(1) by (simp add: sum_list_eq_0_iff)
  have k: "tick_all (deadlines h 1 keep) = deadlines h 0 keep" "expiring (deadlines h 1 keep) = []"
  proof -
    show "tick_all (deadlines h 1 keep) = deadlines h 0 keep"
    proof (cases keep)
      case (Cons x xs)
      have pos: "0 < unat (regs (h x) 1)" using assms(2) Cons by (simp add: unat_gt_0)
      show ?thesis using tick_all_later(1) [OF pos, of h xs] pos Cons
        by (simp add: tick_all_def ac_simps)
    qed (simp add: tick_all_def)
    show "expiring (deadlines h 1 keep) = []"
    proof (cases keep)
      case (Cons x xs)
      have pos: "0 < unat (regs (h x) 1)" using assms(2) Cons by (simp add: unat_gt_0)
      show ?thesis using tick_all_later(2) [OF pos, of h xs] pos Cons
        by (simp add: expiring_def ac_simps)
    qed (simp add: expiring_def)
  qed
  have z: "tick_all (map (\<lambda>u. (u, 1)) zs) = []" "expiring (map (\<lambda>u. (u, 1)) zs) = zs" for zs
    by (induction zs) (simp_all add: tick_all_def expiring_def)
  have "deadlines h 0 (t # zs @ keep) = map (\<lambda>u. (u, 1)) (t # zs) @ deadlines h 1 keep"
    using assms(3) deadlines_zero [of zs h 1] assms(1) by (simp add: deadlines_append s)
  then show "tick_all (deadlines h 0 (t # zs @ keep)) = deadlines h 0 keep"
    and "expiring (deadlines h 0 (t # zs @ keep)) = t # zs"
    using k z [of "t # zs"] by (simp_all only: tick_all_append expiring_append) simp_all
qed

lemma tq_chain_suffix: "tq_chain h p x (as @ bs) \<Longrightarrow> \<exists>p'. tq_chain h p' (if bs = [] then 0 else hd bs) bs"
  by (induction as arbitrary: p x) (auto, metis tq_chain_head)

text \<open>The effect of a tick on the thread that is not released, and on the one that is.\<close>

definition tick_effect :: "kernel \<Rightarrow> kernel \<Rightarrow> u64 set \<Rightarrow> bool" where
  "tick_effect k k' released \<longleftrightarrow>
     (\<forall>u\<in>released. reg k' u 0 = - 1 \<and> gate (threads k' u) = 0) \<and>
     (\<forall>u. u \<notin> released \<longrightarrow> reg k' u 0 = reg k u 0 \<and> gate (threads k' u) = gate (threads k u)) \<and>
     (\<forall>u. current_map (threads k' u) = current_map (threads k u)) \<and>
     runnable k' = runnable k \<and> interrupt_thread k' = interrupt_thread k \<and>
     blocked_with_timeout_address k' = blocked_with_timeout_address k"

lemma gate_tick_waiting:
  assumes inv: "timeout_inv k (t # ts)" and more: "reg k t 1 \<noteq> 1"
    and m: "current_map (threads k it) = system_map_index"
  shows "gate_tick it k = Inr (stay it, set_reg t 1 (reg k t 1 - 1) k)"
    and "timeout_inv (set_reg t 1 (reg k t 1 - 1) k) (t # ts)"
    and "timeouts (set_reg t 1 (reg k t 1 - 1) k) (t # ts) = tick_all (timeouts k (t # ts))"
    and "expiring (timeouts k (t # ts)) = []"
proof -
  let ?k = "set_reg t 1 (reg k t 1 - 1) k"
  have tl: "timeout_list k (t # ts)" and nz: "reg k t 1 \<noteq> 0" using inv by (auto simp: timeout_inv_def)
  note d = timeout_listD [OF tl]
  have h: "blocked_with_timeout k = t" "t \<noteq> 0" using d(4,5) by auto
  have pos: "0 < unat (reg k t 1 - 1)" using more by (simp add: unat_gt_0)
  have s: "unat (reg k t 1) = unat (reg k t 1 - 1) + 1"
    using nz pos by (simp add: unat_minus_one unat_gt_0)
  show "gate_tick it k = Inr (stay it, ?k)"
    using m h more by (simp add: gate_tick_def Let_def)
  have c: "deadlines (threads ?k) b ts = deadlines (threads k) b ts" for b
    by (rule deadlines_cong) (use d(1) in auto)
  show dl: "timeouts ?k (t # ts) = tick_all (timeouts k (t # ts))"
    using tick_all_later(1) [OF pos, of "threads k" ts] pos s c
    by (simp add: timeouts_def tick_all_def)
  show "expiring (timeouts k (t # ts)) = []"
    using tick_all_later(2) [OF pos, of "threads k" ts] pos s
    by (simp add: timeouts_def expiring_def)
  have "tq_chain (threads ?k) p x xs \<longleftrightarrow> tq_chain (threads k) p x xs" for p x xs
    by (rule tq_chain_cong) auto
  then have "timeout_list ?k (t # ts)"
    using tl by (simp add: timeout_list_def set_reg_def)
  moreover have "\<forall>(u, e)\<in>set (timeouts ?k (t # ts)). e < 2 ^ 64"
    using inv unfolding dl by (auto simp: timeout_inv_def tick_all_def)
  ultimately show "timeout_inv ?k (t # ts)" using more by (simp add: timeout_inv_def)
qed

lemma gate_tick_expires:
  assumes inv: "timeout_inv k (t # ts)" and one: "reg k t 1 = 1"
    and m: "current_map (threads k it) = system_map_index"
    and r: "ring (threads k) (it # rest)" and dis: "set (t # ts) \<inter> set (it # rest) = {}"
    and zs: "zs = takeWhile (\<lambda>u. reg k u 1 = 0) ts" and ks: "keep = dropWhile (\<lambda>u. reg k u 1 = 0) ts"
  obtains k' where "gate_tick it k = Inr (stay it, k')" and "timeout_inv k' keep"
    and "timeouts k' keep = tick_all (timeouts k (t # ts))"
    and "ring (threads k') (it # rev (t # zs) @ rest)" and "tick_effect k k' (set (t # zs))"
proof -
  let ?k = "set_reg t 1 0 k"
  have tl: "timeout_list k (t # ts)" using inv by (simp add: timeout_inv_def)
  note d = timeout_listD [OF tl]
  have h: "blocked_with_timeout k = t" "t \<noteq> 0" using d(4,5) by auto
  have ts: "ts = zs @ keep" by (simp add: zs ks)
  have o: "reg ?k u 1 = reg k u 1" if "u \<in> set ts" for u using that d(1) by auto
  have zs': "zs = takeWhile (\<lambda>u. reg ?k u 1 = 0) ts" and ks': "keep = dropWhile (\<lambda>u. reg ?k u 1 = 0) ts"
    using d(1) unfolding zs ks by (auto intro!: takeWhile_cong dropWhile_cong)
  have c0: "tq_chain (threads ?k) (blocked_with_timeout_address k) t (t # ts)"
    using d(4) h(1) by (subst tq_chain_cong [of _ _ "threads k"]) auto
  have r0: "ring (threads ?k) (it # rest)"
    using r by (subst ring_cong [of _ _ "threads k"]) auto
  obtain k2 where k2: "gate_release_loop it t ?k = Some (if keep = [] then 0 else hd keep, k2)"
      "ring (threads k2) (it # rev (t # zs) @ rest)" "k2 = ?k\<lparr>threads := threads k2\<rparr>"
    and p2: "\<And>u. payload (threads k2 u) =
           payload (if u \<in> set (t # zs) then expire (threads ?k u) else threads ?k u)"
    using gate_release_loop_releases [OF c0 d(1) r0 dis zs' ks'] by auto
  define k3 where "k3 = k2\<lparr>blocked_with_timeout := (if keep = [] then 0 else hd keep)\<rparr>"
  define k' where "k' = (if keep = [] then k3 else set_reg (hd keep) 16 (blocked_with_timeout_address k3) k3)"
  have kz: "keep \<noteq> [] \<Longrightarrow> hd keep \<noteq> 0" using d(5) ts by (cases keep) auto
  have e: "gate_tick it k = Inr (stay it, k')"
    using m h one k2(1) kz by (simp add: gate_tick_def Let_def k3_def k'_def)
  have a3: "blocked_with_timeout_address k3 = blocked_with_timeout_address k"
    unfolding k3_def by (subst k2(3)) (simp add: set_reg_def)
  have tk': "threads k' = (if keep = [] then threads k2 else (threads k2)(hd keep :=
      (threads k2 (hd keep))\<lparr>regs := (regs (threads k2 (hd keep)))(16 := blocked_with_timeout_address k)\<rparr>))"
    by (simp add: k'_def a3) (simp add: k3_def)
  have r2: "regs (threads k2 u) = regs (if u \<in> set (t # zs) then expire (threads ?k u) else threads ?k u)"
      "gate (threads k2 u) = gate (if u \<in> set (t # zs) then expire (threads ?k u) else threads ?k u)"
      "current_map (threads k2 u) = current_map (threads k u)" for u
    using payload_fields [OF p2 [of u]] by (auto simp: expire_def)
  have kd: "u \<notin> set (t # zs)" if "u \<in> set keep" for u using that d(1) ts by auto
  have rk: "reg k2 u i = reg k u i" if "u \<in> set keep" for u i
    using kd [OF that] r2(1) [of u] by auto
  have rk': "reg k' u i = (if u = hd keep \<and> i = 16 then blocked_with_timeout_address k else reg k u i)"
    if "u \<in> set keep" for u i
    using rk [OF that] that by (cases "keep = []") (auto simp: tk')
  have bw: "blocked_with_timeout k' = (if keep = [] then 0 else hd keep)"
    by (simp add: k'_def k3_def set_reg_def)
  have ba: "blocked_with_timeout_address k' = blocked_with_timeout_address k"
    using a3 by (simp add: k'_def set_reg_def)
  have "tq_chain (threads k') (blocked_with_timeout_address k) (if keep = [] then 0 else hd keep) keep"
  proof (cases keep)
    case (Cons x xs)
    obtain p' where "tq_chain (threads k) p' x (x # xs)"
      using tq_chain_suffix [of "threads k" _ _ "t # zs" keep] d(4) ts Cons by auto
    moreover have "tq_chain (threads k') (regs17_address x) (reg k x 17) xs \<longleftrightarrow>
        tq_chain (threads k) (regs17_address x) (reg k x 17) xs"
      by (rule tq_chain_cong) (use rk' Cons d(1) ts in auto)
    ultimately show ?thesis using rk' [of x] Cons by auto
  qed simp
  then have l': "timeout_list k' keep" using d ts by (auto simp: timeout_list_def bw ba)
  have first: "keep \<noteq> [] \<Longrightarrow> reg k (hd keep) 1 \<noteq> 0"
    unfolding ks using hd_dropWhile [of "\<lambda>u. reg k u 1 = 0" ts] by simp
  have zero: "u \<in> set zs \<Longrightarrow> reg k u 1 = 0" for u unfolding zs by (auto dest: set_takeWhileD)
  have dl: "timeouts k' keep = tick_all (timeouts k (t # ts))"
    using tick_all_first(1) [of zs "threads k" keep t] zero first one
      deadlines_cong [of keep "threads k'" "threads k" 0] rk' by (simp add: timeouts_def ts)
  have "\<forall>(u, e)\<in>set (timeouts k' keep). e < 2 ^ 64"
    using inv unfolding dl by (auto simp: timeout_inv_def tick_all_def)
  then have "timeout_inv k' keep" using l' first rk' [of "hd keep"] by (simp add: timeout_inv_def)
  moreover have "ring (threads k') (it # rev (t # zs) @ rest)"
    using k2(2) by (subst ring_cong [of _ _ "threads k2"]) (auto simp: tk')
  moreover have "tick_effect k k' (set (t # zs))"
  proof -
    have "runnable k' = runnable k" "interrupt_thread k' = interrupt_thread k"
      unfolding k'_def k3_def by (subst k2(3), simp add: set_reg_def)+
    moreover have "reg k' u 0 = reg k2 u 0" "gate (threads k' u) = gate (threads k2 u)"
        "current_map (threads k' u) = current_map (threads k2 u)" for u
      by (simp_all add: tk')
    ultimately show ?thesis using r2 ba by (auto simp: tick_effect_def expire_def)
  qed
  ultimately show ?thesis using that e dl by blast
qed

lemma gate_tick_refines:
  assumes inv: "timeout_inv k ts" and m: "current_map (threads k it) = system_map_index"
    and r: "ring (threads k) (it # rest)" and dis: "set ts \<inter> set (it # rest) = {}"
  obtains k' keep where "gate_tick it k = Inr (stay it, k')"
    and "ts = expiring (timeouts k ts) @ keep" and "timeout_inv k' keep"
    and "timeouts k' keep = tick_all (timeouts k ts)"
    and "ring (threads k') (it # rev (expiring (timeouts k ts)) @ rest)"
    and "tick_effect k k' (set (expiring (timeouts k ts)))"
proof (cases ts)
  case Nil
  then have "blocked_with_timeout k = 0" using inv by (auto simp: timeout_inv_def timeout_list_def)
  then have "gate_tick it k = Inr (stay it, k)" using m by (simp add: gate_tick_def)
  moreover have "tick_effect k k {}" by (simp add: tick_effect_def)
  ultimately show ?thesis
    using that [of k "[]"] Nil inv r by (simp add: timeouts_def expiring_def tick_all_def)
next
  case (Cons t ts')
  note inv' = inv [unfolded Cons] and dis' = dis [unfolded Cons]
  show ?thesis
  proof (cases "reg k t 1 = 1")
    case False
    note w = gate_tick_waiting [OF inv' False m]
    let ?k = "set_reg t 1 (reg k t 1 - 1) k"
    have "ring (threads ?k) (it # rest)" using r by (subst ring_cong [of _ _ "threads k"]) auto
    moreover have "tick_effect k ?k {}"
      by (auto simp: tick_effect_def set_reg_def)
    ultimately show ?thesis using that [of ?k ts] w Cons by simp
  next
    case True
    define zs where "zs = takeWhile (\<lambda>u. reg k u 1 = 0) ts'"
    define keep where "keep = dropWhile (\<lambda>u. reg k u 1 = 0) ts'"
    have ts': "ts' = zs @ keep" by (simp add: zs_def keep_def)
    have "expiring (timeouts k ts) = t # zs"
      unfolding timeouts_def Cons ts'
    proof (rule tick_all_first(2))
      show "reg k u 1 = 0" if "u \<in> set zs" for u using that by (auto simp: zs_def dest: set_takeWhileD)
      show "keep \<noteq> [] \<Longrightarrow> reg k (hd keep) 1 \<noteq> 0"
        using hd_dropWhile [of "\<lambda>u. reg k u 1 = 0" ts'] by (simp add: keep_def)
      show "unat (reg k t 1) = 1" using True by simp
    qed
    then show ?thesis
      using gate_tick_expires [OF inv' True m r dis' zs_def keep_def] that [of _ keep] Cons ts'
      by (metis append_Cons)
  qed
qed

section \<open>Waiting and waking\<close>

text \<open>The \<^verbatim>\<open>list\<close> member of the thread can be followed, and does not lead to a head that points back
  at the thread once \<^verbatim>\<open>core->runnable\<close> has moved on.  A null member is read as a pointer at
  user address 0.\<close>

definition owner_ok :: "kernel \<Rightarrow> u64 \<Rightarrow> bool" where
  "owner_ok k t =
    (case t_list (threads k t) of
       Null_list \<Rightarrow> (case read_user64 k 0 of Inl _ \<Rightarrow> False | Inr v \<Rightarrow> v \<noteq> t)
     | Runnable_list \<Rightarrow> True
     | Blocked_list \<Rightarrow> blocked k \<noteq> t)"

lemma remove_thread_moved_on:
  assumes "owner_ok k e" and "r \<noteq> e"
  shows "remove_thread e (k\<lparr>runnable := r\<rparr>) = Inr (unlink_thread e (k\<lparr>runnable := r\<rparr>))"
  using assms
  by (auto simp: remove_thread_def owner_ok_def deref_list_def read_user64_def
      split: list_ref.splits sum.splits option.splits prod.splits)

lemma timeout_inv_frame:
  assumes "\<And>t i. t \<in> set ts \<Longrightarrow> i = 1 \<or> i = 16 \<or> i = 17 \<Longrightarrow> reg k' t i = reg k t i"
    and "blocked_with_timeout k' = blocked_with_timeout k" and "core_address k' = core_address k"
  shows "timeout_inv k' ts \<longleftrightarrow> timeout_inv k ts" and "timeouts k' ts = timeouts k ts"
proof -
  have a: "blocked_with_timeout_address k' = blocked_with_timeout_address k"
    using assms(3) by (simp add: blocked_with_timeout_address_def)
  have "tq_chain (threads k') p x ts \<longleftrightarrow> tq_chain (threads k) p x ts" for p x
    by (rule tq_chain_cong) (use assms(1) in auto)
  moreover show t: "timeouts k' ts = timeouts k ts"
    unfolding timeouts_def by (rule deadlines_cong) (use assms(1) in auto)
  moreover have "ts \<noteq> [] \<Longrightarrow> reg k' (hd ts) 1 = reg k (hd ts) 1" using assms(1) [of "hd ts" 1] by simp
  ultimately show "timeout_inv k' ts \<longleftrightarrow> timeout_inv k ts"
    using assms(2) by (auto simp: timeout_inv_def timeout_list_def a)
qed

text \<open>The state in which a waiting thread enters the timeout list.\<close>

definition parked :: "u64 \<Rightarrow> kernel \<Rightarrow> kernel" where
  "parked th k = set_reg th 0 0 (set_gate th THREAD_WAITING
     (unlink_thread th (k\<lparr>runnable := t_next (threads k th)\<rparr>)))"

lemma parked_facts:
  assumes r: "ring (threads k) (th # x # rest)"
  shows "runnable (parked th k) = x" and "ring (threads (parked th k)) (x # rest)"
    and "ring (threads (parked th k)) [th]"
    and "gate (threads (parked th k) th) = THREAD_WAITING" and "reg (parked th k) th 0 = 0"
    and "i \<noteq> 0 \<Longrightarrow> reg (parked th k) u i = reg k u i"
    and "blocked_with_timeout (parked th k) = blocked_with_timeout k"
    and "core_address (parked th k) = core_address k"
    and "interrupt_thread (parked th k) = interrupt_thread k"
proof -
  let ?k = "unlink_thread th (k\<lparr>runnable := t_next (threads k th)\<rparr>)"
  have pk: "ring (threads (parked th k)) ys \<longleftrightarrow> ring (threads ?k) ys" for ys
    unfolding parked_def by (rule ring_cong) auto
  have "ring (threads ?k) (x # rest)" by (rule ring_unlink_head) (use r in simp)
  then show "ring (threads (parked th k)) (x # rest)" by (simp only: pk)
  have "ring (threads ?k) [th]" by (rule ring_unlinked_self) (use r in simp)
  then show "ring (threads (parked th k)) [th]" by (simp only: pk)
  show "runnable (parked th k) = x" using r by (simp add: parked_def set_reg_def set_gate_def)
  show "reg (parked th k) u i = reg k u i" if "i \<noteq> 0" using that by (simp add: parked_def)
qed (simp_all add: parked_def set_reg_def set_gate_def)

lemma gate_wait_parks:
  assumes r: "ring (threads k) (th # x # rest)" and own: "owner_ok k th"
  shows "gate_wait th k =
    rbind (if reg k th 1 > 0 then gate_enqueue th (parked th k)
           else Inr (set_reg th 17 0 (set_reg th 16 0 (parked th k))))
      (\<lambda>k. Inr (\<lparr>sw_then = th, sw_now = x\<rparr>, k))"
proof -
  have n: "t_next (threads k th) = x" "x \<noteq> th" using r by auto
  have "reg (parked th k) th 1 = reg k th 1" using parked_facts(6) [OF r, of 1 th] by simp
  then show ?thesis
    using remove_thread_moved_on [OF own n(2)] n
    by (simp add: gate_wait_def Let_def parked_def)
qed

lemma gate_wait_forever:
  assumes r: "ring (threads k) (th # x # rest)" and own: "owner_ok k th" and z: "reg k th 1 = 0"
    and inv: "timeout_inv k ts" and nt: "th \<notin> set ts"
  obtains k' where "gate_wait th k = Inr (\<lparr>sw_then = th, sw_now = x\<rparr>, k')" and "runnable k' = x"
    and "ring (threads k') (x # rest)" and "ring (threads k') [th]"
    and "gate (threads k' th) = THREAD_WAITING" and "reg k' th 0 = 0" and "reg k' th 16 = 0"
    and "timeout_inv k' ts" and "timeouts k' ts = timeouts k ts"
proof -
  let ?k = "set_reg th 17 0 (set_reg th 16 0 (parked th k))"
  note p = parked_facts [OF r]
  have ring: "ring (threads ?k) ys \<longleftrightarrow> ring (threads (parked th k)) ys" for ys
    by (rule ring_cong) auto
  have keep: "timeout_inv ?k ts \<longleftrightarrow> timeout_inv k ts" "timeouts ?k ts = timeouts k ts"
    by (rule timeout_inv_frame; use nt p in \<open>auto simp: set_reg_def\<close>)+
  show ?thesis
  proof (rule that [of ?k])
    show "gate_wait th k = Inr (\<lparr>sw_then = th, sw_now = x\<rparr>, ?k)"
      using gate_wait_parks [OF r own] z by simp
    show "runnable ?k = x" using p(1) by (simp add: set_reg_def)
    show "ring (threads ?k) (x # rest)" "ring (threads ?k) [th]" using p(2,3) by (simp_all only: ring)
    show "gate (threads ?k th) = THREAD_WAITING" "reg ?k th 0 = 0" "reg ?k th 16 = 0"
      using p(4,5) by simp_all
    show "timeout_inv ?k ts" "timeouts ?k ts = timeouts k ts" using keep inv by simp_all
  qed
qed

lemma gate_wait_timeout:
  assumes r: "ring (threads k) (th # x # rest)" and own: "owner_ok k th" and pos: "reg k th 1 \<noteq> 0"
    and inv: "timeout_inv k ts" and nt: "th \<notin> set ts" and q: "queueable k th"
  obtains k' as bs where "gate_wait th k = Inr (\<lparr>sw_then = th, sw_now = x\<rparr>, k')" and "runnable k' = x"
    and "ring (threads k') (x # rest)" and "ring (threads k') [th]"
    and "gate (threads k' th) = THREAD_WAITING" and "reg k' th 0 = 0"
    and "ts = as @ bs" and "timeout_inv k' (as @ th # bs)"
    and "timeouts k' (as @ th # bs) = insort_key snd (th, unat (reg k th 1)) (timeouts k ts)"
proof -
  let ?p = "parked th k"
  note p = parked_facts [OF r]
  have keep: "timeout_inv ?p ts \<longleftrightarrow> timeout_inv k ts" "timeouts ?p ts = timeouts k ts"
    by (rule timeout_inv_frame; use p in auto)+
  have i: "timeout_inv ?p ts" using keep inv by simp
  have q': "queueable ?p th" using q p(8) by (simp add: queueable_def blocked_with_timeout_address_def)
  have r1: "reg ?p th 1 = reg k th 1" using p(6) [of 1 th] by simp
  then have pos': "reg ?p th 1 \<noteq> 0" using pos by simp
  obtain k' as bs where k': "gate_enqueue th ?p = Inr k'" "ts = as @ bs" "timeout_inv k' (as @ th # bs)"
      "timeouts k' (as @ th # bs) = insort_key snd (th, unat (reg ?p th 1)) (timeouts ?p ts)"
      "only_queue_regs ?p k' (insert th (set ts))"
    by (rule gate_enqueue_refines [OF i nt q' pos'])
  have "reg k th 1 > 0" using pos by (simp add: word_gt_0)
  then have e: "gate_wait th k = Inr (\<lparr>sw_then = th, sw_now = x\<rparr>, k')"
    using gate_wait_parks [OF r own] k'(1) by simp
  show ?thesis
  proof (rule that [OF e _ _ _ _ _ k'(2,3)])
    show "runnable k' = x" "gate (threads k' th) = THREAD_WAITING" "reg k' th 0 = 0"
      using only_queue_regsD [OF k'(5)] p(1,4,5) by simp_all
    show "ring (threads k') (x # rest)" "ring (threads k') [th]"
      using p(2,3) by (simp_all only: only_queue_regs_ring [OF k'(5)])
    show "timeouts k' (as @ th # bs) = insort_key snd (th, unat (reg k th 1)) (timeouts k ts)"
      using k'(4) keep(2) r1 by simp
  qed
qed

lemma gate_wake_releases:
  assumes r: "ring (threads k) (th # rest)" and t: "t = thread_from_code (ucast (reg k th 0))"
    and w: "gate (threads k t) = THREAD_WAITING" and m: "current_map (threads k th) = current_map (threads k t)"
    and nt: "t \<notin> set (th # rest)" "t \<noteq> 0" and inv: "timeout_inv k (as @ t # bs)"
  obtains k' where "gate_wake th k = Inr (stay th, k')" and "ring (threads k') (th # t # rest)"
    and "gate (threads k' t) = 0" and "timeout_inv k' (as @ bs)"
    and "timeouts k' (as @ bs) = filter (\<lambda>(u, _). u \<noteq> t) (timeouts k (as @ t # bs))"
    and "runnable k' = runnable k" and "reg k' th 0 = reg k th 0"
proof -
  let ?k = "set_gate t 0 (insert_new_thread_after_old t th k)"
  have ring: "ring (threads ?k) (th # t # rest)"
    using ring_insert_after_head [OF r nt] by (subst ring_cong [of _ _ "threads (insert_new_thread_after_old t th k)"]) auto
  have keep: "timeout_inv ?k (as @ t # bs) \<longleftrightarrow> timeout_inv k (as @ t # bs)"
      "timeouts ?k (as @ t # bs) = timeouts k (as @ t # bs)"
    by (rule timeout_inv_frame; simp add: set_gate_def)+
  have i: "timeout_inv ?k (as @ t # bs)" using keep inv by simp
  note c = gate_cancel_refines [OF i]
  show ?thesis
  proof (rule that [of "gate_cancel t ?k"])
    show "gate_wake th k = Inr (stay th, gate_cancel t ?k)"
      using w m by (simp add: gate_wake_def t [symmetric] Let_def)
    show "ring (threads (gate_cancel t ?k)) (th # t # rest)"
      using ring by (simp only: only_queue_regs_ring [OF c(3)])
    show "gate (threads (gate_cancel t ?k) t) = 0" "runnable (gate_cancel t ?k) = runnable k"
        "reg (gate_cancel t ?k) th 0 = reg k th 0"
      using only_queue_regsD [OF c(3)] by (simp_all add: set_gate_def)
  qed (use c keep in simp_all)
qed

lemma gate_wake_releases_untimed:
  assumes r: "ring (threads k) (th # rest)" and t: "t = thread_from_code (ucast (reg k th 0))"
    and w: "gate (threads k t) = THREAD_WAITING" and m: "current_map (threads k th) = current_map (threads k t)"
    and nt: "t \<notin> set (th # rest)" "t \<noteq> 0" and inv: "timeout_inv k ts" and z: "reg k t 16 = 0"
  obtains k' where "gate_wake th k = Inr (stay th, k')" and "ring (threads k') (th # t # rest)"
    and "gate (threads k' t) = 0" and "timeout_inv k' ts" and "timeouts k' ts = timeouts k ts"
    and "runnable k' = runnable k"
proof -
  let ?k = "set_gate t 0 (insert_new_thread_after_old t th k)"
  have ring: "ring (threads ?k) (th # t # rest)"
    using ring_insert_after_head [OF r nt] by (subst ring_cong [of _ _ "threads (insert_new_thread_after_old t th k)"]) auto
  have keep: "timeout_inv ?k ts \<longleftrightarrow> timeout_inv k ts" "timeouts ?k ts = timeouts k ts"
    by (rule timeout_inv_frame; simp add: set_gate_def)+
  show ?thesis
  proof (rule that [of ?k])
    show "gate_wake th k = Inr (stay th, ?k)"
      using w m z by (simp add: gate_wake_def t [symmetric] Let_def gate_cancel_def)
    show "ring (threads ?k) (th # t # rest)" by (rule ring)
    show "timeout_inv ?k ts" "timeouts ?k ts = timeouts k ts" using keep inv by simp_all
  qed (simp_all add: set_gate_def)
qed

text \<open>Waking a thread that does not wait counts the event, up to \<^verbatim>\<open>0x7fffffff\<close>.\<close>

lemma gate_wake_counts:
  assumes t: "t = thread_from_code (ucast (reg k th 0))" and g: "0 \<le> sint (gate (threads k t))"
    and le: "sint (gate (threads k t)) \<le> 0x7fffffff"
  obtains k' where "gate_wake th k = Inr (stay th, k')"
    and "sint (gate (threads k' t)) = min 0x7fffffff (sint (gate (threads k t)) + 1)"
    and "\<And>u. u \<noteq> t \<Longrightarrow> threads k' u = threads k u"
proof -
  let ?g = "gate (threads k t)"
  have nw: "?g \<noteq> THREAD_WAITING" using g by (auto simp: THREAD_WAITING_def)
  show ?thesis
  proof (cases "sint ?g < 0x7fffffff")
    case True
    have "sint (?g + 1) = sint ?g + 1"
      using g True by (simp add: sint_word_ariths signed_take_bit_int_eq_self)
    then show ?thesis
      using that [of "set_gate t (?g + 1) k"] nw True by (simp add: gate_wake_def t [symmetric] Let_def)
  next
    case False
    then show ?thesis using that [of k] nw le by (simp add: gate_wake_def t [symmetric] Let_def)
  qed
qed

section \<open>The interface of a timeout queue\<close>

text \<open>What the tick handler and the waiting threads rely on, and its consequence: an entry that is not
  cancelled leaves the queue at the tick that its time asks for, not before and not after.\<close>

locale timeout_queue =
  fixes rep :: "'s \<Rightarrow> (u64 \<times> nat) list \<Rightarrow> bool"
    and ready :: "'s \<Rightarrow> u64 \<Rightarrow> nat \<Rightarrow> bool"
    and enqueue :: "u64 \<Rightarrow> 's \<Rightarrow> 's result"
    and tick :: "'s \<Rightarrow> 's result"
  assumes enqueue_rep: "rep s L \<Longrightarrow> ready s t n \<Longrightarrow>
      \<exists>s'. enqueue t s = Inr s' \<and> rep s' (insort_key snd (t, n) L)"
    and tick_rep: "rep s L \<Longrightarrow> \<exists>s'. tick s = Inr s' \<and> rep s' (tick_all L)"
begin

fun ticks :: "nat \<Rightarrow> 's \<Rightarrow> 's result" where
  "ticks 0 s = Inr s"
| "ticks (Suc n) s = rbind (tick s) (ticks n)"

definition after :: "nat \<Rightarrow> (u64 \<times> nat) list \<Rightarrow> (u64 \<times> nat) list" where
  "after m L = filter (\<lambda>(_, d). 0 < d) (map (\<lambda>(t, d). (t, d - m)) L)"

lemma after_Suc: "after m (tick_all L) = after (Suc m) L"
  by (induction L) (auto simp: after_def tick_all_def)

lemma after_0: "(\<And>t d. (t, d) \<in> set L \<Longrightarrow> 0 < d) \<Longrightarrow> after 0 L = L"
  by (induction L) (auto simp: after_def)

lemma tick_all_pos: "(t, d) \<in> set (tick_all L) \<Longrightarrow> 0 < d"
  by (auto simp: tick_all_def)

lemma ticks_rep:
  assumes "rep s L" and "\<And>t d. (t, d) \<in> set L \<Longrightarrow> 0 < d"
  shows "\<exists>s'. ticks m s = Inr s' \<and> rep s' (after m L)"
  using assms
proof (induction m arbitrary: s L)
  case 0
  then show ?case using after_0 [of L] by auto
next
  case (Suc m)
  obtain s1 where "tick s = Inr s1" "rep s1 (tick_all L)" using tick_rep [OF Suc.prems(1)] by blast
  then show ?case using Suc.IH [of s1 "tick_all L"] tick_all_pos by (auto simp: after_Suc)
qed

text \<open>Enqueued for \<^verbatim>\<open>n\<close> ticks, a thread is in the queue after \<^verbatim>\<open>m\<close> ticks exactly when
  \<^verbatim>\<open>m < n\<close>, with \<^verbatim>\<open>n - m\<close> left.\<close>

lemma enqueue_then_ticks:
  assumes "rep s L" and "\<And>u d. (u, d) \<in> set L \<Longrightarrow> 0 < d" and "ready s t n" and "0 < n"
    and "t \<notin> fst ` set L"
  shows "\<exists>s1 s2 L'. enqueue t s = Inr s1 \<and> ticks m s1 = Inr s2 \<and> rep s2 L'
     \<and> (\<forall>d. (t, d) \<in> set L' \<longleftrightarrow> m < n \<and> d = n - m)"
proof -
  obtain s1 where s1: "enqueue t s = Inr s1" "rep s1 (insort_key snd (t, n) L)"
    using enqueue_rep [OF assms(1,3)] by blast
  let ?L = "insort_key snd (t, n) L"
  have "0 < d" if "(u, d) \<in> set ?L" for u d
    using that assms(2,4) by (auto simp: set_insort_key)
  then obtain s2 where s2: "ticks m s1 = Inr s2" "rep s2 (after m ?L)"
    using ticks_rep [OF s1(2)] by blast
  have "(t, d) \<in> set (after m ?L) \<longleftrightarrow> m < n \<and> d = n - m" for d
    using assms(5) by (force simp: after_def set_insort_key)
  then show ?thesis using s1(1) s2 by blast
qed

end

text \<open>The kernel's queue: the interrupt thread heads a ring of runnable threads that are not in it.\<close>

definition gate_rep :: "kernel \<Rightarrow> (u64 \<times> nat) list \<Rightarrow> bool" where
  "gate_rep k L \<longleftrightarrow>
     timeout_inv k (map fst L) \<and> timeouts k (map fst L) = L
     \<and> current_map (threads k (interrupt_thread k)) = system_map_index
     \<and> (\<exists>rest. ring (threads k) (interrupt_thread k # rest)
          \<and> set (map fst L) \<inter> set (interrupt_thread k # rest) = {})"

definition gate_ready :: "kernel \<Rightarrow> u64 \<Rightarrow> nat \<Rightarrow> bool" where
  "gate_ready k t n \<longleftrightarrow> queueable k t \<and> unat (reg k t 1) = n \<and> n \<noteq> 0 \<and> ring (threads k) [t]
     \<and> reg k t 16 = 0 \<and> t \<noteq> interrupt_thread k"

definition gate_tick_state :: "kernel \<Rightarrow> kernel result" where
  "gate_tick_state k = rbind (gate_tick (interrupt_thread k) k) (\<lambda>(_, k). Inr k)"

lemma ring_singleton_alone:
  assumes "ring h [t]" and "ring h (x # xs)" and "t \<noteq> x"
  shows "t \<notin> set (x # xs)"
proof
  assume t: "t \<in> set (x # xs)"
  obtain as bs where s: "x # xs = as @ t # bs" using t by (meson split_list)
  have "chain h t (bs @ as) t" using assms(2) ring_rotate [of h as "t # bs"] unfolding s by simp
  moreover have "bs @ as \<noteq> []" using s assms(3) by (cases as) auto
  moreover have "t \<notin> set (bs @ as)" using ring_distinct [OF assms(2)] unfolding s by auto
  ultimately show False using assms(1) by (cases "bs @ as") auto
qed

lemma timeouts_not_parked:
  assumes "timeout_inv k ts" and "reg k t 16 = 0"
  shows "t \<notin> set ts"
proof
  assume "t \<in> set ts"
  then obtain as bs where s: "ts = as @ t # bs" by (meson split_list)
  have tl: "timeout_list k (as @ t # bs)" using assms(1) s by (simp add: timeout_inv_def)
  note d = timeout_listD [OF tl]
  show False using tq_chain_member(1) [OF d(4)] assms(2) d(2) d(3) [of "last as"] by (auto split: if_splits)
qed

interpretation gate_queue: timeout_queue gate_rep gate_ready gate_enqueue gate_tick_state
proof (unfold_locales, goal_cases)
  case (1 k L t n)
  let ?ts = "map fst L" and ?it = "interrupt_thread k"
  have inv: "timeout_inv k ?ts" and L: "timeouts k ?ts = L" using 1(1) by (auto simp: gate_rep_def)
  obtain rest where rest: "ring (threads k) (?it # rest)" "set ?ts \<inter> set (?it # rest) = {}"
    using 1(1) by (auto simp: gate_rep_def)
  have nt: "t \<notin> set ?ts" using timeouts_not_parked [OF inv] 1(2) by (simp add: gate_ready_def)
  have pos: "reg k t 1 \<noteq> 0" using 1(2) by (auto simp: gate_ready_def)
  have q: "queueable k t" and n: "unat (reg k t 1) = n" using 1(2) by (simp_all add: gate_ready_def)
  have al: "t \<notin> set (?it # rest)"
    using ring_singleton_alone [OF _ rest(1)] 1(2) by (simp add: gate_ready_def)
  obtain k' as bs where k': "gate_enqueue t k = Inr k'" "?ts = as @ bs" "timeout_inv k' (as @ t # bs)"
      "timeouts k' (as @ t # bs) = insort_key snd (t, unat (reg k t 1)) (timeouts k ?ts)"
      "only_queue_regs k k' (insert t (set ?ts))"
    by (rule gate_enqueue_refines [OF inv nt q pos])
  have eq: "timeouts k' (as @ t # bs) = insort_key snd (t, n) L" using k'(4) L n by simp
  then have fst: "map fst (insort_key snd (t, n) L) = as @ t # bs"
    by (metis map_fst_deadlines timeouts_def)
  have "set (as @ t # bs) \<inter> set (?it # rest) = {}" using rest(2) al unfolding k'(2) by auto
  moreover have "interrupt_thread k' = ?it" "current_map (threads k' ?it) = current_map (threads k ?it)"
    using only_queue_regsD [OF k'(5)] by simp_all
  moreover have "ring (threads k') (?it # rest)"
    using rest(1) by (simp only: only_queue_regs_ring [OF k'(5)])
  ultimately have "gate_rep k' (insort_key snd (t, n) L)"
    unfolding gate_rep_def fst using k'(3) eq 1(1) by (auto simp: gate_rep_def)
  then show ?case using k'(1) by blast
next
  case (2 k L)
  let ?ts = "map fst L" and ?it = "interrupt_thread k"
  have inv: "timeout_inv k ?ts" and L: "timeouts k ?ts = L"
    and m: "current_map (threads k ?it) = system_map_index" using 2 by (auto simp: gate_rep_def)
  obtain rest where rest: "ring (threads k) (?it # rest)" "set ?ts \<inter> set (?it # rest) = {}"
    using 2 by (auto simp: gate_rep_def)
  obtain k' keep where k': "gate_tick ?it k = Inr (stay ?it, k')"
      "?ts = expiring (timeouts k ?ts) @ keep" "timeout_inv k' keep"
      "timeouts k' keep = tick_all (timeouts k ?ts)"
      "ring (threads k') (?it # rev (expiring (timeouts k ?ts)) @ rest)"
      "tick_effect k k' (set (expiring (timeouts k ?ts)))"
    by (rule gate_tick_refines [OF inv m rest])
  have fst: "map fst (tick_all L) = keep" using k'(4) L by (metis map_fst_deadlines timeouts_def)
  have d: "distinct ?ts" using inv by (simp add: timeout_inv_def timeout_list_def)
  then have "distinct (expiring L @ keep)" using k'(2) unfolding L by (metis)
  then have "set keep \<inter> set (?it # rev (expiring L) @ rest) = {}"
    using rest(2) k'(2) unfolding L by auto
  moreover have "interrupt_thread k' = ?it" "current_map (threads k' ?it) = system_map_index"
    using k'(6) m by (simp_all add: tick_effect_def)
  ultimately have "gate_rep k' (tick_all L)"
    unfolding gate_rep_def fst using k'(3,4,5) unfolding L
    by (intro conjI exI [of _ "rev (expiring L) @ rest"]) simp_all
  then show ?case using k'(1) by (auto simp: gate_tick_state_def)
qed

end
