(* ===== verification/Interfaces.thy ===== *)
theory Interfaces
  imports Heap
begin

text \<open>
  The table of interfaces (\<^verbatim>\<open>secure_el1.c\<close>, lines 293-358) and the system calls that
  create interfaces (\<^verbatim>\<open>include/svc_handling.h\<close>, lines 139-222).

  Free entries are chained by their overlaid \<^verbatim>\<open>free.next\<close> member from
  \<^verbatim>\<open>kernel_free_interface\<close>.  \<^verbatim>\<open>table_inv\<close> says which entries are free; obtaining an entry
  takes the first of them, and filling it disturbs no other entry.  An entry is named by its index; the
  entries from \<^verbatim>\<open>kernel_last_interface\<close> on lie in an unmapped page (512 entries of 24
  bytes fill three pages), so reading them aborts at EL1.
\<close>

section \<open>The table\<close>

definition free_marker :: u64 where "free_marker = 0x00746e4965657246"

definition interface_from_index :: "kernel \<Rightarrow> u32 \<Rightarrow> nat option" where
  "interface_from_index k index =
    (if index > kernel_last_interface k then None else Some (unat index))"

definition interface_at :: "kernel \<Rightarrow> nat \<Rightarrow> Interface result" where
  "interface_at k i =
    (if i < unat (kernel_last_interface k) then Inr (interfaces k i) else Inl (BSOD 542))"

definition set_interface :: "nat \<Rightarrow> Interface \<Rightarrow> kernel \<Rightarrow> kernel" where
  "set_interface i e k = k\<lparr>interfaces := (interfaces k)(i := e)\<rparr>"

definition index_from_interface :: "nat \<Rightarrow> u32" where
  "index_from_interface i = of_nat i"

text \<open>Freeing spins while the list is empty and retries while the store fails; the list holds the
  values other cores write to \<^verbatim>\<open>kernel_free_interface\<close> before each further attempt.\<close>

fun free_interface_loop :: "u32 list \<Rightarrow> nat \<Rightarrow> kernel \<Rightarrow> kernel result" where
  "free_interface_loop [] i k =
    (let k = set_interface i (set_free_next (kernel_free_interface k) (interfaces k i)) k in
     if kernel_free_interface k = 0 then Inl HANG
     else Inr (k\<lparr>kernel_free_interface := index_from_interface i\<rparr>))"
| "free_interface_loop (v # vs) i k =
    (let k = set_interface i (set_free_next (kernel_free_interface k) (interfaces k i)) k in
     free_interface_loop vs i (k\<lparr>kernel_free_interface := v\<rparr>))"

definition free_interface :: "u32 list \<Rightarrow> nat \<Rightarrow> kernel \<Rightarrow> kernel result" where
  "free_interface others i k =
    free_interface_loop others i (set_interface i (set_free_marker free_marker (interfaces k i)) k)"

definition init_free_entry :: "nat \<Rightarrow> kernel \<Rightarrow> kernel" where
  "init_free_entry i k =
    set_interface i (set_free_next (of_nat (i + 1)) (set_free_marker free_marker (interfaces k i))) k"

definition new_memory_for_interfaces :: "nat \<Rightarrow> kernel \<Rightarrow> kernel" where
  "new_memory_for_interfaces new_last k =
    (let first_new = unat (kernel_last_interface k) + 1;
         k = fold init_free_entry [first_new..<new_last] k;
         k = set_interface (new_last - 1) (set_free_next 0 (interfaces k (new_last - 1))) k;
         k = k\<lparr>kernel_last_interface := of_nat new_last\<rparr>
     in k\<lparr>kernel_free_interface := of_nat first_new\<rparr>)"

text \<open>The exclusive store succeeds at the first attempt (one core, interrupts masked).\<close>

definition obtain_interface :: "kernel \<Rightarrow> (nat \<times> kernel) result" where
  "obtain_interface k =
    (let head = kernel_free_interface k in
     if head = 0 then Inl HANG
     else case interface_from_index k head of
       None \<Rightarrow> Inl FAULT
     | Some i \<Rightarrow>
        rbind (interface_at k i) (\<lambda>e.
          let k = k\<lparr>kernel_free_interface := free_next e\<rparr> in
          if free_marker_of e \<noteq> free_marker then Inl (BSOD 350)
          else if free_next e = 0 then Inl (BSOD 354)
          else Inr (i, k)))"

section \<open>System calls that create interfaces\<close>

definition top_frame :: "kernel \<Rightarrow> u64 \<Rightarrow> inter_map_call_stack_element result" where
  "top_frame k t =
    (let c = threads k t in
     if stack_pointer c < 6 then Inr (stack c (stack_pointer c)) else Inl FAULT)"

definition new_interface ::
    "u64 \<Rightarrow> u32 \<Rightarrow> u32 \<Rightarrow> u64 \<Rightarrow> u64 \<Rightarrow> kernel \<Rightarrow> (thread_switch \<times> kernel) result" where
  "new_interface thread usr prov hdlr val k =
    rbind (obtain_interface k) (\<lambda>(e, k).
      let k = set_interface e \<lparr>user = usr, provider = prov, handler = hdlr, object = val\<rparr> k;
          k = set_reg thread 0 (ucast (index_from_interface e)) k
      in Inr (stay thread, k))"

definition handle_svc_duplicate_to_return :: "u64 \<Rightarrow> kernel \<Rightarrow> (thread_switch \<times> kernel) result" where
  "handle_svc_duplicate_to_return thread k =
    (case interface_from_index k (ucast (reg k thread 0)) of
       None \<Rightarrow> Inl (BSOD 163)
     | Some i \<Rightarrow>
        rbind (interface_at k i) (\<lambda>interface.
          if user interface \<noteq> current_map (threads k thread) then Inl (BSOD 167)
          else rbind (top_frame k thread) (\<lambda>fr.
            new_interface thread (caller_map fr) (provider interface) (handler interface)
              (object interface) k)))"

definition handle_svc_duplicate_to_pass_to :: "u64 \<Rightarrow> kernel \<Rightarrow> (thread_switch \<times> kernel) result" where
  "handle_svc_duplicate_to_pass_to thread k =
    (case interface_from_index k (ucast (reg k thread 1)) of
       None \<Rightarrow> Inl (BSOD 179)
     | Some i \<Rightarrow>
        rbind (interface_at k i) (\<lambda>interface.
          if user interface \<noteq> current_map (threads k thread) then Inl (BSOD 183)
          else case interface_from_index k (ucast (reg k thread 0)) of
            None \<Rightarrow> Inl (BSOD 188)
          | Some j \<Rightarrow>
             rbind (interface_at k j) (\<lambda>target.
               if user target \<noteq> current_map (threads k thread) then Inl (BSOD 192)
               else new_interface thread (provider target) (provider interface) (handler interface)
                      (object interface) k)))"

definition handle_svc_interface_to_pass_to :: "u64 \<Rightarrow> kernel \<Rightarrow> (thread_switch \<times> kernel) result" where
  "handle_svc_interface_to_pass_to thread k =
    (if reg k thread 1 AND 3 \<noteq> 0 then Inl (SMC 13)
     else case interface_from_index k (ucast (reg k thread 0)) of
       None \<Rightarrow> Inl (BSOD 206)
     | Some i \<Rightarrow>
        rbind (interface_at k i) (\<lambda>interface.
          if user interface \<noteq> current_map (threads k thread) then Inl (BSOD 209)
          else new_interface thread (provider interface) (current_map (threads k thread))
                 (reg k thread 1) (reg k thread 2) k))"

definition handle_svc_interface_to_return :: "u64 \<Rightarrow> kernel \<Rightarrow> (thread_switch \<times> kernel) result" where
  "handle_svc_interface_to_return thread k =
    (if reg k thread 0 AND 3 \<noteq> 0 then Inl (SMC 13)
     else rbind (top_frame k thread) (\<lambda>fr.
       new_interface thread (caller_map fr) (current_map (threads k thread))
         (reg k thread 0) (reg k thread 1) k))"

section \<open>The free list\<close>

fun free_chain :: "(nat \<Rightarrow> Interface) \<Rightarrow> u32 \<Rightarrow> nat list \<Rightarrow> bool" where
  "free_chain t h [] \<longleftrightarrow> h = 0"
| "free_chain t h (i # is) \<longleftrightarrow>
     h \<noteq> 0 \<and> unat h = i \<and> free_marker_of (t i) = free_marker \<and> free_chain t (free_next (t i)) is"

definition table_inv :: "kernel \<Rightarrow> nat list \<Rightarrow> bool" where
  "table_inv k is \<longleftrightarrow>
     distinct is \<and> (\<forall>i\<in>set is. i < unat (kernel_last_interface k)) \<and>
     free_chain (interfaces k) (kernel_free_interface k) is"

lemma free_chain_cong:
  assumes "\<And>i. i \<in> set is \<Longrightarrow> t' i = t i"
  shows "free_chain t' h is \<longleftrightarrow> free_chain t h is"
  using assms by (induction "is" arbitrary: h) auto

lemma obtain_interface_first:
  assumes "table_inv k (i # j # is)"
  shows "obtain_interface k = Inr (i, k\<lparr>kernel_free_interface := of_nat j\<rparr>)"
    and "table_inv (k\<lparr>kernel_free_interface := of_nat j\<rparr>) (j # is)"
proof -
  have *: "free_next (interfaces k i) = of_nat j" "(of_nat j :: u32) \<noteq> 0"
    and h: "kernel_free_interface k \<noteq> 0" "unat (kernel_free_interface k) = i"
    and m: "free_marker_of (interfaces k i) = free_marker" and i: "i < unat (kernel_last_interface k)"
    using assms by (auto simp: table_inv_def)
  have "\<not> kernel_free_interface k > kernel_last_interface k"
    using h i by (simp add: word_less_nat_alt)
  then show "obtain_interface k = Inr (i, k\<lparr>kernel_free_interface := of_nat j\<rparr>)"
    using * h m i by (simp add: obtain_interface_def interface_from_index_def interface_at_def Let_def)
  show "table_inv (k\<lparr>kernel_free_interface := of_nat j\<rparr>) (j # is)"
    using assms * by (auto simp: table_inv_def)
qed

text \<open>The last free entry is never handed out, and an empty list hangs the core.\<close>

lemma obtain_interface_exhausted:
  "table_inv k [i] \<Longrightarrow> obtain_interface k = Inl (BSOD 354)"
  "table_inv k [] \<Longrightarrow> obtain_interface k = Inl HANG"
  by (auto simp: table_inv_def obtain_interface_def interface_from_index_def interface_at_def Let_def
      word_less_nat_alt)

lemma obtain_interface_Inr:
  assumes "obtain_interface k = Inr (i, k')" and "table_inv k is"
  obtains js where "is = i # js" and "js \<noteq> []" and "table_inv k' js" and "interfaces k' = interfaces k"
    and "kernel_last_interface k' = kernel_last_interface k" and "threads k' = threads k"
proof (cases "is")
  case Nil
  then show ?thesis using assms obtain_interface_exhausted(2) by simp
next
  case (Cons a js)
  show ?thesis
  proof (cases js)
    case Nil
    then show ?thesis using assms Cons obtain_interface_exhausted(1) [of k a] by simp
  next
    case (Cons b js')
    then show ?thesis
      using that [of js] assms \<open>is = a # js\<close> obtain_interface_first [of k a b js'] by auto
  qed
qed

lemma table_inv_fill:
  assumes "table_inv k is" and "i \<notin> set is"
  shows "table_inv (set_interface i e k) is"
proof -
  have "free_chain ((interfaces k)(i := e)) (kernel_free_interface k) is"
    using assms by (subst free_chain_cong [of _ _ "interfaces k"]) (auto simp: table_inv_def)
  then show ?thesis using assms by (simp add: table_inv_def set_interface_def)
qed

text \<open>The interface of a table of slots, and what its clients get: slots taken one after the other are
  distinct and keep what was stored in them.\<close>

locale slot_table =
  fixes inv :: "'s \<Rightarrow> nat list \<Rightarrow> bool"
    and take_slot :: "'s \<Rightarrow> (nat \<times> 's) result"
    and fill :: "nat \<Rightarrow> 'v \<Rightarrow> 's \<Rightarrow> 's"
    and look :: "'s \<Rightarrow> nat \<Rightarrow> 'v"
  assumes take_first: "inv s (i # j # is) \<Longrightarrow>
      \<exists>s'. take_slot s = Inr (i, s') \<and> inv s' (j # is) \<and> look s' = look s"
    and fill_inv: "inv s is \<Longrightarrow> i \<notin> set is \<Longrightarrow> inv (fill i v s) is"
    and look_fill: "look (fill i v s) = (look s)(i := v)"
    and inv_distinct: "inv s is \<Longrightarrow> distinct is"
begin

fun store_all :: "'v list \<Rightarrow> 's \<Rightarrow> 's result" where
  "store_all [] s = Inr s"
| "store_all (v # vs) s = rbind (take_slot s) (\<lambda>(i, s). store_all vs (fill i v s))"

lemma store_all_stores:
  assumes "inv s (is @ js)" and "js \<noteq> []" and "length is = length vs"
  shows "\<exists>s'. store_all vs s = Inr s' \<and> inv s' js \<and> map (look s') is = vs
     \<and> (\<forall>i. i \<notin> set is \<longrightarrow> look s' i = look s i)"
  using assms
proof (induction vs arbitrary: s "is")
  case Nil
  then show ?case by simp
next
  case (Cons v vs)
  obtain i is' where i: "is = i # is'" using Cons.prems(3) by (cases "is") auto
  obtain j rest where jr: "is' @ js = j # rest" using Cons.prems(2) by (cases "is' @ js") auto
  obtain s1 where s1: "take_slot s = Inr (i, s1)" "inv s1 (is' @ js)" "look s1 = look s"
    using take_first [of s i j rest] Cons.prems(1) unfolding i append_Cons jr by auto
  have d: "i \<notin> set (is' @ js)" using inv_distinct [OF Cons.prems(1)] by (simp add: i)
  obtain s' where "store_all vs (fill i v s1) = Inr s'" "inv s' js" "map (look s') is' = vs"
      "\<forall>n. n \<notin> set is' \<longrightarrow> look s' n = look (fill i v s1) n"
    using Cons.IH [OF fill_inv [OF s1(2) d]] Cons.prems i by auto
  then show ?case using s1 i d by (auto simp: look_fill)
qed

end

interpretation interface_table: slot_table table_inv obtain_interface set_interface interfaces
proof (unfold_locales, goal_cases)
  case (1 s i j "is") then show ?case using obtain_interface_first [OF 1] by auto
next
  case (2 s "is" i v) then show ?case by (rule table_inv_fill)
next
  case (3 i v s) show ?case by (simp add: set_interface_def)
next
  case (4 s "is") then show ?case by (simp add: table_inv_def)
qed

section \<open>Initialisation and freeing\<close>

lemma free_marker_of_set_marker:
  "free_marker_of (set_free_next n (set_free_marker m i)) = m"
proof (rule bit_eqI)
  fix b
  show "bit (free_marker_of (set_free_next n (set_free_marker m i))) b \<longleftrightarrow> bit m b"
    by (cases "b < 32")
      (auto simp: free_marker_of_def set_free_next_def set_free_marker_def bit_simps bit_set_field
        dest: bit_imp_le_length)
qed

lemma free_next_set_next [simp]: "free_next (set_free_next n i) = n"
  by (simp add: free_next_def set_free_next_def)

lemma fold_init_free_entry:
  "interfaces (fold init_free_entry is k) i =
     (if i \<in> set is then set_free_next (of_nat (i + 1)) (set_free_marker free_marker (interfaces k i))
      else interfaces k i)"
proof (induction "is" arbitrary: k)
  case (Cons j js)
  have idem: "set_free_next n (set_free_marker m (set_free_next n' (set_free_marker m e)))
      = set_free_next n (set_free_marker m e)" for n n' m e
    by (simp add: set_free_next_def set_free_marker_def set_set_field)
  have e: "interfaces (init_free_entry j k) = (interfaces k)(j :=
      set_free_next (of_nat (j + 1)) (set_free_marker free_marker (interfaces k j)))"
    by (simp add: init_free_entry_def set_interface_def)
  show ?case by (auto simp: Cons.IH e idem simp del: of_nat_Suc of_nat_add)
qed simp

lemma fold_init_free_entry_frame:
  "kernel_last_interface (fold init_free_entry is k) = kernel_last_interface k"
  by (induction "is" arbitrary: k) (simp_all add: init_free_entry_def set_interface_def)

lemma free_chain_upt:
  assumes "\<And>i. a \<le> i \<Longrightarrow> i < n \<Longrightarrow> free_marker_of (t i) = free_marker
             \<and> free_next (t i) = (if i + 1 = n then 0 else of_nat (i + 1))"
    and "a < n" and "0 < a" and "n < 2 ^ 32"
  shows "free_chain t (of_nat a) [a..<n]"
  using assms
proof (induction "n - a" arbitrary: a)
  case (Suc d)
  have u: "unat (of_nat a :: u32) = a" using Suc.prems by (intro unat_of_nat_u32) simp
  then have nz: "(of_nat a :: u32) \<noteq> 0" using Suc.prems(3) by (metis unat_0 less_numeral_extra(3))
  show ?case
  proof (cases "a + 1 = n")
    case True
    then have "[a..<n] = [a]" by (simp add: upt_rec One_nat_def)
    then show ?thesis using Suc.prems True u nz by simp
  next
    case False
    have "free_chain t (of_nat (a + 1)) [a + 1..<n]"
      by (rule Suc.hyps(1)) (use Suc.hyps(2) Suc.prems False in auto)
    moreover have "[a..<n] = a # [a + 1..<n]" using Suc.prems(2) by (simp add: upt_conv_Cons One_nat_def)
    ultimately show ?thesis using Suc.prems False u nz by simp
  qed
qed simp

lemma new_memory_for_interfaces_inv:
  assumes "unat (kernel_last_interface k) + 1 < n" and "n < 2 ^ 32"
  shows "table_inv (new_memory_for_interfaces n k) [unat (kernel_last_interface k) + 1..<n]"
proof -
  let ?f = "unat (kernel_last_interface k) + 1"
  let ?k = "new_memory_for_interfaces n k"
  have "free_chain (interfaces ?k) (of_nat ?f) [?f..<n]"
  proof (rule free_chain_upt)
    fix i assume i: "?f \<le> i" "i < n"
    have e: "interfaces ?k i = set_free_next (if i + 1 = n then 0 else of_nat (i + 1))
        (set_free_marker free_marker (interfaces k i))"
      using i assms
      by (auto simp: new_memory_for_interfaces_def set_interface_def Let_def fold_init_free_entry
          set_free_next_def)
    show "free_marker_of (interfaces ?k i) = free_marker
        \<and> free_next (interfaces ?k i) = (if i + 1 = n then 0 else of_nat (i + 1))"
      unfolding e by (simp add: free_marker_of_set_marker)
  qed (use assms in simp_all)
  moreover have "kernel_last_interface ?k = of_nat n" "kernel_free_interface ?k = of_nat ?f"
    by (simp_all add: new_memory_for_interfaces_def set_interface_def Let_def)
  moreover have "unat (of_nat n :: u32) = n" using assms(2) by (rule unat_of_nat_u32)
  ultimately show ?thesis by (simp add: table_inv_def)
qed

text \<open>Freeing an entry on one core puts it in front of a non-empty free list.\<close>

lemma free_interface_inv:
  assumes "table_inv k is" and "is \<noteq> []" and "i \<notin> set is"
    and "0 < i" and "i < unat (kernel_last_interface k)"
  obtains k' where "free_interface [] i k = Inr k'" and "table_inv k' (i # is)"
proof -
  let ?e = "set_free_next (kernel_free_interface k) (set_free_marker free_marker (interfaces k i))"
  let ?k = "set_interface i ?e k"
  have inv: "table_inv ?k is" using assms by (intro table_inv_fill)
  have f: "kernel_free_interface k \<noteq> 0" using assms(1,2) by (cases "is") (auto simp: table_inv_def)
  have "i < 2 ^ 32" using assms(5) unat_lt_u32 [of "kernel_last_interface k"] by simp
  then have u: "unat (of_nat i :: u32) = i" by (rule unat_of_nat_u32)
  then have nz: "(of_nat i :: u32) \<noteq> 0" using assms(4) by (metis unat_0 less_numeral_extra(3))
  have "free_interface [] i k = Inr (?k\<lparr>kernel_free_interface := of_nat i\<rparr>)"
    using f by (simp add: free_interface_def set_interface_def Let_def index_from_interface_def)
  moreover have "table_inv (?k\<lparr>kernel_free_interface := of_nat i\<rparr>) (i # is)"
    using inv assms u nz by (simp add: table_inv_def set_interface_def free_marker_of_set_marker)
  ultimately show ?thesis by (rule that)
qed

end
