(* ===== verification/Locks.thy ===== *)
theory Locks
  imports Gate Maps
begin

text \<open>
  Blocking locks (\<^verbatim>\<open>include/svc_handling.h\<close>, lines 224-405).

  A lock is a word of user memory: 0 when free, otherwise the code of the owner in the low half and
  the code of the first blocked thread in the high half.  The blocked threads of a lock form a ring
  whose head is known only through the lock word; the variable \<^verbatim>\<open>blocked\<close> stands in as a list
  head while the ring is changed.  The exclusive store may fail when another agent has written the lock
  in between: the list \<^verbatim>\<open>others\<close> holds the values such agents leave, one for each failed store; it is
  empty on one core with interrupts masked.

  \<^verbatim>\<open>lock_rep\<close> abstracts a lock to its owner and the queue of waiting threads.  Waiting appends to
  that queue and releasing hands the lock to its first thread.
\<close>

section \<open>The handlers\<close>

text \<open>The lock is held by another thread: block the caller.\<close>

definition block_on_lock :: "u64 \<Rightarrow> u64 \<Rightarrow> u64 \<Rightarrow> kernel \<Rightarrow> kernel result" where
  "block_on_lock thread x17 lock_value k =
    (let blocked_thread_code = ucast (drop_bit 32 lock_value) :: u32;
         locking_thread_code = ucast (0xffffffff AND lock_value) :: u32
     in if \<not> is_real_thread k locking_thread_code then Inl (BSOD 291)
        else if blocked_thread_code \<noteq> 0 \<and> \<not> is_real_thread k blocked_thread_code then Inl (BSOD 295)
        else
          (let now = t_next (threads k thread);
               k = k\<lparr>runnable := now\<rparr>
           in if now = thread then Inl (BSOD 301)
              else rbind (remove_thread thread k) (\<lambda>k.
                if blocked_thread_code = 0 then
                  insert_thread_as_head Blocked_list thread (k\<lparr>blocked := 0\<rparr>)
                else
                  (let first_blocked_thread = thread_from_code blocked_thread_code;
                       k = k\<lparr>blocked := first_blocked_thread\<rparr>
                   in if first_blocked_thread \<noteq> 0 \<and> reg k first_blocked_thread 17 \<noteq> x17 then Inl (BSOD 328)
                      else insert_thread_at_tail Blocked_list thread k))))"

text \<open>The rounds of the loop; \<^verbatim>\<open>now\<close> is \<^verbatim>\<open>result.now\<close>.\<close>

fun wait_for_lock_loop ::
    "u64 list \<Rightarrow> u64 \<Rightarrow> u64 \<Rightarrow> u64 \<Rightarrow> u64 \<Rightarrow> kernel \<Rightarrow> (thread_switch \<times> kernel) result" where
  "wait_for_lock_loop others now thread x17 x18 k =
    rbind (read_user64 k x17) (\<lambda>lock_value.
      if lock_value = 0 then
        (case others of
           v # vs \<Rightarrow> rbind (write_user64 k x17 v) (wait_for_lock_loop vs now thread x17 x18)
         | [] \<Rightarrow> rbind (write_user64 k x17 x18) (\<lambda>k.
             if now \<noteq> thread then
               (if blocked k \<noteq> thread then Inl (BSOD 269)
                else rbind (remove_thread thread k) (\<lambda>k.
                     rbind (insert_thread_as_head Runnable_list thread k) (\<lambda>k. Inr (stay thread, k))))
             else Inr (\<lparr>sw_then = thread, sw_now = now\<rparr>, k)))
      else if lock_value = x18 then Inr (\<lparr>sw_then = thread, sw_now = now\<rparr>, k)
      else if now \<noteq> thread then Inl (BSOD 4)
      else
        (let now = t_next (threads k thread) in
         rbind (block_on_lock thread x17 lock_value k) (\<lambda>k.
           if ucast (drop_bit 32 lock_value) = (0 :: u32) then
             (case others of
                v # vs \<Rightarrow> rbind (write_user64 k x17 v) (wait_for_lock_loop vs now thread x17 x18)
              | [] \<Rightarrow> rbind (write_user64 k x17 (lock_value OR push_bit 32 x18)) (\<lambda>k.
                  Inr (\<lparr>sw_then = thread, sw_now = now\<rparr>, k)))
           else Inr (\<lparr>sw_then = thread, sw_now = now\<rparr>, k))))"

declare wait_for_lock_loop.simps [simp del]

definition handle_svc_wait_for_lock_under ::
    "u64 list \<Rightarrow> u64 \<Rightarrow> kernel \<Rightarrow> (thread_switch \<times> kernel) result" where
  "handle_svc_wait_for_lock_under others thread k =
    (let x17 = reg k thread 17; x18 = reg k thread 18 in
     rbind (address_is_user_writable thread x17 k) (\<lambda>(writable, k).
       if \<not> writable then Inl (BSOD 234)
       else if thread_from_code (ucast x18) \<noteq> thread then Inl (BSOD 237)
       else wait_for_lock_loop others thread thread x17 x18 k))"

definition handle_svc_wait_for_lock :: "u64 \<Rightarrow> kernel \<Rightarrow> (thread_switch \<times> kernel) result" where
  "handle_svc_wait_for_lock thread k = handle_svc_wait_for_lock_under [] thread k"

text \<open>Handing the lock on: the first blocked thread leaves the ring and becomes the head of the
  runnable threads; the result is the new lock word.\<close>

definition hand_over_lock :: "u32 \<Rightarrow> kernel \<Rightarrow> (u64 \<times> u64 \<times> kernel) result" where
  "hand_over_lock blocked_thread_code k =
    (if \<not> is_real_thread k blocked_thread_code then Inl (BSOD 378)
     else
       (let new_value = ucast blocked_thread_code;
            first_blocked_thread = thread_from_code blocked_thread_code
        in rbind
             (if first_blocked_thread = t_next (threads k first_blocked_thread) then Inr (new_value, k)
              else
                (let k = k\<lparr>blocked := t_next (threads k first_blocked_thread)\<rparr> in
                 rbind (remove_thread first_blocked_thread k) (\<lambda>k.
                   Inr (new_value OR push_bit 32 (ucast (thread_code (blocked k))), k))))
             (\<lambda>(new_value, k).
               rbind (insert_thread_as_head Runnable_list first_blocked_thread k) (\<lambda>k.
                 Inr (new_value, first_blocked_thread, k)))))"

definition handle_svc_release_lock :: "u64 \<Rightarrow> kernel \<Rightarrow> (thread_switch \<times> kernel) result" where
  "handle_svc_release_lock thread k =
    (let x17 = reg k thread 17; x18 = reg k thread 18 in
     rbind (address_is_user_writable thread x17 k) (\<lambda>(writable, k).
       if \<not> writable then Inl (BSOD 350)
       else if thread_from_code (ucast x18) \<noteq> thread then Inl (BSOD 353)
       else rbind (read_user64 k x17) (\<lambda>lock_value.
         if lock_value = 0 then Inl (BSOD 364)
         else
           (let blocked_thread_code = ucast (drop_bit 32 lock_value) :: u32;
                locking_thread_code = ucast (0xffffffff AND lock_value) :: u32
            in if ucast locking_thread_code \<noteq> x18 then Inl (BSOD 369)
               else rbind
                 (if blocked_thread_code \<noteq> 0 then hand_over_lock blocked_thread_code k
                  else Inr (ucast blocked_thread_code, thread, k))
                 (\<lambda>(new_value, now, k).
                   rbind (write_user64 k x17 new_value) (\<lambda>k.
                     Inr (\<lparr>sw_then = thread, sw_now = now\<rparr>, k)))))))"

section \<open>Locks as an owner and a queue\<close>

definition lock_word :: "u64 \<Rightarrow> u64 list \<Rightarrow> u64" where
  "lock_word owner qs =
     ucast (thread_code owner) OR push_bit 32 (ucast (if qs = [] then 0 else thread_code (hd qs)))"

text \<open>A thread context in the kernel heap, as \<^verbatim>\<open>is_real_thread\<close> wants it.\<close>

definition heap_thread :: "kernel \<Rightarrow> u64 \<Rightarrow> bool" where
  "heap_thread k t \<longleftrightarrow>
     kernel_pointer t \<and> could_be_in_heap k (thread_code t)
     \<and> could_be_in_heap k (ucast (ucast (thread_code t) + sizeof_thread_context - 1))"

definition lock_rep :: "kernel \<Rightarrow> u64 \<Rightarrow> u64 \<Rightarrow> u64 list \<Rightarrow> bool" where
  "lock_rep k va owner qs \<longleftrightarrow>
     (\<exists>pa e. translate k va = Some (pa, e) \<and> writable_by_el0 e \<and> phys_mem k pa = lock_word owner qs)
     \<and> (qs \<noteq> [] \<longrightarrow> ring (threads k) qs)
     \<and> (\<forall>q\<in>set qs. heap_thread k q \<and> reg k q 17 = va \<and> t_list (threads k q) = Blocked_list)"

definition lock_free :: "kernel \<Rightarrow> u64 \<Rightarrow> bool" where
  "lock_free k va \<longleftrightarrow> (\<exists>pa e. translate k va = Some (pa, e) \<and> writable_by_el0 e \<and> phys_mem k pa = 0)"

lemma lock_word_halves:
  "ucast (drop_bit 32 (lock_word owner qs)) = (if qs = [] then 0 else thread_code (hd qs))"
  "ucast (0xffffffff AND lock_word owner qs) = thread_code owner"
proof -
  have m: "(0xffffffff :: u64) = mask 32" by (simp add: mask_eq_exp_minus_1)
  show "ucast (drop_bit 32 (lock_word owner qs)) = (if qs = [] then 0 else thread_code (hd qs))"
    by (rule bit_eqI) (auto simp: lock_word_def bit_simps dest: bit_imp_le_length)
  show "ucast (0xffffffff AND lock_word owner qs) = thread_code owner"
    unfolding m by (rule bit_eqI) (auto simp: lock_word_def bit_simps dest: bit_imp_le_length)
qed

lemma lock_word_nonzero:
  assumes "kernel_pointer owner"
  shows "lock_word owner qs \<noteq> 0"
proof
  assume "lock_word owner qs = 0"
  then have "thread_code owner = 0" using lock_word_halves(2) [of owner qs] by simp
  then show False using thread_code_nonzero [OF assms] by simp
qed

lemma lock_word_first_waiter:
  "lock_word owner [] OR push_bit 32 (ucast (thread_code t)) = lock_word owner [t]"
  by (simp add: lock_word_def)

lemma writable_immediately:
  assumes "translate k va = Some (pa, e)" and "writable_by_el0 e"
  shows "address_is_user_writable t va k = Inr (True, k)"
proof -
  have "\<not> bit (at_s1e0w k va) 0" using assms at_s1e0w_ok_iff by blast
  then have "at_s1e0w k va AND 1 = 0" by (simp add: and_one_eq mod_2_eq_odd bit_0)
  then show ?thesis by (simp add: address_is_user_writable_def)
qed

lemma write_user_ok:
  assumes "translate k va = Some (pa, e)" and "writable_by_el0 e"
  shows "write_user64 k va v = Inr (k\<lparr>phys_mem := (phys_mem k)(pa := v)\<rparr>)"
  using assms by (simp add: write_user64_def writable_by_el0_imp_el1)

lemma heap_thread_cong:
  assumes "kernel_heap_top k' = kernel_heap_top k" and "kernel_heap_bottom k' = kernel_heap_bottom k"
  shows "heap_thread k' t \<longleftrightarrow> heap_thread k t"
  using assms by (simp add: heap_thread_def could_be_in_heap_def)

lemma heap_thread_real:
  assumes "heap_thread k t" and "ring (threads k) xs" and "t \<in> set xs"
  shows "is_real_thread k (thread_code t)"
  using assms ring_real_thread by (simp add: heap_thread_def)

lemma heap_thread_facts:
  assumes "heap_thread k t"
  shows "thread_code t \<noteq> 0" "thread_from_code (thread_code t) = t" "t \<noteq> 0"
  using assms thread_code_nonzero thread_from_code_of_thread_code
  by (auto simp: heap_thread_def kernel_pointer_def)

text \<open>What a lock operation leaves alone: everything of every thread but its links, the tables, the heap
  and all of physical memory but the lock.  Only one thread changes its list.\<close>

definition lock_frame :: "u64 \<Rightarrow> u64 \<Rightarrow> kernel \<Rightarrow> kernel \<Rightarrow> bool" where
  "lock_frame va t k k' \<longleftrightarrow>
     (\<forall>u. payload (threads k' u) = payload (threads k u)) \<and>
     (\<forall>u. u \<noteq> t \<longrightarrow> t_list (threads k' u) = t_list (threads k u)) \<and>
     translate k' = translate k \<and> kernel_heap_top k' = kernel_heap_top k \<and>
     kernel_heap_bottom k' = kernel_heap_bottom k \<and>
     (\<forall>pa e. translate k va = Some (pa, e) \<longrightarrow> (\<forall>p. p \<noteq> pa \<longrightarrow> phys_mem k' p = phys_mem k p))"

section \<open>Waiting appends to the queue\<close>

lemma insert_head_empty:
  assumes "blocked k = 0"
  shows "insert_thread_as_head Blocked_list t k =
    Inr ((set_list t Blocked_list (set_prev t t (set_next t t k)))\<lparr>blocked := t\<rparr>)"
  using assms
  by (simp add: insert_thread_as_head_def insert_thread_at_tail_def deref_list_def assign_list_def Let_def)

lemma insert_tail_nonempty:
  assumes "blocked k \<noteq> 0"
  shows "insert_thread_at_tail Blocked_list t k = Inr (insert_new_thread_before_old t (blocked k) k)"
  using assms by (simp add: insert_thread_at_tail_def deref_list_def)

lemma link_setter_frame [simp]:
  "phys_mem (set_next t v k) = phys_mem k" "phys_mem (set_prev t v k) = phys_mem k"
  "phys_mem (set_list t l k) = phys_mem k"
  "translate (set_next t v k) = translate k" "translate (set_prev t v k) = translate k"
  "translate (set_list t l k) = translate k"
  "runnable (set_next t v k) = runnable k" "runnable (set_prev t v k) = runnable k"
  "runnable (set_list t l k) = runnable k"
  "kernel_heap_top (set_next t v k) = kernel_heap_top k" "kernel_heap_top (set_prev t v k) = kernel_heap_top k"
  "kernel_heap_top (set_list t l k) = kernel_heap_top k"
  "kernel_heap_bottom (set_next t v k) = kernel_heap_bottom k"
  "kernel_heap_bottom (set_prev t v k) = kernel_heap_bottom k"
  "kernel_heap_bottom (set_list t l k) = kernel_heap_bottom k"
  by (simp_all add: link_setters fun_eq_iff)

lemma heap_bounds_frame [simp]:
  "kernel_heap_top (unlink_thread e k) = kernel_heap_top k"
  "kernel_heap_bottom (unlink_thread e k) = kernel_heap_bottom k"
  "kernel_heap_top (insert_new_thread_before_old a b k) = kernel_heap_top k"
  "kernel_heap_bottom (insert_new_thread_before_old a b k) = kernel_heap_bottom k"
  by (subst unlink_frame insert_before_frame, simp)+

text \<open>The caller leaves the runnable threads.\<close>

definition unscheduled :: "u64 \<Rightarrow> kernel \<Rightarrow> kernel" where
  "unscheduled th k = unlink_thread th (k\<lparr>runnable := t_next (threads k th)\<rparr>)"

lemma unscheduled_facts:
  assumes "ring (threads k) (th # x # rest)"
  shows "ring (threads (unscheduled th k)) (x # rest)" and "runnable (unscheduled th k) = x"
    and "\<And>ys. ring (threads k) ys \<Longrightarrow> set ys \<inter> set (th # x # rest) = {} \<Longrightarrow> ring (threads (unscheduled th k)) ys"
    and "\<And>u. payload (threads (unscheduled th k) u) = payload (threads k u)"
    and "\<And>u. t_list (threads (unscheduled th k) u) = t_list (threads k u)"
    and "phys_mem (unscheduled th k) = phys_mem k" and "translate (unscheduled th k) = translate k"
    and "kernel_heap_top (unscheduled th k) = kernel_heap_top k"
    and "kernel_heap_bottom (unscheduled th k) = kernel_heap_bottom k"
proof -
  let ?k = "k\<lparr>runnable := t_next (threads k th)\<rparr>"
  show "ring (threads (unscheduled th k)) (x # rest)"
    unfolding unscheduled_def by (rule ring_unlink_head) (use assms in simp)
  show "ring (threads (unscheduled th k)) ys" if "ring (threads k) ys" "set ys \<inter> set (th # x # rest) = {}" for ys
    unfolding unscheduled_def
    by (rule ring_other_unlink) (use that ring_member_links(1,2) [OF assms, of th] in auto)
  show "translate (unscheduled th k) = translate k" by (simp add: unscheduled_def fun_eq_iff)
qed (use assms in \<open>simp_all add: unscheduled_def\<close>)

text \<open>The state after blocking, with and without threads already waiting.\<close>

lemma block_on_lock_result:
  assumes run: "ring (threads k) (th # x # rest)" and own: "owner_ok k th"
    and ow: "is_real_thread k (thread_code owner)"
    and qs: "qs \<noteq> [] \<Longrightarrow> ring (threads k) qs"
    and q: "\<And>q. q \<in> set qs \<Longrightarrow> heap_thread k q \<and> reg k q 17 = va"
  shows "block_on_lock th va (lock_word owner qs) k =
    Inr (if qs = [] then
           (set_list th Blocked_list (set_prev th th (set_next th th ((unscheduled th k)\<lparr>blocked := 0\<rparr>))))\<lparr>blocked := th\<rparr>
         else insert_new_thread_before_old th (hd qs) ((unscheduled th k)\<lparr>blocked := hd qs\<rparr>))"
proof -
  have n: "t_next (threads k th) = x" "x \<noteq> th" using run by auto
  have rm: "remove_thread th (k\<lparr>runnable := x\<rparr>) = Inr (unscheduled th k)"
    using remove_thread_moved_on [OF own n(2)] n by (simp add: unscheduled_def)
  show ?thesis
  proof (cases "qs = []")
    case True
    then show ?thesis
      using ow n rm by (simp add: block_on_lock_def lock_word_halves Let_def insert_head_empty)
  next
    case False
    then have h: "heap_thread k (hd qs)" "reg k (hd qs) 17 = va" using q by auto
    have real: "is_real_thread k (thread_code (hd qs))" by (rule heap_thread_real [OF h(1) qs]) (use False in auto)
    have "reg (unscheduled th k) (hd qs) 17 = va"
      using h(2) payload_fields(1) [OF unscheduled_facts(4) [OF run]] by simp
    then show ?thesis
      using False ow n rm real heap_thread_facts [OF h(1)]
      by (simp add: block_on_lock_def lock_word_halves Let_def insert_tail_nonempty)
  qed
qed

lemma wait_for_held_lock:
  assumes run: "ring (threads k) (th # x # rest)" and own: "owner_ok k th"
    and rep: "lock_rep k va owner qs" and r17: "reg k th 17 = va" and r18: "reg k th 18 = ucast (thread_code th)"
    and ht: "heap_thread k th" and ho: "heap_thread k owner" "is_real_thread k (thread_code owner)" "owner \<noteq> th"
    and dis: "set qs \<inter> set (th # x # rest) = {}"
  obtains k' where "handle_svc_wait_for_lock th k = Inr (\<lparr>sw_then = th, sw_now = x\<rparr>, k')"
    and "lock_rep k' va owner (qs @ [th])" and "runnable k' = x" and "ring (threads k') (x # rest)"
    and "lock_frame va th k k'"
proof -
  obtain pa e where t: "translate k va = Some (pa, e)" "writable_by_el0 e" "phys_mem k pa = lock_word owner qs"
    using rep by (auto simp: lock_rep_def)
  have qring: "qs \<noteq> [] \<Longrightarrow> ring (threads k) qs"
    and q: "\<And>q. q \<in> set qs \<Longrightarrow> heap_thread k q \<and> reg k q 17 = va"
    and ql: "\<And>q. q \<in> set qs \<Longrightarrow> t_list (threads k q) = Blocked_list"
    using rep by (auto simp: lock_rep_def)
  have n: "t_next (threads k th) = x" using run by simp
  have lv: "lock_word owner qs \<noteq> 0" using lock_word_nonzero ho(1) by (simp add: heap_thread_def)
  have "thread_code owner \<noteq> thread_code th" using ho(3) heap_thread_facts(2) [OF ht] heap_thread_facts(2) [OF ho(1)] by metis
  then have lx: "lock_word owner qs \<noteq> ucast (thread_code th)"
    using lock_word_halves(2) [of owner qs] lock_word_halves(2) [of th "[]"] by (auto simp: lock_word_def)
  note bl = block_on_lock_result [OF run own ho(2) qring q]
  note u = unscheduled_facts [OF run]
  note pf = payload_fields [OF u(4)]
  let ?u = "unscheduled th k"
  have start: "handle_svc_wait_for_lock th k =
      wait_for_lock_loop [] th th va (ucast (thread_code th)) k"
    using writable_immediately [OF t(1,2)] r17 r18 heap_thread_facts(2) [OF ht]
    by (simp add: handle_svc_wait_for_lock_def handle_svc_wait_for_lock_under_def)
  show ?thesis
  proof (cases "qs = []")
    case True
    define k2 where "k2 = (set_list th Blocked_list (set_prev th th (set_next th th (?u\<lparr>blocked := 0\<rparr>))))\<lparr>blocked := th\<rparr>"
    have b: "block_on_lock th va (lock_word owner qs) k = Inr k2" using bl True by (simp add: k2_def)
    have tr: "translate k2 va = Some (pa, e)" using t(1) by (simp add: k2_def u(7))
    define k' where "k' = k2\<lparr>phys_mem := (phys_mem k2)(pa := lock_word owner [th])\<rparr>"
    have e': "handle_svc_wait_for_lock th k = Inr (\<lparr>sw_then = th, sw_now = x\<rparr>, k')"
      unfolding start
      using t True lv lx b n write_user_ok [OF tr t(2)] lock_word_first_waiter [of owner th]
        lock_word_halves(1) [of owner "[]"]
      by (simp add: wait_for_lock_loop.simps read_user64_def k'_def)
    have th: "threads k' = (threads ?u)(th := (threads ?u th)\<lparr>t_next := th, t_prev := th, t_list := Blocked_list\<rparr>)"
      by (simp add: k'_def k2_def link_setters)
    have "heap_thread k' th \<longleftrightarrow> heap_thread k th"
      by (rule heap_thread_cong) (simp_all add: k'_def k2_def u(8,9))
    then have hp: "heap_thread k' th" using ht by simp
    have "lock_rep k' va owner [th]"
      using t(2) hp r17 pf(1) [of th] tr heap_thread_facts(3) [OF ht]
      by (auto simp: lock_rep_def th) (simp add: k'_def)
    moreover have "ring (threads k') (x # rest)"
      using u(1) run by (subst ring_cong [of _ _ "threads ?u"]) (auto simp: th)
    moreover have "runnable k' = x" by (simp add: k'_def k2_def u(2))
    moreover have "payload (threads k' v) = payload (threads k v)"
        "v \<noteq> th \<Longrightarrow> t_list (threads k' v) = t_list (threads k v)" for v
      using u(4) [of v] u(5) [of v] by (auto simp: th)
    then have "lock_frame va th k k'"
      using t(1) by (auto simp: lock_frame_def k'_def k2_def u fun_eq_iff)
    ultimately show ?thesis using that e' True by simp
  next
    case False
    let ?q = "hd qs" and ?w = "?u\<lparr>blocked := hd qs\<rparr>"
    let ?k = "insert_new_thread_before_old th ?q ?w"
    have b: "block_on_lock th va (lock_word owner qs) k = Inr ?k" using bl False by simp
    have e': "handle_svc_wait_for_lock th k = Inr (\<lparr>sw_then = th, sw_now = x\<rparr>, ?k)"
      unfolding start
      using t False lv lx b n lock_word_halves(1) [of owner qs] heap_thread_facts(1) [of k ?q] q [of ?q]
      by (simp add: wait_for_lock_loop.simps read_user64_def)
    have qr: "ring (threads ?w) qs" using u(3) [OF qring [OF False] dis] by simp
    have thq: "th \<notin> set qs" "th \<noteq> ?q" "?q \<in> set qs" using dis False by auto
    have "ring (threads ?w) (?q # tl qs)" using qr by (simp only: hd_Cons_tl [OF False])
    then have "ring (threads ?k) (?q # tl qs @ [th])"
      by (rule ring_insert_before_head)
        (use thq hd_Cons_tl [OF False] heap_thread_facts(3) [OF ht] in \<open>metis | simp\<close>)+
    then have r1: "ring (threads ?k) (qs @ [th])" by (metis append_Cons hd_Cons_tl [OF False])
    have r2: "ring (threads ?k) (x # rest)"
      by (rule ring_other_insert_before)
        (use u(1) run dis thq ring_member_links(2) [OF qr thq(3)] in auto)
    have "heap_thread ?k v \<longleftrightarrow> heap_thread k v" for v by (rule heap_thread_cong) (simp_all add: u(8,9))
    then have "lock_rep ?k va owner (qs @ [th])"
      using r1 t q ql ht r17 False thq by (auto simp: lock_rep_def u(5,6,7) pf(1) lock_word_def)
    moreover have "lock_frame va th k ?k" using thq by (auto simp: lock_frame_def u)
    ultimately show ?thesis using that [OF e'] r2 u(2) by simp
  qed
qed

section \<open>Releasing hands the lock to the first waiting thread\<close>

lemma release_start:
  assumes t: "translate k va = Some (pa, e)" "writable_by_el0 e" "phys_mem k pa = lock_word th qs"
    and r: "reg k th 17 = va" "reg k th 18 = ucast (thread_code th)" and ht: "heap_thread k th"
  shows "handle_svc_release_lock th k =
    rbind (if qs \<noteq> [] \<and> thread_code (hd qs) \<noteq> 0 then hand_over_lock (thread_code (hd qs)) k else Inr (0, th, k))
      (\<lambda>(new_value, now, k). rbind (write_user64 k va new_value) (\<lambda>k. Inr (\<lparr>sw_then = th, sw_now = now\<rparr>, k)))"
  using writable_immediately [OF t(1,2)] t r heap_thread_facts(2) [OF ht] lock_word_halves [of th qs]
    lock_word_nonzero [of th qs] ht
  by (simp add: handle_svc_release_lock_def Let_def read_user64_def heap_thread_def)

lemma release_uncontended:
  assumes rep: "lock_rep k va th []" and r: "reg k th 17 = va" "reg k th 18 = ucast (thread_code th)"
    and ht: "heap_thread k th"
  obtains k' where "handle_svc_release_lock th k = Inr (stay th, k')" and "lock_free k' va"
    and "threads k' = threads k" and "runnable k' = runnable k"
proof -
  obtain pa e where t: "translate k va = Some (pa, e)" "writable_by_el0 e" "phys_mem k pa = lock_word th []"
    using rep by (auto simp: lock_rep_def)
  show ?thesis
    using that [of "k\<lparr>phys_mem := (phys_mem k)(pa := 0)\<rparr>"] release_start [OF t r ht] write_user_ok [OF t(1,2)] t(1,2)
    by (simp add: lock_free_def)
qed

text \<open>The states of the hand-over: the thread alone, then at the head of the runnable threads.\<close>

lemma hand_over_result:
  assumes run: "ring (threads k) (th # rest)" "runnable k = th"
    and q: "ring (threads k) (q # qs)" "heap_thread k q" "t_list (threads k q) = Blocked_list"
    and dis: "set (q # qs) \<inter> set (th # rest) = {}"
  obtains k' where "hand_over_lock (thread_code q) k = Inr (lock_word q qs, q, k')"
    and "ring (threads k') (q # th # rest)" and "runnable k' = q" and "qs \<noteq> [] \<Longrightarrow> ring (threads k') qs"
    and "lock_frame va q k k'" and "t_list (threads k' q) = t_list (threads k th)"
    and "phys_mem k' = phys_mem k"
proof -
  have real: "is_real_thread k (thread_code q)" by (rule heap_thread_real [OF q(2,1)]) simp
  note hq = heap_thread_facts [OF q(2)]
  have th: "th \<noteq> 0" "th \<noteq> q" using run dis by auto
  define k1 where "k1 = (if qs = [] then k else unlink_thread q (k\<lparr>blocked := hd qs\<rparr>))"
  have mid: "hand_over_lock (thread_code q) k =
      rbind (insert_thread_as_head Runnable_list q k1) (\<lambda>k. Inr (lock_word q qs, q, k))"
  proof (cases qs)
    case Nil
    then show ?thesis using q(1) real hq by (simp add: hand_over_lock_def Let_def k1_def lock_word_def)
  next
    case (Cons a as)
    then have "t_next (threads k q) = a" "a \<noteq> q" using q(1) by auto
    then show ?thesis
      using Cons real hq q(3)
      by (simp add: hand_over_lock_def Let_def k1_def lock_word_def remove_thread_def deref_list_def)
  qed
  have run1: "ring (threads k1) (th # rest)"
  proof (cases "qs = []")
    case True then show ?thesis using run by (simp add: k1_def)
  next
    case False
    have "ring (threads (unlink_thread q (k\<lparr>blocked := hd qs\<rparr>))) (th # rest)"
      by (rule ring_other_unlink) (use run dis ring_member_links(1,2) [OF q(1), of q] in auto)
    then show ?thesis using False by (simp add: k1_def)
  qed
  have k1: "runnable k1 = th" "phys_mem k1 = phys_mem k" "translate k1 = translate k"
      "kernel_heap_top k1 = kernel_heap_top k" "kernel_heap_bottom k1 = kernel_heap_bottom k"
      "payload (threads k1 v) = payload (threads k v)" "t_list (threads k1 v) = t_list (threads k v)" for v
    using run(2) by (simp_all add: k1_def fun_eq_iff)
  have rq: "ring (threads k1) qs" if ne: "qs \<noteq> []"
  proof -
    obtain a as where a: "qs = a # as" using ne by (cases qs) auto
    have "ring (threads (unlink_thread q (k\<lparr>blocked := hd qs\<rparr>))) (a # as)"
      by (rule ring_unlink_head) (use q(1) a in simp)
    then show ?thesis using a by (simp add: k1_def)
  qed
  let ?k = "insert_new_thread_before_old q th k1"
  have ins: "insert_thread_as_head Runnable_list q k1 = Inr (?k\<lparr>runnable := q\<rparr>)"
    using th k1(1) by (simp add: insert_thread_as_head_def insert_thread_at_tail_def deref_list_def assign_list_def)
  have nq: "q \<notin> set (th # rest)" using dis by auto
  have "ring (threads ?k) (th # rest @ [q])" by (rule ring_insert_before_head [OF run1 nq hq(3)])
  then have r1: "ring (threads ?k) (q # th # rest)"
    using ring_rotate [of "threads ?k" "th # rest" "[q]"] by simp
  have r2: "ring (threads ?k) qs" if ne: "qs \<noteq> []"
    by (rule ring_other_insert_before [OF rq [OF ne]])
      (use dis q(1) th ring_member_links(2) [OF run1, of th] in auto)
  show ?thesis
    by (rule that [of "?k\<lparr>runnable := q\<rparr>"])
      (use mid ins r1 r2 k1 th in \<open>simp_all add: lock_frame_def fun_eq_iff\<close>)
qed

lemma release_contended:
  assumes rep: "lock_rep k va th (q # qs)" and r: "reg k th 17 = va" "reg k th 18 = ucast (thread_code th)"
    and ht: "heap_thread k th" and run: "ring (threads k) (th # rest)" "runnable k = th"
    and dis: "set (q # qs) \<inter> set (th # rest) = {}"
  obtains k' where "handle_svc_release_lock th k = Inr (\<lparr>sw_then = th, sw_now = q\<rparr>, k')"
    and "lock_rep k' va q qs" and "ring (threads k') (q # th # rest)" and "runnable k' = q"
    and "lock_frame va q k k'" and "t_list (threads k' q) = t_list (threads k th)"
proof -
  obtain pa e where t: "translate k va = Some (pa, e)" "writable_by_el0 e" "phys_mem k pa = lock_word th (q # qs)"
    using rep by (auto simp: lock_rep_def)
  have q: "ring (threads k) (q # qs)" "heap_thread k q" "t_list (threads k q) = Blocked_list"
    and qm: "\<And>v. v \<in> set qs \<Longrightarrow> heap_thread k v \<and> reg k v 17 = va \<and> t_list (threads k v) = Blocked_list"
    using rep unfolding lock_rep_def by auto
  obtain k1 where k1: "hand_over_lock (thread_code q) k = Inr (lock_word q qs, q, k1)"
    "ring (threads k1) (q # th # rest)" "runnable k1 = q" and rq: "qs \<noteq> [] \<Longrightarrow> ring (threads k1) qs"
    and fr: "lock_frame va q k k1" and tl: "t_list (threads k1 q) = t_list (threads k th)"
    and pm: "phys_mem k1 = phys_mem k"
    by (rule hand_over_result [OF run q dis, of va], rule that)
  let ?k = "k1\<lparr>phys_mem := (phys_mem k1)(pa := lock_word q qs)\<rparr>"
  have tr: "translate k1 va = Some (pa, e)" using fr t(1) by (simp add: lock_frame_def)
  have "handle_svc_release_lock th k = Inr (\<lparr>sw_then = th, sw_now = q\<rparr>, ?k)"
    using release_start [OF t r ht] k1(1) write_user_ok [OF tr t(2)] heap_thread_facts(1) [OF q(2)] by simp
  moreover have hc: "heap_thread ?k v \<longleftrightarrow> heap_thread k v" for v
    by (rule heap_thread_cong) (use fr in \<open>simp_all add: lock_frame_def\<close>)
  have "reg k1 v 17 = va \<and> t_list (threads k1 v) = Blocked_list" if v: "v \<in> set qs" for v
  proof -
    have "v \<noteq> q" using v q(1) by auto
    then show ?thesis
      using qm [OF v] fr payload_fields(1) [of "threads k1 v" "threads k v"] by (simp add: lock_frame_def)
  qed
  then have "lock_rep ?k va q qs"
    using tr t(2) rq qm hc by (auto simp: lock_rep_def)
  moreover have "lock_frame va q k ?k" using fr t(1) by (auto simp: lock_frame_def fun_eq_iff)
  ultimately show ?thesis using that k1 tl by simp
qed

section \<open>The interface of a fair lock\<close>

text \<open>\<^verbatim>\<open>rep s run owner qs\<close>: the lock belongs to \<^verbatim>\<open>owner\<close>, \<^verbatim>\<open>qs\<close> wait for it and \<^verbatim>\<open>run\<close> are
  runnable.  Clients get the lock in the order in which they asked for it.\<close>

locale fair_lock =
  fixes rep :: "'s \<Rightarrow> 't list \<Rightarrow> 't \<Rightarrow> 't list \<Rightarrow> bool"
    and wait release :: "'t \<Rightarrow> 's \<Rightarrow> 's result"
  assumes wait_rep: "rep s (t # x # rest) owner qs \<Longrightarrow> t \<noteq> owner \<Longrightarrow>
      \<exists>s'. wait t s = Inr s' \<and> rep s' (x # rest) owner (qs @ [t])"
    and release_rep: "rep s (owner # rest) owner (q # qs) \<Longrightarrow>
      \<exists>s'. release owner s = Inr s' \<and> rep s' (q # owner # rest) q qs"
begin

fun wait_all :: "'t list \<Rightarrow> 's \<Rightarrow> 's result" where
  "wait_all [] s = Inr s"
| "wait_all (t # ts) s = rbind (wait t s) (wait_all ts)"

lemma wait_all_rep:
  assumes "rep s (ts @ x # rest) owner qs" and "owner \<notin> set ts"
  shows "\<exists>s'. wait_all ts s = Inr s' \<and> rep s' (x # rest) owner (qs @ ts)"
  using assms
proof (induction ts arbitrary: s qs)
  case (Cons t ts)
  obtain y ys where y: "ts @ x # rest = y # ys" by (cases "ts @ x # rest") auto
  obtain s1 where "wait t s = Inr s1" "rep s1 (ts @ x # rest) owner (qs @ [t])"
    using wait_rep [of s t y ys owner qs] Cons.prems y by auto
  then show ?case using Cons.IH [of s1 "qs @ [t]"] Cons.prems by auto
qed auto

text \<open>Each new owner releases in turn.\<close>

fun release_all :: "'t \<Rightarrow> 't list \<Rightarrow> 's \<Rightarrow> 's result" where
  "release_all owner [] s = Inr s"
| "release_all owner (q # qs) s = rbind (release owner s) (release_all q qs)"

lemma release_all_rep:
  assumes "rep s (owner # rest) owner qs"
  shows "\<exists>s'. release_all owner qs s = Inr s' \<and> rep s' (rev qs @ owner # rest) (last (owner # qs)) []"
  using assms
proof (induction qs arbitrary: s owner rest)
  case (Cons q qs)
  obtain s1 where "release owner s = Inr s1" "rep s1 (q # owner # rest) q qs"
    using release_rep [OF Cons.prems] by blast
  then show ?case using Cons.IH [of s1 q "owner # rest"] by auto
qed simp

end

text \<open>The kernel's locks.  Runnable threads have the lock address and their own code in the registers the
  client code leaves there; an owner list of 0 makes the kernel read user address 0, which is another
  word than the lock.\<close>

definition null_owner_ok :: "kernel \<Rightarrow> u64 \<Rightarrow> bool" where
  "null_owner_ok k va \<longleftrightarrow>
     (\<exists>p0 e0 pa e. translate k 0 = Some (p0, e0) \<and> translate k va = Some (pa, e) \<and> p0 \<noteq> pa
        \<and> \<not> kernel_pointer (phys_mem k p0))"

definition lock_client :: "kernel \<Rightarrow> u64 \<Rightarrow> u64 \<Rightarrow> bool" where
  "lock_client k va t \<longleftrightarrow>
     heap_thread k t \<and> reg k t 17 = va \<and> reg k t 18 = ucast (thread_code t)
     \<and> t_list (threads k t) \<noteq> Blocked_list"

definition lock_state :: "u64 \<Rightarrow> kernel \<Rightarrow> u64 list \<Rightarrow> u64 \<Rightarrow> u64 list \<Rightarrow> bool" where
  "lock_state va k run owner qs \<longleftrightarrow>
     lock_rep k va owner qs \<and> ring (threads k) run \<and> runnable k = hd run \<and> set qs \<inter> set run = {}
     \<and> owner \<in> set run \<and> null_owner_ok k va \<and> (\<forall>t\<in>set run. lock_client k va t)
     \<and> (\<forall>q\<in>set qs. reg k q 18 = ucast (thread_code q))"

definition kernel_wait :: "u64 \<Rightarrow> kernel \<Rightarrow> kernel result" where
  "kernel_wait t k = rbind (handle_svc_wait_for_lock t k) (\<lambda>(_, k). Inr k)"

definition kernel_release :: "u64 \<Rightarrow> kernel \<Rightarrow> kernel result" where
  "kernel_release t k = rbind (handle_svc_release_lock t k) (\<lambda>(_, k). Inr k)"

lemma lock_client_owner_ok:
  assumes "lock_client k va t" and "null_owner_ok k va"
  shows "owner_ok k t"
  using assms
  by (cases "t_list (threads k t)")
    (auto simp: lock_client_def null_owner_ok_def owner_ok_def read_user64_def heap_thread_def)

lemma lock_frame_keeps:
  assumes "lock_frame va t k k'"
  shows "null_owner_ok k va \<Longrightarrow> null_owner_ok k' va"
    and "reg k' u i = reg k u i" and "heap_thread k' u \<longleftrightarrow> heap_thread k u"
    and "u \<noteq> t \<Longrightarrow> lock_client k' va u \<longleftrightarrow> lock_client k va u"
proof -
  show "reg k' u i = reg k u i" for u i
    using assms payload_fields(1) [of "threads k' u" "threads k u"] by (simp add: lock_frame_def)
  moreover show "heap_thread k' u \<longleftrightarrow> heap_thread k u" for u
    by (rule heap_thread_cong) (use assms in \<open>simp_all add: lock_frame_def\<close>)
  moreover have "u \<noteq> t \<Longrightarrow> t_list (threads k' u) = t_list (threads k u)" using assms by (simp add: lock_frame_def)
  ultimately show "u \<noteq> t \<Longrightarrow> lock_client k' va u \<longleftrightarrow> lock_client k va u" by (simp add: lock_client_def)
  show "null_owner_ok k' va" if n: "null_owner_ok k va"
  proof -
    obtain p0 e0 pa e where *: "translate k 0 = Some (p0, e0)" "translate k va = Some (pa, e)" "p0 \<noteq> pa"
        "\<not> kernel_pointer (phys_mem k p0)"
      using n by (auto simp: null_owner_ok_def)
    moreover have "phys_mem k' p0 = phys_mem k p0" "translate k' = translate k"
      using assms * by (auto simp: lock_frame_def)
    ultimately show ?thesis by (auto simp: null_owner_ok_def)
  qed
qed

lemma lock_state_wait:
  assumes s: "lock_state va k (t # x # rest) owner qs" and ne: "t \<noteq> owner"
  shows "\<exists>k'. kernel_wait t k = Inr k' \<and> lock_state va k' (x # rest) owner (qs @ [t])"
proof -
  have run: "ring (threads k) (t # x # rest)" and rep: "lock_rep k va owner qs"
    and dis: "set qs \<inter> set (t # x # rest) = {}" and n0: "null_owner_ok k va"
    and cl: "\<And>u. u \<in> set (t # x # rest) \<Longrightarrow> lock_client k va u" and ow: "owner \<in> set (t # x # rest)"
    and q18: "\<And>q. q \<in> set qs \<Longrightarrow> reg k q 18 = ucast (thread_code q)"
    using s by (auto simp: lock_state_def)
  have t: "lock_client k va t" using cl by simp
  then have c: "reg k t 17 = va" "reg k t 18 = ucast (thread_code t)" "heap_thread k t"
    by (simp_all add: lock_client_def)
  have ho: "heap_thread k owner" using cl [OF ow] by (simp add: lock_client_def)
  have real: "is_real_thread k (thread_code owner)" by (rule heap_thread_real [OF ho run ow])
  obtain k' where k': "handle_svc_wait_for_lock t k = Inr (\<lparr>sw_then = t, sw_now = x\<rparr>, k')"
    "lock_rep k' va owner (qs @ [t])" "runnable k' = x" "ring (threads k') (x # rest)" "lock_frame va t k k'"
    by (rule wait_for_held_lock [OF run lock_client_owner_ok [OF t n0] rep c ho real ne [symmetric] dis])
  note f = lock_frame_keeps [OF k'(5)]
  have "lock_client k' va u" if u: "u \<in> set (x # rest)" for u
  proof -
    have "u \<noteq> t" using u run by auto
    then show ?thesis using f(4) cl [of u] u by simp
  qed
  moreover have "t \<notin> set (x # rest)" using run by auto
  ultimately have "lock_state va k' (x # rest) owner (qs @ [t])"
    using k' dis ow ne f(1) [OF n0] f(2) q18 c by (auto simp: lock_state_def)
  then show ?thesis using k'(1) by (auto simp: kernel_wait_def)
qed

lemma lock_state_release:
  assumes s: "lock_state va k (owner # rest) owner (q # qs)"
  shows "\<exists>k'. kernel_release owner k = Inr k' \<and> lock_state va k' (q # owner # rest) q qs"
proof -
  have run: "ring (threads k) (owner # rest)" "runnable k = owner" and rep: "lock_rep k va owner (q # qs)"
    and dis: "set (q # qs) \<inter> set (owner # rest) = {}" and n0: "null_owner_ok k va"
    and cl: "\<And>u. u \<in> set (owner # rest) \<Longrightarrow> lock_client k va u"
    and q18: "\<And>v. v \<in> set (q # qs) \<Longrightarrow> reg k v 18 = ucast (thread_code v)"
    using s by (auto simp: lock_state_def)
  have c: "reg k owner 17 = va" "reg k owner 18 = ucast (thread_code owner)" "heap_thread k owner"
      "t_list (threads k owner) \<noteq> Blocked_list"
    using cl [of owner] by (simp_all add: lock_client_def)
  obtain k' where k': "handle_svc_release_lock owner k = Inr (\<lparr>sw_then = owner, sw_now = q\<rparr>, k')"
    "lock_rep k' va q qs" "ring (threads k') (q # owner # rest)" "runnable k' = q"
    "lock_frame va q k k'" "t_list (threads k' q) = t_list (threads k owner)"
    by (rule release_contended [OF rep c(1-3) run dis])
  note f = lock_frame_keeps [OF k'(5)]
  have hq: "heap_thread k q" "reg k q 17 = va" using rep by (auto simp: lock_rep_def)
  have "lock_client k' va q" using hq q18 c(4) k'(6) f(2,3) by (simp add: lock_client_def)
  moreover have "lock_client k' va u" if u: "u \<in> set (owner # rest)" for u
  proof -
    have "u \<noteq> q" using u dis by auto
    then show ?thesis using f(4) cl [OF u] by blast
  qed
  moreover have "q \<notin> set qs" "set qs \<inter> set (owner # rest) = {}"
    using rep dis by (auto simp: lock_rep_def)
  ultimately have "lock_state va k' (q # owner # rest) q qs"
    using k' f(1) [OF n0] f(2) q18 by (auto simp: lock_state_def)
  then show ?thesis using k'(1) by (auto simp: kernel_release_def)
qed

interpretation kernel_lock: fair_lock "lock_state va" kernel_wait kernel_release for va
  by unfold_locales (rule lock_state_wait lock_state_release; assumption)+

end
