(* ===== verification/System_Request.thy ===== *)
theory System_Request
  imports Locks
begin

text \<open>
  The requests of the system driver (\<^verbatim>\<open>system_driver_request\<close>, \<^verbatim>\<open>secure_el1.c\<close>, lines 947-1120),
  one definition per case of the switch.

  The requests named by the enumeration but absent from the switch, and every other number, stop at
  line 1111.  The block that would serve \<^verbatim>\<open>NextDriver\<close> stands after the \<^verbatim>\<open>return\<close>
  of \<^verbatim>\<open>CreateMap\<close> without a label of its own and is never reached.
\<close>

section \<open>The requests\<close>

definition device_page_entry :: "u64 \<Rightarrow> vmsa_entry" where
  "device_page_entry pa =
    (let entry = Aarch64_VMSA_page_at pa;
         entry = Aarch64_VMSA_device_memory entry;
         entry = Aarch64_VMSA_el0_rw entry;
         entry = set_shareability 3 entry;
         entry = set_not_global 1 entry
     in set_access_flag 1 entry)"

definition request_add_device_page :: "u64 \<Rightarrow> kernel \<Rightarrow> (thread_switch \<times> kernel) result" where
  "request_add_device_page thread k =
    (let entry = device_page_entry (reg k thread 1);
         page = ucast (drop_bit 12 (reg k thread 2)) :: u32
     in if page \<ge> 32 then Inl (BSOD 970)
        else if shared_system_map k (unat page) \<noteq> Aarch64_VMSA_invalid then Inl (BSOD 974)
        else
          (let k = k\<lparr>system_thread_stack := (system_thread_stack k)(4 := reg k thread 2)\<rparr>;
               k = k\<lparr>shared_system_map := (shared_system_map k)(unat page := entry)\<rparr>;
               k = k\<lparr>core_tt_l3 := (core_tt_l3 k)(unat page := entry)\<rparr>;
               k = (if page \<ge> shared_system_map_mapped_pages k
                    then k\<lparr>shared_system_map_mapped_pages := page + 1\<rparr> else k)
           in Inr (stay thread, set_reg thread 0 (ucast (push_bit 12 page)) k)))"

definition request_updated_map :: "u64 \<Rightarrow> kernel \<Rightarrow> (thread_switch \<times> kernel) result" where
  "request_updated_map thread k =
    rbind (for_each (\<lambda>i k. if i < 32 then set_l3 i (shared_system_map k i) k else Inl FAULT)
             [unat (shared_system_map_core_page k + 1)..<unat (shared_system_map_mapped_pages k)] k)
      (\<lambda>k. Inr (stay thread, k))"

definition request_create_map :: "u64 \<Rightarrow> kernel \<Rightarrow> (thread_switch \<times> kernel) result" where
  "request_create_map thread k =
    rbind (obtain_interface k) (\<lambda>(e, k).
    rbind (top_frame k thread) (\<lambda>fr.
      let k = set_interface e \<lparr>user = caller_map fr, provider = current_map (threads k thread),
                               handler = reg k thread 0, object = reg k thread 1\<rparr> k
      in Inr (stay thread, set_reg thread 0 (ucast (index_from_interface e)) k)))"

definition request_read_interface :: "u64 \<Rightarrow> kernel \<Rightarrow> (thread_switch \<times> kernel) result" where
  "request_read_interface thread k =
    (case interface_from_index k (ucast (reg k thread 1)) of
       None \<Rightarrow> Inl (BSOD 1040)
     | Some i \<Rightarrow> rbind (interface_at k i) (\<lambda>e. Inr (stay thread, set_reg thread 0 (object e) k)))"

definition request_read_heap :: "u64 \<Rightarrow> kernel \<Rightarrow> (thread_switch \<times> kernel) result" where
  "request_read_heap thread k =
    rbind (read_heap (reg k thread 1) (reg k thread 2) (reg k thread 3) k) (\<lambda>k. Inr (stay thread, k))"

definition request_write_heap :: "u64 \<Rightarrow> kernel \<Rightarrow> (thread_switch \<times> kernel) result" where
  "request_write_heap thread k =
    rbind (write_heap (reg k thread 1) (reg k thread 2) (reg k thread 3) k) (\<lambda>k.
    rbind (top_frame k thread) (\<lambda>_. Inr (stay thread, k)))"

definition request_allocate_heap :: "u64 \<Rightarrow> kernel \<Rightarrow> (thread_switch \<times> kernel) result" where
  "request_allocate_heap thread k =
    (let (p, k) = allocate_heap (reg k thread 1) k in Inr (stay thread, set_reg thread 0 p k))"

definition request_free_heap :: "u64 \<Rightarrow> kernel \<Rightarrow> (thread_switch \<times> kernel) result" where
  "request_free_heap thread k =
    rbind (free_heap (reg k thread 1) (reg k thread 2) k) (\<lambda>k. Inr (stay thread, k))"

definition request_create_thread :: "u64 \<Rightarrow> kernel \<Rightarrow> (thread_switch \<times> kernel) result" where
  "request_create_thread thread k =
    (if reg k thread 2 AND 0xf \<noteq> 0 then Inl (BSOD 1060)
     else
       (let (new_thread, k) = allocate_heap sizeof_thread_context k;
            k = initialise_new_thread new_thread k
        in rbind (top_frame k thread) (\<lambda>fr.
          let k = upd_thread new_thread (\<lambda>c. c\<lparr>current_map := caller_map fr\<rparr>) k;
              k = upd_thread new_thread (\<lambda>c. c\<lparr>t_pc := reg k thread 1\<rparr>) k;
              k = upd_thread new_thread (\<lambda>c. c\<lparr>t_sp := reg k thread 2\<rparr>) k;
              k = upd_thread new_thread (\<lambda>c. c\<lparr>spsr := 0\<rparr>) k;
              k = set_reg thread 0 (ucast (thread_code new_thread)) k
          in rbind (insert_thread_as_head Runnable_list new_thread k) (\<lambda>k.
               Inr (\<lparr>sw_then = thread, sw_now = new_thread\<rparr>, k)))))"

definition request_set_interrupt_thread :: "u64 \<Rightarrow> kernel \<Rightarrow> (thread_switch \<times> kernel) result" where
  "request_set_interrupt_thread thread k =
    rbind
      (if interrupt_thread k \<noteq> 0 then
         (if interrupt_thread k \<noteq> thread then Inl (BSOD 1077) else Inr k)
       else Inr (upd_thread thread (\<lambda>c. c\<lparr>spsr := 0x80\<rparr>) (k\<lparr>interrupt_thread := thread\<rparr>)))
      (\<lambda>k. let now = t_next (threads k thread) in
           rbind (remove_thread thread k) (\<lambda>k.
             Inr (\<lparr>sw_then = thread, sw_now = now\<rparr>, k\<lparr>runnable := now\<rparr>)))"

definition request_make_partner :: "u64 \<Rightarrow> kernel \<Rightarrow> (thread_switch \<times> kernel) result" where
  "request_make_partner thread k =
    (if partner (threads k thread) \<noteq> 0 then Inl (BSOD 1090)
     else
       (let (p, k) = allocate_heap (sizeof_thread_context + sizeof_vm_state) k;
            k = k\<lparr>sysregs := (sysregs k)(p := (\<lambda>i. if i < 18 then 0 else sysregs k p i))\<rparr>;
            k = upd_thread thread (\<lambda>c. c\<lparr>partner := p\<rparr>) k;
            k = initialise_new_thread p k;
            k = upd_thread p (\<lambda>c. c\<lparr>partner := thread\<rparr>) k
        in rbind (top_frame k thread) (\<lambda>fr.
          let k = upd_thread p (\<lambda>c. c\<lparr>current_map := caller_map fr\<rparr>) k;
              k = upd_thread p (\<lambda>c. c\<lparr>t_pc := 0\<rparr>) k;
              k = upd_thread p (\<lambda>c. c\<lparr>spsr := 0x1d3\<rparr>) k
          in Inr (stay thread, k))))"

section \<open>The switch\<close>

definition request_body :: "u64 \<Rightarrow> kernel \<Rightarrow> (thread_switch \<times> kernel) result" where
  "request_body thread k =
    (case special_request_of (reg k thread 0) of
       Some Add_Device_Page \<Rightarrow> request_add_device_page thread k
     | Some Updated_Map \<Rightarrow> request_updated_map thread k
     | Some ReadInterface \<Rightarrow> request_read_interface thread k
     | Some ReadHeap \<Rightarrow> request_read_heap thread k
     | Some WriteHeap \<Rightarrow> request_write_heap thread k
     | Some AllocateHeap \<Rightarrow> request_allocate_heap thread k
     | Some FreeHeap \<Rightarrow> request_free_heap thread k
     | Some Create_Thread \<Rightarrow> request_create_thread thread k
     | Some Set_Interrupt_Thread \<Rightarrow> request_set_interrupt_thread thread k
     | Some Thread_Make_Partner \<Rightarrow> request_make_partner thread k
     | _ \<Rightarrow> Inl (BSOD 1111))"

text \<open>\<^verbatim>\<open>CreateMap\<close> returns from within the switch; the other cases go on to load the map of the
  thread that will run.\<close>

definition system_driver_request :: "u64 \<Rightarrow> kernel \<Rightarrow> (thread_switch \<times> kernel) result" where
  "system_driver_request thread k =
    (if special_request_of (reg k thread 0) = Some CreateMap then request_create_map thread k
     else rbind (request_body thread k) (\<lambda>(result, k).
       if sw_now result \<noteq> thread
          \<and> current_map (threads k (sw_now result)) \<noteq> current_map (threads k thread)
       then rbind (change_map (sw_now result) (current_map (threads k (sw_now result))) k)
              (\<lambda>k. Inr (result, k))
       else Inr (result, k)))"

end
