(* ===== verification/Svc.thy ===== *)
theory Svc
  imports System_Request
begin

text \<open>
  The system calls (\<^verbatim>\<open>handle_svc\<close>, \<^verbatim>\<open>include/svc_handling.h\<close>, lines 407-660) and the exception
  handlers of the kernel (\<^verbatim>\<open>secure_el1.c\<close>, lines 540-543 and 1122-1367).

  Calls between maps push a frame on the thread's own stack of six; three calls may be nested.  The
  exception syndrome and the fault address registers are arguments of the handlers.
\<close>

section \<open>Calls between maps\<close>

definition incompatible_event :: "kernel \<Rightarrow> (thread_switch \<times> kernel) result" where
  "incompatible_event k = Inl (BSOD 542)"

definition svc_yield :: "u64 \<Rightarrow> kernel \<Rightarrow> (thread_switch \<times> kernel) result" where
  "svc_yield thread k =
    (if t_next (threads k thread) \<noteq> thread then
       (let k = set_reg thread 0 1 k;
            now = t_next (threads k thread)
        in Inr (\<lparr>sw_then = thread, sw_now = now\<rparr>, k\<lparr>runnable := now\<rparr>))
     else Inr (stay thread, set_reg thread 0 0 k))"

text \<open>The part common to return and exception: back to the caller of the top frame.\<close>

definition pop_frame :: "u64 \<Rightarrow> kernel \<Rightarrow> kernel result" where
  "pop_frame thread k =
    rbind (top_frame k thread) (\<lambda>fr.
      let k = upd_thread thread (\<lambda>c. c\<lparr>t_pc := caller_return_address fr\<rparr>) k;
          k = k\<lparr>sp_el0 := caller_sp fr\<rparr>
      in rbind (if current_map (threads k thread) \<noteq> caller_map fr
                then change_map thread (caller_map fr) k else Inr k) (\<lambda>k.
         Inr (upd_thread thread (\<lambda>c. c\<lparr>stack_pointer := stack_pointer c + 1\<rparr>) k)))"

definition svc_exception :: "u64 \<Rightarrow> kernel \<Rightarrow> (thread_switch \<times> kernel) result" where
  "svc_exception thread k =
    rbind (pop_frame thread k) (\<lambda>k.
      let k = upd_thread thread (\<lambda>c. c\<lparr>spsr := spsr c OR push_bit 28 1\<rparr>) k
      in Inl (SMC 4))"

definition svc_return :: "u64 \<Rightarrow> kernel \<Rightarrow> (thread_switch \<times> kernel) result" where
  "svc_return thread k =
    rbind (pop_frame thread k) (\<lambda>k.
      Inr (stay thread, upd_thread thread (\<lambda>c. c\<lparr>spsr := spsr c AND NOT (push_bit 28 1)\<rparr>) k))"

definition thread_stack_is_full :: "u64 \<Rightarrow> (thread_switch \<times> kernel) result" where
  "thread_stack_is_full thread = Inl (BSOD 1126)"

text \<open>The service the kernel performs itself: the physical address of a writable user address.\<close>

definition call_physical_address_of :: "u64 \<Rightarrow> kernel \<Rightarrow> (thread_switch \<times> kernel) result" where
  "call_physical_address_of thread k =
    (let va = reg k thread 2;
         pa = at_s1e0w k va
     in rbind
          (if 0 \<noteq> (pa AND 1) then
             rbind (find_and_map_memory thread va k) (\<lambda>(mapped, k).
               if mapped then
                 (let pa = at_s1e0w k va in if 0 \<noteq> (pa AND 1) then Inl (BSOD 507) else Inr (pa, k))
               else Inl (BSOD 509))
           else Inr (pa, k))
          (\<lambda>(pa, k). Inr (stay thread,
             set_reg thread 0 ((pa AND 0x000ffffffffff000) OR (va AND 0xfff)) k)))"

text \<open>Entering the provider of an interface.\<close>

definition enter_provider :: "u64 \<Rightarrow> Interface \<Rightarrow> kernel \<Rightarrow> (thread_switch \<times> kernel) result" where
  "enter_provider thread interface k =
    (let k = set_reg thread 0 (object interface) k in
     if stack_pointer (threads k thread) = 0 \<or> 6 < stack_pointer (threads k thread) then Inl FAULT
     else
       (let k = upd_thread thread (\<lambda>c. c\<lparr>stack_pointer := stack_pointer c - 1\<rparr>) k;
            frame = \<lparr>caller_sp = sp_el0 k, caller_return_address = t_pc (threads k thread),
                     caller_map = current_map (threads k thread)\<rparr>;
            k = upd_thread thread (\<lambda>c. c\<lparr>stack := (stack c)(stack_pointer c := frame)\<rparr>) k
        in if stack_pointer (threads k thread) \<le> stack_limit (threads k thread) + 1
           then thread_stack_is_full thread
           else rbind (if provider interface \<noteq> current_map (threads k thread)
                       then change_map thread (provider interface) k else Inr k) (\<lambda>k.
                Inr (stay thread, upd_thread thread (\<lambda>c. c\<lparr>t_pc := handler interface\<rparr>) k))))"

definition svc_call :: "u64 \<Rightarrow> kernel \<Rightarrow> (thread_switch \<times> kernel) result" where
  "svc_call thread k =
    (if reg k thread 18 \<noteq> ucast (thread_code thread) then Inl (BSOD 482)
     else case interface_from_index k (ucast (reg k thread 0)) of
       None \<Rightarrow> Inl (BSOD 487)
     | Some i \<Rightarrow>
        rbind (interface_at k i) (\<lambda>interface.
          if provider interface = system_map_index \<and> handler interface = System_Service_Map
             \<and> reg k thread 1 = DRIVER_SYSTEM_physical_address_of
          then call_physical_address_of thread k
          else if user interface \<noteq> current_map (threads k thread) then Inl (BSOD 518)
          else enter_provider thread interface k))"

section \<open>Partner threads\<close>

text \<open>Code of a lower exception level that runs in a virtual machine: AArch32 or non-secure EL2.\<close>

definition vm_mode :: "u32 \<Rightarrow> bool" where
  "vm_mode psr \<longleftrightarrow> 0 \<noteq> (psr AND 0x10) \<or> (psr AND 0x1e) = 8"

definition svc_switch_to_partner :: "u64 \<Rightarrow> kernel \<Rightarrow> (thread_switch \<times> kernel) result" where
  "svc_switch_to_partner thread k =
    (let p = partner (threads k thread) in
     if p = 0 then Inl (BSOD 543)
     else if current_map (threads k thread) \<noteq> current_map (threads k p) then Inl (BSOD 544)
     else
       (let k = set_next p (t_next (threads k thread)) k;
            k = set_prev p (t_prev (threads k thread)) k;
            k = set_prev (t_next (threads k thread)) p k;
            k = set_next (t_prev (threads k thread)) p k;
            k = set_next thread thread k;
            k = set_prev thread thread k;
            k = k\<lparr>runnable := p\<rparr>;
            k = (if vm_mode (spsr (threads k p))
                 then upd_thread p (\<lambda>c. c\<lparr>t_pc := reg k thread 1\<rparr>) k else k)
        in Inr (\<lparr>sw_then = thread, sw_now = p\<rparr>, k)))"

text \<open>Register 31 of the 31-element array is the member behind it, the saved stack pointer.\<close>

definition partner_reg :: "thread_context \<Rightarrow> nat \<Rightarrow> u64" where
  "partner_reg c i = (if i = 31 then t_sp c else regs c i)"

definition set_partner_reg :: "nat \<Rightarrow> u64 \<Rightarrow> thread_context \<Rightarrow> thread_context" where
  "set_partner_reg i v c = (if i = 31 then c\<lparr>t_sp := v\<rparr> else c\<lparr>regs := (regs c)(i := v)\<rparr>)"

definition svc_get_partner_reg :: "u64 \<Rightarrow> kernel \<Rightarrow> (thread_switch \<times> kernel) result" where
  "svc_get_partner_reg thread k =
    (let p = partner (threads k thread);
         register_index = ucast (reg k thread 0) :: u32
     in if p = 0 then Inl (BSOD 578)
        else if current_map (threads k thread) \<noteq> current_map (threads k p) then Inl (BSOD 579)
        else if register_index > 31 then Inl (BSOD 580)
        else if vm_mode (spsr (threads k p)) then
          Inr (stay thread, set_reg thread 0 (partner_reg (threads k p) (unat register_index)) k)
        else Inl (BSOD 591))"

definition svc_set_partner_reg :: "u64 \<Rightarrow> kernel \<Rightarrow> (thread_switch \<times> kernel) result" where
  "svc_set_partner_reg thread k =
    (let p = partner (threads k thread);
         register_index = ucast (reg k thread 0) :: u32
     in if p = 0 then Inl (BSOD 600)
        else if current_map (threads k thread) \<noteq> current_map (threads k p) then Inl (BSOD 601)
        else if register_index > 31 then Inl (BSOD 602)
        else if vm_mode (spsr (threads k p)) then
          Inr (stay thread, upd_thread p (set_partner_reg (unat register_index) (reg k thread 1)) k)
        else Inl (BSOD 614))"

definition VM_REGISTER_OUT_OF_RANGE :: u32 where "VM_REGISTER_OUT_OF_RANGE = 20"

text \<open>The virtual machine's state has 18 registers; the two further indexes that pass the check lie
  outside it.  The values pass through 32-bit variables.\<close>

definition svc_change_vm_system_register :: "u64 \<Rightarrow> kernel \<Rightarrow> (thread_switch \<times> kernel) result" where
  "svc_change_vm_system_register thread k =
    (if \<not> is_real_thread k (ucast (reg k thread 0)) then Inl (BSOD 622)
     else
       (let vm_thread = thread_from_code (ucast (reg k thread 0));
            p = partner (threads k vm_thread)
        in if p = 0 then Inl (BSOD 625)
           else if current_map (threads k thread) \<noteq> current_map (threads k p) then Inl (BSOD 634)
           else
             (let register_index = ucast (reg k thread 1) :: u32 in
              if register_index \<ge> VM_REGISTER_OUT_OF_RANGE then Inl (BSOD 637)
              else if register_index \<ge> 18 then Inl FAULT
              else
                (let i = unat register_index;
                     old_value = ucast (sysregs k p i) :: u32;
                     new_value = ucast (reg k thread 2) :: u32;
                     new_value = (if reg k thread 3 \<noteq> 0
                                  then ucast (ucast new_value XOR (ucast old_value AND reg k thread 3))
                                  else new_value);
                     k = (if reg k thread 2 \<noteq> 0 \<or> reg k thread 3 \<noteq> NOT 0
                          then k\<lparr>sysregs := (sysregs k)(p := (sysregs k p)(i := ucast new_value))\<rparr> else k)
                 in Inr (stay thread, set_reg thread 0 (ucast old_value) k)))))"

section \<open>Dispatch\<close>

definition handle_svc :: "u64 \<Rightarrow> u32 \<Rightarrow> kernel \<Rightarrow> (thread_switch \<times> kernel) result" where
  "handle_svc thread number k =
    (if number = 0 then Inr (stay thread, k)
     else if number = ISAMBARD_GATE then handle_svc_gate thread k
     else if number = ISAMBARD_DUPLICATE_TO_RETURN then handle_svc_duplicate_to_return thread k
     else if number = ISAMBARD_DUPLICATE_TO_PASS then handle_svc_duplicate_to_pass_to thread k
     else if number = ISAMBARD_INTERFACE_TO_PASS then handle_svc_interface_to_pass_to thread k
     else if number = ISAMBARD_INTERFACE_TO_RETURN then handle_svc_interface_to_return thread k
     else if number = ISAMBARD_LOCK_WAIT then handle_svc_wait_for_lock thread k
     else if number = ISAMBARD_LOCK_RELEASE then handle_svc_release_lock thread k
     else if number = ISAMBARD_YIELD then svc_yield thread k
     else if number = ISAMBARD_EXCEPTION then svc_exception thread k
     else if number = ISAMBARD_RETURN then svc_return thread k
     else if number = ISAMBARD_CALL then svc_call thread k
     else if number = ISAMBARD_SWITCH_TO_PARTNER then svc_switch_to_partner thread k
     else if number = ISAMBARD_GET_PARTNER_REG then svc_get_partner_reg thread k
     else if number = ISAMBARD_SET_PARTNER_REG then svc_set_partner_reg thread k
     else if number = ISAMBARD_CHANGE_VM_SYSTEM_REGISTER then svc_change_vm_system_register thread k
     else if number = ISAMBARD_SYSTEM_REQUEST then system_driver_request thread k
     else Inl (BSOD 656))"

definition SEL1_LOWER_AARCH64_SYNC_CODE_may_change_map ::
    "u32 \<Rightarrow> u64 \<Rightarrow> u64 \<Rightarrow> kernel \<Rightarrow> (thread_switch \<times> kernel) result" where
  "SEL1_LOWER_AARCH64_SYNC_CODE_may_change_map esr far thread k =
    (if drop_bit 16 esr = 0x5600 then handle_svc thread (esr AND 0xffff) k
     else
       (let ec = drop_bit 26 esr in
        if ec = 0x20 then
          rbind (find_and_map_memory thread far k) (\<lambda>(mapped, k).
            if \<not> mapped then Inl (BSOD 1230) else Inr (stay thread, k))
        else if ec = 0x24 then
          rbind (find_and_map_memory thread far k) (\<lambda>(mapped, k).
            if \<not> mapped then Inl (BSOD 1242) else Inr (stay thread, k))
        else if ec = 0x26 then Inl (BSOD 3)
        else if ec = 0x18 then Inl (BSOD 1255)
        else if ec = 0x22 then Inl (BSOD 1267)
        else if ec = 0x3c then Inl (BSOD (5 + unat (esr AND 7)))
        else Inl (BSOD (5 + unat (ec AND 7)))))"

definition SEL1_LOWER_AARCH64_SYNC_CODE ::
    "u32 \<Rightarrow> u64 \<Rightarrow> u64 \<Rightarrow> kernel \<Rightarrow> (thread_switch \<times> kernel) result" where
  "SEL1_LOWER_AARCH64_SYNC_CODE esr far thread k =
    rbind (SEL1_LOWER_AARCH64_SYNC_CODE_may_change_map esr far thread k) (\<lambda>(result, k).
    rbind (if current_map (threads k (sw_now result)) \<noteq> current_map (threads k (sw_then result))
           then change_map (sw_now result) (current_map (threads k (sw_now result))) k else Inr k) (\<lambda>k.
      if runnable k \<noteq> sw_now result then Inl (SMC 0x7777) else Inr (result, k)))"

definition SEL1_LOWER_AARCH64_IRQ_CODE :: "u64 \<Rightarrow> kernel \<Rightarrow> (thread_switch \<times> kernel) result" where
  "SEL1_LOWER_AARCH64_IRQ_CODE thread k =
    (let now = interrupt_thread k in
     if now = 0 then Inl (BSOD 1327)
     else rbind (insert_thread_as_head Runnable_list now k) (\<lambda>k.
       rbind (if current_map (threads k now) \<noteq> current_map (threads k thread)
              then change_map now (current_map (threads k now)) k else Inr k) (\<lambda>k.
         if runnable k \<noteq> now then Inl (SMC 0x3333)
         else Inr (\<lparr>sw_then = thread, sw_now = now\<rparr>, k))))"

definition SEL1_SP0_SYNC_CODE :: "u64 \<Rightarrow> kernel \<Rightarrow> (thread_switch \<times> kernel) result" where
  "SEL1_SP0_SYNC_CODE thread k = Inr (stay thread, k)"

definition SEL1_SPX_SYNC_CODE :: "u64 \<Rightarrow> kernel \<Rightarrow> (thread_switch \<times> kernel) result" where
  "SEL1_SPX_SYNC_CODE thread k = incompatible_event k"

definition SEL1_SPX_IRQ_CODE :: "u64 \<Rightarrow> kernel \<Rightarrow> (thread_switch \<times> kernel) result" where
  "SEL1_SPX_IRQ_CODE thread k = incompatible_event k"

definition SEL1_SP0_IRQ_CODE :: "u64 \<Rightarrow> kernel \<Rightarrow> (thread_switch \<times> kernel) result" where
  "SEL1_SP0_IRQ_CODE thread k = incompatible_event k"

definition SEL1_LOWER_AARCH64_SERROR_CODE :: "u64 \<Rightarrow> kernel \<Rightarrow> (thread_switch \<times> kernel) result" where
  "SEL1_LOWER_AARCH64_SERROR_CODE thread k = incompatible_event k"

definition SEL1_LOWER_AARCH32_SYNC_CODE :: "u64 \<Rightarrow> kernel \<Rightarrow> (thread_switch \<times> kernel) result" where
  "SEL1_LOWER_AARCH32_SYNC_CODE thread k = incompatible_event k"

definition SEL1_LOWER_AARCH32_IRQ_CODE :: "u64 \<Rightarrow> kernel \<Rightarrow> (thread_switch \<times> kernel) result" where
  "SEL1_LOWER_AARCH32_IRQ_CODE thread k = incompatible_event k"

definition SEL1_LOWER_AARCH32_SERROR_CODE :: "u64 \<Rightarrow> kernel \<Rightarrow> (thread_switch \<times> kernel) result" where
  "SEL1_LOWER_AARCH32_SERROR_CODE thread k = incompatible_event k"

section \<open>Calls and returns\<close>

lemma enter_provider_Inr:
  assumes "enter_provider th i k = Inr (sw, k')"
  shows "sw = stay th"
    and "stack_limit (threads k th) + 2 < stack_pointer (threads k th)" and "stack_pointer (threads k th) \<le> 6"
    and "stack_pointer (threads k' th) = stack_pointer (threads k th) - 1"
    and "stack (threads k' th) = (stack (threads k th))(stack_pointer (threads k th) - 1 :=
           \<lparr>caller_sp = sp_el0 k, caller_return_address = t_pc (threads k th),
            caller_map = current_map (threads k th)\<rparr>)"
    and "t_pc (threads k' th) = handler i" and "current_map (threads k' th) = provider i"
    and "reg k' th 0 = object i" and "\<And>u. u \<noteq> th \<Longrightarrow> threads k' u = threads k u"
    and "loaded_map k = current_map (threads k th) \<Longrightarrow> loaded_map k' = provider i"
proof -
  let ?f = "\<lparr>caller_sp = sp_el0 k, caller_return_address = t_pc (threads k th),
             caller_map = current_map (threads k th)\<rparr>"
  let ?k = "upd_thread th (\<lambda>c. c\<lparr>stack := (stack c)(stack_pointer c := ?f)\<rparr>)
              (upd_thread th (\<lambda>c. c\<lparr>stack_pointer := stack_pointer c - 1\<rparr>) (set_reg th 0 (object i) k))"
  have sp: "stack_limit (threads k th) + 2 < stack_pointer (threads k th)" "stack_pointer (threads k th) \<le> 6"
    and m: "rbind (if provider i \<noteq> current_map (threads k th) then change_map th (provider i) ?k else Inr ?k)
          (\<lambda>k. Inr (stay th, upd_thread th (\<lambda>c. c\<lparr>t_pc := handler i\<rparr>) k)) = Inr (sw, k')"
    using assms
    by (auto simp: enter_provider_def Let_def thread_stack_is_full_def set_reg_def split: if_splits)
  then obtain k1 where k1: "(if provider i \<noteq> current_map (threads k th) then change_map th (provider i) ?k else Inr ?k) = Inr k1"
      "k' = upd_thread th (\<lambda>c. c\<lparr>t_pc := handler i\<rparr>) k1" "sw = stay th"
    by (auto elim: rbind_InrE)
  have t: "threads k1 = (threads ?k)(th := (threads ?k th)\<lparr>current_map := provider i\<rparr>)"
    and l: "loaded_map k = current_map (threads k th) \<Longrightarrow> loaded_map k1 = provider i"
    using k1(1) change_map_threads(1,2) by (auto split: if_splits simp: set_reg_def fun_eq_iff)
  show "sw = stay th" "stack_limit (threads k th) + 2 < stack_pointer (threads k th)"
      "stack_pointer (threads k th) \<le> 6"
    using k1(3) sp by simp_all
  show "stack_pointer (threads k' th) = stack_pointer (threads k th) - 1"
    "stack (threads k' th) = (stack (threads k th))(stack_pointer (threads k th) - 1 := ?f)"
    "t_pc (threads k' th) = handler i" "current_map (threads k' th) = provider i"
    "reg k' th 0 = object i" "\<And>u. u \<noteq> th \<Longrightarrow> threads k' u = threads k u"
    "loaded_map k = current_map (threads k th) \<Longrightarrow> loaded_map k' = provider i"
    using l by (simp_all add: k1(2) t)
qed

text \<open>A map that can always be entered.\<close>

definition ordinary_map :: "kernel \<Rightarrow> u32 \<Rightarrow> bool" where
  "ordinary_map k m \<longleftrightarrow>
     m \<le> kernel_last_interface k \<and> m \<noteq> system_map_index \<and> m \<noteq> memory_allocator_map_index \<and> m < 0x10000"

lemma change_map_succeeds:
  assumes "ordinary_map k m" and "current_map (threads k t) \<le> kernel_last_interface k"
  shows "\<exists>k'. change_map t m k = Inr k'"
proof (cases "loaded_map k = m")
  case True
  then show ?thesis using assms by (simp add: change_map_def ordinary_map_def not_less)
next
  case False
  then show ?thesis using change_map_ordinary [of k t m] assms by (metis ordinary_map_def)
qed

lemma enter_provider_enters:
  assumes "ordinary_map k (provider e)" and "current_map (threads k th) \<le> kernel_last_interface k"
    and "stack_limit (threads k th) + 2 < stack_pointer (threads k th)" and "stack_pointer (threads k th) \<le> 6"
  shows "\<exists>k'. enter_provider th e k = Inr (stay th, k')"
proof -
  let ?f = "\<lparr>caller_sp = sp_el0 k, caller_return_address = t_pc (threads k th),
             caller_map = current_map (threads k th)\<rparr>"
  let ?k = "upd_thread th (\<lambda>c. c\<lparr>stack := (stack c)(stack_pointer c := ?f)\<rparr>)
              (upd_thread th (\<lambda>c. c\<lparr>stack_pointer := stack_pointer c - 1\<rparr>) (set_reg th 0 (object e) k))"
  have "ordinary_map ?k (provider e)" "current_map (threads ?k th) \<le> kernel_last_interface ?k"
    using assms(1,2) by (simp_all add: ordinary_map_def set_reg_def)
  then obtain kc where "change_map th (provider e) ?k = Inr kc" using change_map_succeeds by blast
  then show ?thesis
    using assms(3,4) by (auto simp: enter_provider_def Let_def set_reg_def)
qed

lemma svc_call_dispatch: "handle_svc th ISAMBARD_CALL k = svc_call th k"
  by (simp add: handle_svc_def syscall_numbers)

lemma svc_call_last_interface:
  assumes "svc_call th k = Inr (sw, k')"
  shows "kernel_last_interface k' = kernel_last_interface k"
  using assms change_map_threads(6)
  by (fastforce simp: svc_call_def call_physical_address_of_def enter_provider_def Let_def set_reg_def
      thread_stack_is_full_def find_and_map_memory_def map_vmb_def set_l1_def set_l2_def set_l3_def
      elim!: rbind_InrE split: if_splits option.splits)

lemma svc_return_dispatch: "handle_svc th ISAMBARD_RETURN k = svc_return th k"
  by (simp add: handle_svc_def syscall_numbers)

lemma pop_frame_result:
  assumes sp: "stack_pointer (threads k th) < 6" and fr: "stack (threads k th) (stack_pointer (threads k th)) = fr"
    and m: "ordinary_map k (caller_map fr)" and c: "current_map (threads k th) \<le> kernel_last_interface k"
  obtains k' where "pop_frame th k = Inr k'" and "t_pc (threads k' th) = caller_return_address fr"
    and "sp_el0 k' = caller_sp fr" and "current_map (threads k' th) = caller_map fr"
    and "stack_pointer (threads k' th) = stack_pointer (threads k th) + 1"
    and "stack (threads k' th) = stack (threads k th)" and "regs (threads k' th) = regs (threads k th)"
    and "\<And>u. u \<noteq> th \<Longrightarrow> threads k' u = threads k u"
    and "loaded_map k = current_map (threads k th) \<Longrightarrow> loaded_map k' = caller_map fr"
proof -
  let ?k = "(upd_thread th (\<lambda>c. c\<lparr>t_pc := caller_return_address fr\<rparr>) k)\<lparr>sp_el0 := caller_sp fr\<rparr>"
  have "ordinary_map ?k (caller_map fr)" "current_map (threads ?k th) \<le> kernel_last_interface ?k"
    using m c by (simp_all add: ordinary_map_def)
  then obtain kc where kc: "change_map th (caller_map fr) ?k = Inr kc" using change_map_succeeds by blast
  define k1 where "k1 = (if current_map (threads k th) \<noteq> caller_map fr then kc else ?k)"
  have e: "pop_frame th k = Inr (upd_thread th (\<lambda>c. c\<lparr>stack_pointer := stack_pointer c + 1\<rparr>) k1)"
    using sp fr kc by (simp add: pop_frame_def top_frame_def Let_def k1_def)
  have t: "threads k1 = (threads ?k)(th := (threads ?k th)\<lparr>current_map := caller_map fr\<rparr>)"
    "sp_el0 k1 = caller_sp fr" "loaded_map k = current_map (threads k th) \<Longrightarrow> loaded_map k1 = caller_map fr"
    using change_map_threads [OF kc] by (auto simp: k1_def fun_eq_iff)
  show ?thesis by (rule that [OF e]) (simp_all add: t)
qed

text \<open>A free entry of the interface table cannot be called.\<close>

lemma free_entry_provider:
  assumes "free_marker_of e = free_marker"
  shows "provider e = 0x65657246"
proof -
  have "ucast (free_marker_of e) = provider e"
    by (rule bit_eqI) (auto simp: free_marker_of_def bit_simps dest: bit_imp_le_length)
  moreover have "(ucast free_marker :: u32) = 0x65657246"
    by (rule word_unat_eq_iff [THEN iffD2])
      (simp only: unsigned_ucast_eq, simp add: free_marker_def take_bit_eq_mod)
  ultimately show ?thesis using assms by (simp only:)
qed

lemma call_free_interface_stops:
  assumes i: "interface_from_index k (ucast (reg k th 0)) = Some i"
    and f: "free_marker_of (interfaces k i) = free_marker"
    and n: "kernel_last_interface k < 0x65657246" and c: "current_map (threads k th) \<le> kernel_last_interface k"
  shows "\<exists>h. svc_call th k = Inl h"
proof -
  note p = free_entry_provider [OF f]
  have "\<not> (\<exists>r. enter_provider th (interfaces k i) k = Inr r)"
  proof
    assume "\<exists>r. enter_provider th (interfaces k i) k = Inr r"
    then obtain sw k' where r: "enter_provider th (interfaces k i) k = Inr (sw, k')" by auto
    let ?c = "\<lambda>k. kernel_last_interface k"
    have ne: "provider (interfaces k i) \<noteq> current_map (threads k th)" using p n c by auto
    from r obtain k1 k2 where "change_map th (provider (interfaces k i)) k1 = Inr k2" "?c k1 = ?c k"
      using ne
      by (auto simp: enter_provider_def Let_def thread_stack_is_full_def set_reg_def split: if_splits elim!: rbind_InrE)
    then show False using change_map_out_of_range [of k1 "provider (interfaces k i)" th] p n by auto
  qed
  then obtain h where "enter_provider th (interfaces k i) k = Inl h"
    by (metis sum.exhaust)
  moreover have "provider (interfaces k i) \<noteq> system_map_index" using p by (simp add: system_map_index_def)
  ultimately show ?thesis using i by (auto simp: svc_call_def interface_at_def)
qed

section \<open>Scheduling\<close>

lemma svc_yield_rotates:
  assumes "ring (threads k) (th # x # rest)"
  obtains k' where "svc_yield th k = Inr (\<lparr>sw_then = th, sw_now = x\<rparr>, k')"
    and "ring (threads k') (x # rest @ [th])" and "runnable k' = x" and "reg k' th 0 = 1"
proof -
  let ?k = "(set_reg th 0 1 k)\<lparr>runnable := x\<rparr>"
  have n: "t_next (threads k th) = x" "x \<noteq> th" using assms by auto
  have "ring (threads ?k) (th # x # rest)" using assms by (subst ring_cong [of _ _ "threads k"]) auto
  then have "ring (threads ?k) (x # rest @ [th])" using ring_rotate [of "threads ?k" "[th]" "x # rest"] by simp
  then show ?thesis using that [of ?k] n by (simp add: svc_yield_def)
qed

lemma svc_yield_alone:
  assumes "ring (threads k) [th]"
  shows "svc_yield th k = Inr (stay th, set_reg th 0 0 k)"
  using assms by (simp add: svc_yield_def)

text \<open>The partner takes the place of the thread among the runnable threads.\<close>

lemma switch_to_partner_ring:
  assumes run: "ring (threads k) (th # x # rest)" and p: "partner (threads k th) = p" "p \<noteq> 0"
    and np: "p \<notin> set (th # x # rest)" and m: "current_map (threads k th) = current_map (threads k p)"
  obtains k' where "svc_switch_to_partner th k = Inr (\<lparr>sw_then = th, sw_now = p\<rparr>, k')"
    and "ring (threads k') (p # x # rest)" and "ring (threads k') [th]" and "runnable k' = p"
    and "t_pc (threads k' p) = (if vm_mode (spsr (threads k p)) then reg k th 1 else t_pc (threads k p))"
    and "regs (threads k' p) = regs (threads k p)"
proof -
  let ?l = "last (x # rest)"
  have c: "chain (threads k) x rest th" "t_next (threads k th) = x" "t_prev (threads k x) = th" using run by auto
  have pv: "t_prev (threads k th) = ?l" using chain_last [OF c(1)] .
  have l: "?l \<in> set (x # rest)" by (rule last_in_set) simp
  have ne: "p \<noteq> th" "p \<noteq> x" "p \<noteq> ?l" "x \<noteq> th" "?l \<noteq> th" using np run l by auto
  define k1 where "k1 = set_prev th th (set_next th th (set_next ?l p (set_prev x p (set_prev p ?l (set_next p x k)))))"
  define k2 where "k2 = k1\<lparr>runnable := p\<rparr>"
  define k' where "k' = (if vm_mode (spsr (threads k2 p)) then upd_thread p (\<lambda>c. c\<lparr>t_pc := reg k2 th 1\<rparr>) k2 else k2)"
  have e: "svc_switch_to_partner th k = Inr (\<lparr>sw_then = th, sw_now = p\<rparr>, k')"
    using p m c(2) pv ne
    by (simp add: svc_switch_to_partner_def Let_def k'_def k2_def k1_def) (simp add: link_setters)
  have n1: "t_next (threads k1 z) = (if z = th then th else if z = ?l then p else if z = p then x else t_next (threads k z))"
    and p1: "t_prev (threads k1 z) = (if z = th then th else if z = x then p else if z = p then ?l else t_prev (threads k z))"
    and y1: "payload (threads k1 z) = payload (threads k z)" for z
    using ne by (auto simp: k1_def link_setters)
  have lk: "t_next (threads k' z) = t_next (threads k1 z)" "t_prev (threads k' z) = t_prev (threads k1 z)" for z
    by (simp_all add: k'_def k2_def)
  have "ring (threads k') (p # x # rest)"
  proof (cases rest rule: rev_cases)
    case Nil
    then show ?thesis using ne np run p(2) by (simp add: lk n1 p1)
  next
    case (snoc ys y)
    have "chain (threads k') x ys y \<longleftrightarrow> chain (threads k) x ys y"
      by (rule chain_cong) (use run np snoc in \<open>auto simp: lk n1 p1\<close>)
    then show ?thesis using ne np run p(2) c(1) snoc by (auto simp: lk n1 p1 chain_append)
  qed
  moreover have "ring (threads k') [th]" using run by (simp add: lk n1 p1)
  moreover have "runnable k' = p" by (simp add: k'_def k2_def)
  moreover note y = payload_fields [OF y1]
  have "t_pc (threads k' p) = (if vm_mode (spsr (threads k p)) then reg k th 1 else t_pc (threads k p))"
      "regs (threads k' p) = regs (threads k p)"
    by (simp_all add: k'_def k2_def y)
  ultimately show ?thesis using that [OF e] by blast
qed

end
