(* ===== verification/Isolation.thy ===== *)
theory Isolation
  imports Svc
begin

text \<open>
  Two properties of the whole kernel entry: whichever system call or fault a thread raises, the
  thread that the kernel resumes runs on the translation tables of its own map, and no system call forges
  an interface.

  Both rest on what the operations leave alone.  The locale \<^verbatim>\<open>kernel_view\<close> is a part of the state that
  the elementary updates of the lists, locks, gates and tables do not touch; the operations keep
  such a part, which is shown once for the two views the properties are about: the maps of the threads and
  the table of interfaces.
\<close>

section \<open>What the operations leave alone\<close>

locale kernel_view =
  fixes view :: "kernel \<Rightarrow> 'a"
  assumes view_upd_thread: "(\<And>c. current_map (f c) = current_map c) \<Longrightarrow> view (upd_thread t f k) = view k"
    and view_runnable [simp]: "view (k\<lparr>runnable := r\<rparr>) = view k"
    and view_blocked [simp]: "view (k\<lparr>blocked := r\<rparr>) = view k"
    and view_timeouts [simp]: "view (k\<lparr>blocked_with_timeout := r\<rparr>) = view k"
    and view_interrupt_thread [simp]: "view (k\<lparr>interrupt_thread := r\<rparr>) = view k"
    and view_phys_mem [simp]: "view (k\<lparr>phys_mem := m\<rparr>) = view k"
    and view_sysregs [simp]: "view (k\<lparr>sysregs := y\<rparr>) = view k"
    and view_free_interface [simp]: "view (k\<lparr>kernel_free_interface := n\<rparr>) = view k"
    and view_heap_bottom [simp]: "view (k\<lparr>kernel_heap_bottom := b\<rparr>) = view k"
    and view_tt_l1 [simp]: "view (k\<lparr>core_tt_l1 := e\<rparr>) = view k"
    and view_tt_l2 [simp]: "view (k\<lparr>core_tt_l2 := e\<rparr>) = view k"
    and view_tt_l3 [simp]: "view (k\<lparr>core_tt_l3 := e\<rparr>) = view k"
    and view_heap_words [simp]: "view (k\<lparr>heap_words := w\<rparr>) = view k"
    and view_shared_map [simp]: "view (k\<lparr>shared_system_map := e\<rparr>) = view k"
    and view_shared_pages [simp]: "view (k\<lparr>shared_system_map_mapped_pages := p\<rparr>) = view k"
    and view_system_stack [simp]: "view (k\<lparr>system_thread_stack := st\<rparr>) = view k"
begin

lemma view_setters [simp]:
  "view (set_reg t i v k) = view k" "view (set_gate t v k) = view k"
  "view (set_next t v k) = view k" "view (set_prev t v k) = view k" "view (set_list t l k) = view k"
  by (simp_all add: set_reg_def set_gate_def link_setters view_upd_thread)

lemma view_links [simp]:
  "view (insert_new_thread_after_old n p k) = view k"
  "view (insert_new_thread_before_old n p k) = view k"
  "view (unlink_thread n k) = view k"
  by (simp_all add: insert_new_thread_after_old_def insert_new_thread_before_old_def unlink_thread_def Let_def)

lemma view_write:
  "write_user64 k va v = Inr k' \<Longrightarrow> view k' = view k"
  "write_kernel64 k off v = Inr k' \<Longrightarrow> view k' = view k"
  "assign_list k r v = Inr k' \<Longrightarrow> view k' = view k"
  by (auto simp: write_user64_def write_kernel64_def assign_list_def
      split: option.splits if_splits list_ref.splits)

lemma view_remove: "remove_thread t k = Inr k' \<Longrightarrow> view k' = view k"
  by (auto simp: remove_thread_def Let_def view_write elim!: rbind_InrE split: if_splits)

lemma view_insert_tail: "insert_thread_at_tail r t k = Inr k' \<Longrightarrow> view k' = view k"
  by (auto simp: insert_thread_at_tail_def Let_def view_write elim!: rbind_InrE split: if_splits)

lemma view_insert_head: "insert_thread_as_head r t k = Inr k' \<Longrightarrow> view k' = view k"
  by (auto simp: insert_thread_as_head_def view_write view_insert_tail elim!: rbind_InrE)

lemma view_store_pp [simp]: "view (store_pp p v k) = view k"
  by (simp add: store_pp_def)

lemma view_release_loop: "gate_release_loop th h k = Some r \<Longrightarrow> view (snd r) = view k"
proof (rule gate_release_loop.raw_induct [of "\<lambda>th h k r. view (snd r) = view k", rotated], assumption)
  fix f :: "u64 \<Rightarrow> u64 \<Rightarrow> kernel \<Rightarrow> (u64 \<times> kernel) option" and th h k r
  let ?k = "insert_new_thread_after_old h th (set_gate h 0 (set_reg h 0 (- 1) k))"
  assume ih: "\<And>th h k r. f th h k = Some r \<Longrightarrow> view (snd r) = view k"
    and r: "(let k = set_reg h 0 (- 1) k; k = set_gate h 0 k; k = insert_new_thread_after_old h th k; h = reg k h 17
             in if h \<noteq> 0 \<and> reg k h 1 = 0 then f th h k else Some (h, k)) = Some r"
  show "view (snd r) = view k"
    using r ih [of th "reg ?k h 17" ?k r] by (auto simp: Let_def split: if_splits)
qed

lemma view_tick: "gate_tick th k = Inr (sw, k') \<Longrightarrow> view k' = view k"
  using view_release_loop
  by (fastforce simp: gate_tick_def Let_def split: if_splits option.splits prod.splits)

lemma view_enqueue: "gate_enqueue th k = Inr k' \<Longrightarrow> view k' = view k"
  by (auto simp: gate_enqueue_def Let_def split: option.splits prod.splits if_splits)

lemma view_gate_cancel [simp]: "view (gate_cancel t k) = view k"
  by (simp add: gate_cancel_def Let_def)

lemma view_gate_wait: "gate_wait th k = Inr (sw, k') \<Longrightarrow> view k' = view k"
  by (auto simp: gate_wait_def Let_def elim!: rbind_InrE split: if_splits dest!: view_remove view_enqueue)

lemma view_gate: "handle_svc_gate th k = Inr (sw, k') \<Longrightarrow> view k' = view k"
  by (auto simp: handle_svc_gate_def gate_wake_def Let_def view_gate_wait view_tick split: if_splits)

lemma view_set_table:
  "set_l1 i e k = Inr k' \<Longrightarrow> view k' = view k"
  "set_l2 i e k = Inr k' \<Longrightarrow> view k' = view k"
  "set_l3 i e k = Inr k' \<Longrightarrow> view k' = view k"
  by (auto simp: set_l1_def set_l2_def set_l3_def split: if_splits)

lemma view_map_vmb: "map_vmb vmb cmb fa k = Inr k' \<Longrightarrow> view k' = view k"
  by (auto simp: map_vmb_def Let_def view_set_table elim!: rbind_InrE split: if_splits)

lemma view_find_and_map: "find_and_map_memory th fa k = Inr (b, k') \<Longrightarrow> view k' = view k"
  by (auto simp: find_and_map_memory_def view_map_vmb elim!: rbind_InrE split: if_splits option.splits)

lemma view_writable: "address_is_user_writable th fa k = Inr (b, k') \<Longrightarrow> view k' = view k"
  by (auto simp: address_is_user_writable_def view_find_and_map elim!: rbind_InrE split: if_splits)

lemma view_block_on_lock: "block_on_lock th x17 v k = Inr k' \<Longrightarrow> view k' = view k"
  by (auto simp: block_on_lock_def Let_def elim!: rbind_InrE split: if_splits
      dest!: view_remove view_insert_head view_insert_tail)

lemma view_wait_loop: "wait_for_lock_loop [] now th x17 x18 k = Inr (sw, k') \<Longrightarrow> view k' = view k"
  by (auto simp: wait_for_lock_loop.simps [of "[]"] Let_def elim!: rbind_InrE split: if_splits
      dest!: view_remove view_insert_head view_block_on_lock view_write(1))

lemma view_wait: "handle_svc_wait_for_lock th k = Inr (sw, k') \<Longrightarrow> view k' = view k"
  by (auto simp: handle_svc_wait_for_lock_def handle_svc_wait_for_lock_under_def Let_def elim!: rbind_InrE
      split: if_splits dest!: view_writable view_wait_loop)

lemma view_hand_over: "hand_over_lock c k = Inr (v, t, k') \<Longrightarrow> view k' = view k"
  by (auto simp: hand_over_lock_def Let_def elim!: rbind_InrE split: if_splits
      dest!: view_remove view_insert_head)

lemma view_release: "handle_svc_release_lock th k = Inr (sw, k') \<Longrightarrow> view k' = view k"
  by (auto simp: handle_svc_release_lock_def Let_def elim!: rbind_InrE
      split: if_splits dest!: view_writable view_hand_over view_write(1))

lemma view_obtain: "obtain_interface k = Inr (e, k') \<Longrightarrow> view k' = view k"
  by (auto simp: obtain_interface_def Let_def elim!: rbind_InrE split: if_splits option.splits)

lemma view_heap_loops:
  "read_heap_loop n s d k = Inr k' \<Longrightarrow> view k' = view k"
  "write_heap_loop n d s k = Inr k' \<Longrightarrow> view k' = view k"
  by (induction n arbitrary: s d k) (auto simp: view_write elim!: rbind_InrE)

lemma view_for_each:
  assumes "for_each f xs k = Inr k'" and "\<And>x k k'. f x k = Inr k' \<Longrightarrow> view k' = view k"
  shows "view k' = view k"
  using assms(1) by (induction xs arbitrary: k) (auto elim!: rbind_InrE dest: assms(2))

lemma view_allocate: "allocate_heap sz k = (p, k') \<Longrightarrow> view k' = view k"
  by (auto simp: allocate_heap_def allocate_heap_under_def Let_def)

lemma view_initialise [simp]: "view (initialise_new_thread t k) = view k"
  by (simp add: initialise_new_thread_def view_upd_thread)

lemma view_requests:
  "request_add_device_page th k = Inr (sw, k') \<Longrightarrow> view k' = view k"
  "request_updated_map th k = Inr (sw, k') \<Longrightarrow> view k' = view k"
  "request_read_interface th k = Inr (sw, k') \<Longrightarrow> view k' = view k"
  "request_read_heap th k = Inr (sw, k') \<Longrightarrow> view k' = view k"
  "request_write_heap th k = Inr (sw, k') \<Longrightarrow> view k' = view k"
  "request_allocate_heap th k = Inr (sw, k') \<Longrightarrow> view k' = view k"
  "request_free_heap th k = Inr (sw, k') \<Longrightarrow> view k' = view k"
  "request_set_interrupt_thread th k = Inr (sw, k') \<Longrightarrow> view k' = view k"
  subgoal by (auto simp: request_add_device_page_def Let_def split: if_splits)
  subgoal
    by (auto simp: request_updated_map_def elim!: rbind_InrE dest!: view_for_each
        intro: view_set_table(3) split: if_splits)
  subgoal by (auto simp: request_read_interface_def elim!: rbind_InrE split: option.splits)
  subgoal
    by (auto simp: request_read_heap_def read_heap_def view_heap_loops elim!: rbind_InrE split: if_splits)
  subgoal
    by (auto simp: request_write_heap_def write_heap_def view_heap_loops elim!: rbind_InrE split: if_splits)
  subgoal by (auto simp: request_allocate_heap_def view_allocate Let_def split: prod.splits)
  subgoal by (auto simp: request_free_heap_def free_heap_def elim!: rbind_InrE split: if_splits)
  subgoal
    by (auto simp: request_set_interrupt_thread_def Let_def view_upd_thread elim!: rbind_InrE split: if_splits
        dest!: view_remove)
  done

lemma view_partner_calls:
  "svc_switch_to_partner th k = Inr (sw, k') \<Longrightarrow> view k' = view k"
  "svc_get_partner_reg th k = Inr (sw, k') \<Longrightarrow> view k' = view k"
  "svc_set_partner_reg th k = Inr (sw, k') \<Longrightarrow> view k' = view k"
  "svc_change_vm_system_register th k = Inr (sw, k') \<Longrightarrow> view k' = view k"
  "svc_yield th k = Inr (sw, k') \<Longrightarrow> view k' = view k"
  subgoal by (auto simp: svc_switch_to_partner_def Let_def view_upd_thread split: if_splits)
  subgoal by (auto simp: svc_get_partner_reg_def Let_def split: if_splits)
  subgoal by (auto simp: svc_set_partner_reg_def Let_def view_upd_thread set_partner_reg_def split: if_splits)
  subgoal by (auto simp: svc_change_vm_system_register_def Let_def split: if_splits)
  subgoal by (auto simp: svc_yield_def Let_def split: if_splits)
  done

lemma view_physical_address_of: "call_physical_address_of th k = Inr (sw, k') \<Longrightarrow> view k' = view k"
  by (auto simp: call_physical_address_of_def Let_def elim!: rbind_InrE split: if_splits
      dest!: view_find_and_map)

end

section \<open>The maps of the threads\<close>

definition maps_view :: "kernel \<Rightarrow> u32 \<times> (u64 \<Rightarrow> u32)" where
  "maps_view k = (loaded_map k, \<lambda>u. current_map (threads k u))"

interpretation maps: kernel_view maps_view
  by unfold_locales (auto simp: maps_view_def upd_thread_def)

lemma maps_viewD:
  "maps_view k' = maps_view k \<Longrightarrow>
     loaded_map k' = loaded_map k \<and> current_map (threads k' u) = current_map (threads k u)"
  by (auto simp: maps_view_def fun_eq_iff)

lemma maps_set_interface [simp]: "maps_view (set_interface i e k) = maps_view k"
  by (simp add: maps_view_def set_interface_def)

lemma maps_interface_calls:
  "handle_svc_duplicate_to_return th k = Inr (sw, k') \<Longrightarrow> maps_view k' = maps_view k"
  "handle_svc_duplicate_to_pass_to th k = Inr (sw, k') \<Longrightarrow> maps_view k' = maps_view k"
  "handle_svc_interface_to_pass_to th k = Inr (sw, k') \<Longrightarrow> maps_view k' = maps_view k"
  "handle_svc_interface_to_return th k = Inr (sw, k') \<Longrightarrow> maps_view k' = maps_view k"
  "request_create_map th k = Inr (sw, k') \<Longrightarrow> maps_view k' = maps_view k"
  by (auto simp: handle_svc_duplicate_to_return_def handle_svc_duplicate_to_pass_to_def
      handle_svc_interface_to_pass_to_def handle_svc_interface_to_return_def new_interface_def
      request_create_map_def Let_def
      elim!: rbind_InrE split: option.splits if_splits dest!: maps.view_obtain)

text \<open>The thread that entered the kernel is the one the handlers report as left.\<close>

lemma then_is_caller:
  assumes "handle_svc th n k = Inr (sw, k')"
  shows "sw_then sw = th"
proof -
  have "sw_then sw = th" if "wait_for_lock_loop [] now th x17 x18 k1 = Inr (sw, k')" for now x17 x18 k1
    using that by (auto simp: wait_for_lock_loop.simps [of "[]"] Let_def elim!: rbind_InrE split: if_splits)
  moreover have "sw_then sw = th" if "request_body th k = Inr (sw, k1)" for k1
    using that
    by (auto simp: request_body_def request_add_device_page_def request_updated_map_def
        request_read_interface_def request_read_heap_def request_write_heap_def request_allocate_heap_def
        request_free_heap_def request_set_interrupt_thread_def request_create_thread_def
        request_make_partner_def Let_def
        elim!: rbind_InrE split: if_splits option.splits special_request.splits prod.splits)
  ultimately show ?thesis
    using assms
    by (auto simp: handle_svc_def handle_svc_gate_def gate_tick_def gate_wait_def gate_wake_def
        handle_svc_duplicate_to_return_def handle_svc_duplicate_to_pass_to_def
        handle_svc_interface_to_pass_to_def handle_svc_interface_to_return_def new_interface_def
        handle_svc_wait_for_lock_def handle_svc_wait_for_lock_under_def handle_svc_release_lock_def
        svc_yield_def svc_exception_def svc_return_def svc_call_def call_physical_address_of_def
        enter_provider_def thread_stack_is_full_def svc_switch_to_partner_def svc_get_partner_reg_def
        svc_set_partner_reg_def svc_change_vm_system_register_def system_driver_request_def
        request_create_map_def Let_def
        elim!: rbind_InrE split: if_splits option.splits prod.splits)
qed

text \<open>After an operation on behalf of \<^verbatim>\<open>th\<close>, the loaded map is still that of \<^verbatim>\<open>th\<close> or already that of
  the thread to run.\<close>

definition settled :: "u64 \<Rightarrow> thread_switch \<Rightarrow> kernel \<Rightarrow> bool" where
  "settled th sw k \<longleftrightarrow> loaded_map k \<in> {current_map (threads k th), current_map (threads k (sw_now sw))}"

lemma maps_view_settled:
  "loaded_map k = current_map (threads k th) \<Longrightarrow> maps_view k' = maps_view k \<Longrightarrow> settled th sw k'"
  by (metis insert_iff maps_viewD settled_def)

text \<open>A thread of the heap is not the block that the next allocation returns.\<close>

lemma allocate_heap_fresh:
  assumes "heap_thread k th" and "0 < unat (round_up_32 sz)" and "unat (round_up_32 sz) \<le> unat (kernel_heap_bottom k)"
    and a: "allocate_heap sz k = (p, k')"
  shows "p \<noteq> th"
proof -
  have "unat (p - start_address) < unat (kernel_heap_bottom k)"
    using allocate_heap_under_block(1) [of "[]" sz k p k'] assms by (simp add: allocate_heap_def seen_bottom_def)
  moreover have "unat (th - start_address) \<ge> unat (kernel_heap_bottom k)"
  proof -
    have t: "th - start_address < 2 ^ 32" "th \<noteq> 0"
      using assms(1) kernel_pointer_offset(1) by (auto simp: heap_thread_def kernel_pointer_def)
    have "(ucast (thread_code th) :: u64) = th - start_address"
      using ucast_ucast_u32 [OF t(1)] t(2) by (simp add: thread_code_def)
    then have "unat (thread_code th) = unat (th - start_address)" by (metis unat_ucast_u32_u64)
    then show ?thesis using assms(1) by (simp add: heap_thread_def could_be_in_heap_def word_le_nat_alt)
  qed
  ultimately show "p \<noteq> th" by auto
qed

text \<open>The state in which a request may allocate: the thread is in the heap and a context fits below it.\<close>

definition room_for_threads :: "kernel \<Rightarrow> u64 \<Rightarrow> bool" where
  "room_for_threads k th \<longleftrightarrow> heap_thread k th \<and> 1024 \<le> unat (kernel_heap_bottom k)"

lemma round_sizes:
  "unat (round_up_32 sizeof_thread_context) = 512"
  "unat (round_up_32 (sizeof_thread_context + sizeof_vm_state)) = 640"
  by (simp_all add: round_up_32_unat sizeof_thread_context_def sizeof_vm_state_def)

lemma create_thread_maps:
  assumes r: "request_create_thread th k = Inr (sw, k')" and room: "room_for_threads k th"
  shows "loaded_map k' = loaded_map k \<and> current_map (threads k' th) = current_map (threads k th)"
proof -
  obtain p k1 where a: "allocate_heap sizeof_thread_context k = (p, k1)" by fastforce
  have p: "p \<noteq> th"
    using allocate_heap_fresh [OF _ _ _ a] room by (simp add: room_for_threads_def round_sizes)
  have v: "maps_view k1 = maps_view k" by (rule maps.view_allocate [OF a])
  note i = maps_viewD [OF maps.view_insert_head]
  show ?thesis
    using r p maps_viewD [OF v]
    by (auto simp: request_create_thread_def a Let_def set_reg_def initialise_new_thread_def
        elim!: rbind_InrE split: if_splits dest!: i)
qed

lemma make_partner_maps:
  assumes r: "request_make_partner th k = Inr (sw, k')" and room: "room_for_threads k th"
  shows "loaded_map k' = loaded_map k \<and> current_map (threads k' th) = current_map (threads k th)"
proof -
  obtain p k1 where a: "allocate_heap (sizeof_thread_context + sizeof_vm_state) k = (p, k1)" by fastforce
  have p: "p \<noteq> th"
    using allocate_heap_fresh [OF _ _ _ a] room by (simp add: room_for_threads_def round_sizes)
  have v: "maps_view k1 = maps_view k" by (rule maps.view_allocate [OF a])
  show ?thesis
    using r p maps_viewD [OF v]
    by (auto simp: request_make_partner_def a Let_def initialise_new_thread_def elim!: rbind_InrE split: if_splits)
qed

lemma request_body_maps:
  assumes r: "request_body th k = Inr (sw, k')" and room: "room_for_threads k th"
  shows "loaded_map k' = loaded_map k \<and> current_map (threads k' th) = current_map (threads k th)"
  using r create_thread_maps [OF _ room, of sw k'] make_partner_maps [OF _ room, of sw k']
  by (auto simp: request_body_def split: option.splits special_request.splits
      dest!: maps.view_requests [THEN maps_viewD [where u = th]])

lemma change_map_loaded:
  "change_map t m k = Inr k' \<Longrightarrow> loaded_map k' = m \<and> current_map (threads k' t) = m"
  using change_map_threads(1,2) by simp

lemma system_driver_request_settled:
  assumes r: "system_driver_request th k = Inr (sw, k')" and room: "room_for_threads k th"
    and l: "loaded_map k = current_map (threads k th)"
  shows "settled th sw k'"
proof (cases "special_request_of (reg k th 0) = Some CreateMap")
  case True
  then have "request_create_map th k = Inr (sw, k')" using r by (simp add: system_driver_request_def)
  then show ?thesis by (rule maps_view_settled [OF l maps_interface_calls(5)])
next
  case False
  then obtain k1 where k1: "request_body th k = Inr (sw, k1)"
    and c: "change_map (sw_now sw) (current_map (threads k1 (sw_now sw))) k1 = Inr k' \<or> k' = k1"
    using r by (auto simp: system_driver_request_def elim!: rbind_InrE split: if_splits)
  show ?thesis
    using c request_body_maps [OF k1 room] l change_map_threads(1,2) by (auto simp: settled_def)
qed

section \<open>The kernel entry\<close>

lemma pop_frame_loaded:
  assumes "pop_frame th k = Inr k'" and "loaded_map k = current_map (threads k th)"
  shows "loaded_map k' = current_map (threads k' th)"
  using assms by (auto simp: pop_frame_def Let_def elim!: rbind_InrE split: if_splits
      dest!: change_map_loaded)

lemma svc_call_settled:
  assumes "svc_call th k = Inr (sw, k')" and l: "loaded_map k = current_map (threads k th)"
  shows "settled th sw k'"
proof -
  have "settled th sw k'" if "enter_provider th i k = Inr (sw, k')" for i
    using enter_provider_Inr [OF that] l by (simp add: settled_def)
  then show ?thesis
    using assms maps_view_settled [OF l maps.view_physical_address_of]
    by (auto simp: svc_call_def elim!: rbind_InrE split: if_splits option.splits)
qed

lemma handle_svc_settled:
  assumes r: "handle_svc th n k = Inr (sw, k')" and room: "room_for_threads k th"
    and l: "loaded_map k = current_map (threads k th)"
  shows "settled th sw k'"
proof -
  have ret: "settled th sw k'" if "svc_return th k = Inr (sw, k')"
    using that pop_frame_loaded [OF _ l] by (auto simp: svc_return_def settled_def elim!: rbind_InrE)
  have exc: "svc_exception th k \<noteq> Inr (sw, k')"
    by (auto simp: svc_exception_def Let_def elim!: rbind_InrE)
  have "maps_view k' = maps_view k \<or> svc_return th k = Inr (sw, k')
        \<or> svc_call th k = Inr (sw, k') \<or> system_driver_request th k = Inr (sw, k')"
    using r exc
    by (auto simp: handle_svc_def split: if_splits
        dest: maps.view_gate maps_interface_calls maps.view_wait maps.view_release maps.view_partner_calls)
  then show ?thesis
    using maps_view_settled [OF l] ret svc_call_settled [OF _ l] system_driver_request_settled [OF _ room l]
    by blast
qed

lemma sync_runs_on_own_map:
  assumes r: "SEL1_LOWER_AARCH64_SYNC_CODE esr far th k = Inr (sw, k')" and room: "room_for_threads k th"
    and l: "loaded_map k = current_map (threads k th)"
  shows "loaded_map k' = current_map (threads k' (sw_now sw)) \<and> runnable k' = sw_now sw \<and> sw_then sw = th"
proof -
  obtain k1 where k1: "SEL1_LOWER_AARCH64_SYNC_CODE_may_change_map esr far th k = Inr (sw, k1)"
    and k2: "(if current_map (threads k1 (sw_now sw)) \<noteq> current_map (threads k1 (sw_then sw))
        then change_map (sw_now sw) (current_map (threads k1 (sw_now sw))) k1 else Inr k1) = Inr k'"
    and e: "runnable k' = sw_now sw"
    using r by (fastforce simp: SEL1_LOWER_AARCH64_SYNC_CODE_def elim!: rbind_InrE split: if_splits)
  have "settled th sw k1 \<and> sw_then sw = th"
    using k1 handle_svc_settled [OF _ room l] then_is_caller maps_view_settled [OF l] maps.view_find_and_map
    by (fastforce simp: SEL1_LOWER_AARCH64_SYNC_CODE_may_change_map_def Let_def elim!: rbind_InrE
        split: if_splits)
  then show ?thesis
    using k2 e by (auto simp: settled_def split: if_splits dest!: change_map_loaded)
qed

lemma irq_runs_on_own_map:
  assumes r: "SEL1_LOWER_AARCH64_IRQ_CODE th k = Inr (sw, k')"
    and l: "loaded_map k = current_map (threads k th)"
  shows "loaded_map k' = current_map (threads k' (sw_now sw)) \<and> runnable k' = sw_now sw
     \<and> sw = \<lparr>sw_then = th, sw_now = interrupt_thread k\<rparr>"
  using r l
  by (auto simp: SEL1_LOWER_AARCH64_IRQ_CODE_def Let_def elim!: rbind_InrE split: if_splits
      dest!: change_map_loaded maps.view_insert_head [THEN maps_viewD [where u = th]])

section \<open>Interfaces are not forged\<close>

interpretation table: kernel_view interfaces
  by unfold_locales (auto simp: upd_thread_def)

text \<open>What may become of the table on behalf of a map \<^verbatim>\<open>m\<close>: at most one entry is new, and it is provided
  by \<^verbatim>\<open>m\<close> or is, but for its user, a copy of an entry that \<^verbatim>\<open>m\<close> may use.\<close>

definition legitimate :: "u32 \<Rightarrow> (nat \<Rightarrow> Interface) \<Rightarrow> Interface \<Rightarrow> bool" where
  "legitimate m tab e \<longleftrightarrow> provider e = m
     \<or> (\<exists>j. user (tab j) = m \<and> provider e = provider (tab j) \<and> handler e = handler (tab j) \<and> object e = object (tab j))"

definition table_step :: "u32 \<Rightarrow> kernel \<Rightarrow> kernel \<Rightarrow> bool" where
  "table_step m k k' \<longleftrightarrow> interfaces k' = interfaces k
     \<or> (\<exists>i e. interfaces k' = (interfaces k)(i := e) \<and> legitimate m (interfaces k) e
          \<and> unat (kernel_free_interface k) = i \<and> free_marker_of (interfaces k i) = free_marker)"

lemma obtain_interface_entry:
  assumes "obtain_interface k = Inr (i, k')"
  shows "unat (kernel_free_interface k) = i \<and> free_marker_of (interfaces k i) = free_marker
     \<and> interfaces k' = interfaces k \<and> threads k' = threads k"
  using assms
  by (auto simp: obtain_interface_def Let_def interface_from_index_def interface_at_def elim!: rbind_InrE
      split: if_splits option.splits)

lemma interface_calls_step:
  "handle_svc_duplicate_to_return th k = Inr (sw, k') \<Longrightarrow> table_step (current_map (threads k th)) k k'"
  "handle_svc_duplicate_to_pass_to th k = Inr (sw, k') \<Longrightarrow> table_step (current_map (threads k th)) k k'"
  "handle_svc_interface_to_pass_to th k = Inr (sw, k') \<Longrightarrow> table_step (current_map (threads k th)) k k'"
  "handle_svc_interface_to_return th k = Inr (sw, k') \<Longrightarrow> table_step (current_map (threads k th)) k k'"
  "request_create_map th k = Inr (sw, k') \<Longrightarrow> table_step (current_map (threads k th)) k k'"
  by (fastforce simp: handle_svc_duplicate_to_return_def handle_svc_duplicate_to_pass_to_def
      handle_svc_interface_to_pass_to_def handle_svc_interface_to_return_def new_interface_def
      request_create_map_def Let_def interface_at_def set_interface_def set_reg_def table_step_def legitimate_def
      elim!: rbind_InrE split: option.splits if_splits dest!: obtain_interface_entry)+

lemma table_step_same: "interfaces k' = interfaces k \<Longrightarrow> table_step m k k'"
  by (simp add: table_step_def)

lemma map_changes_interfaces:
  "pop_frame th k = Inr k1 \<Longrightarrow> interfaces k1 = interfaces k"
  "enter_provider th e k = Inr (sw, k1) \<Longrightarrow> interfaces k1 = interfaces k"
  "request_create_thread th k = Inr (sw, k1) \<Longrightarrow> interfaces k1 = interfaces k"
  "request_make_partner th k = Inr (sw, k1) \<Longrightarrow> interfaces k1 = interfaces k"
  subgoal by (auto simp: pop_frame_def Let_def elim!: rbind_InrE split: if_splits dest!: change_map_threads(3))
  subgoal
    by (auto simp: enter_provider_def Let_def thread_stack_is_full_def set_reg_def
        elim!: rbind_InrE split: if_splits dest!: change_map_threads(3))
  subgoal
    by (auto simp: request_create_thread_def Let_def elim!: rbind_InrE split: if_splits prod.splits
        dest!: table.view_allocate table.view_insert_head)
  subgoal
    by (auto simp: request_make_partner_def Let_def elim!: rbind_InrE split: if_splits prod.splits
        dest!: table.view_allocate)
  done

lemma system_driver_request_step:
  assumes "system_driver_request th k = Inr (sw, k')"
  shows "table_step (current_map (threads k th)) k k'"
proof (cases "special_request_of (reg k th 0) = Some CreateMap")
  case True
  then show ?thesis using assms interface_calls_step(5) by (simp add: system_driver_request_def)
next
  case False
  then obtain k1 where k1: "request_body th k = Inr (sw, k1)"
    and c: "change_map (sw_now sw) (current_map (threads k1 (sw_now sw))) k1 = Inr k' \<or> k' = k1"
    using assms by (auto simp: system_driver_request_def elim!: rbind_InrE split: if_splits)
  have "interfaces k1 = interfaces k"
    using k1 by (auto simp: request_body_def split: option.splits special_request.splits
        dest: table.view_requests map_changes_interfaces(3,4))
  then show ?thesis using c change_map_threads(3) by (auto intro: table_step_same)
qed

lemma handle_svc_table_step:
  assumes "handle_svc th n k = Inr (sw, k')"
  shows "table_step (current_map (threads k th)) k k'"
proof -
  have "interfaces k' = interfaces k" if "svc_return th k = Inr (sw, k')"
    using that by (auto simp: svc_return_def elim!: rbind_InrE dest!: map_changes_interfaces(1))
  moreover have "interfaces k' = interfaces k" if "svc_call th k = Inr (sw, k')"
    using that by (auto simp: svc_call_def elim!: rbind_InrE split: if_splits option.splits
        dest: map_changes_interfaces(2) table.view_physical_address_of)
  moreover have "svc_exception th k \<noteq> Inr (sw, k')"
    by (auto simp: svc_exception_def Let_def elim!: rbind_InrE)
  ultimately show ?thesis
    using assms interface_calls_step [of th k sw k'] system_driver_request_step [of th k sw k']
    by (auto simp: handle_svc_def split: if_splits intro: table_step_same
        dest: table.view_gate table.view_wait table.view_release table.view_partner_calls)
qed

end
