(* ===== verification/Kernel_Properties.thy ===== *)
theory Kernel_Properties
  imports Isolation
begin

text \<open>
  The properties of the kernel, stated over the handlers of the previous theories, and a small concrete
  state in which each of them is exercised: three threads of one map in a ring, with the first gigabyte of
  user addresses mapped to itself.
\<close>

section \<open>A concrete state\<close>

definition T1 :: u64 where "T1 = 0xfffffffffe1fe000"
definition T2 :: u64 where "T2 = 0xfffffffffe1fe200"
definition T3 :: u64 where "T3 = 0xfffffffffe1fe400"

definition sample_lock :: u64 where "sample_lock = 0x8000"

definition sample_thread :: "u64 \<Rightarrow> thread_context" where
  "sample_thread t =
    \<lparr>t_next = (if t = T1 then T2 else if t = T2 then T3 else if t = T3 then T1 else t),
     t_prev = (if t = T1 then T3 else if t = T2 then T1 else if t = T3 then T2 else t),
     t_list = Null_list, partner = 0,
     regs = (\<lambda>i. if i = 18 then ucast (thread_code t) else if i = 17 then sample_lock else 0),
     t_sp = 0, t_pc = 0, spsr = 0, gate = 0, current_core = 0, current_map = 3, t_fp = 0,
     stack_pointer = 5, stack_limit = 0, stack = (\<lambda>_. initial_frame)\<rparr>"

definition sample_kernel :: kernel where
  "sample_kernel =
    \<lparr>system_thread_stack = (\<lambda>_. 0), core_tt_l3 = (\<lambda>_. 0), core_tt_l2 = (\<lambda>_. 0),
     core_tt_l1 = (\<lambda>i. if i = 0 then physical_block_entry 0 else 0), core_number = 0, loaded_map = 3,
     interrupt_thread = 0, blocked_with_timeout = 0, physical_address = 0x100000, runnable = T1,
     core_address = 0xfffffffffe400000, threads = sample_thread, sysregs = (\<lambda>_ _. 0),
     interfaces = (\<lambda>i. \<lparr>user = 3, provider = 4, handler = 0x1000, object = 7\<rparr>),
     blocked = 0, heap_words = (\<lambda>_. 0),
     kernel_tt_l3 = (\<lambda>_. 3), kernel_heap_top = 0x200000, kernel_heap_bottom = 0x1fe000,
     kernel_interfaces_offset = 0, kernel_free_interface = 0, kernel_last_interface = 512,
     shared_system_map = (\<lambda>_. 0), shared_system_map_core_page = 0, shared_system_map_mapped_pages = 1,
     sp_el0 = 0x4000, ttbr0_el1 = 0,
     phys_mem = (\<lambda>a. if a = sample_lock then lock_word T3 [] else 0),
     drivers = (\<lambda>_. \<lparr>code_pages = 0, data_pages = 0, drv_start = 0, drv_end = 0\<rparr>), number_of_drivers = 0\<rparr>"

lemmas sample_defs = T1_def T2_def T3_def sample_lock_def sample_thread_def sample_kernel_def

lemma sample_fields [simp]:
  "threads sample_kernel = sample_thread" "runnable sample_kernel = T1" "loaded_map sample_kernel = 3"
  "kernel_last_interface sample_kernel = 512" "kernel_heap_bottom sample_kernel = 0x1fe000"
  "kernel_heap_top sample_kernel = 0x200000" "sp_el0 sample_kernel = 0x4000" "blocked sample_kernel = 0"
  "interfaces sample_kernel i = \<lparr>user = 3, provider = 4, handler = 0x1000, object = 7\<rparr>"
  "blocked_with_timeout sample_kernel = 0" "blocked_with_timeout_address sample_kernel = 0xfffffffffe4030a0"
  "phys_mem sample_kernel = (\<lambda>a. if a = sample_lock then lock_word T3 [] else 0)"
  "interrupt_thread sample_kernel = 0" "kernel_tt_l3 sample_kernel = (\<lambda>_. 3)"
  by (simp_all add: sample_kernel_def blocked_with_timeout_address_def)

lemma sample_codes [simp]:
  "thread_code T1 = 0x1fe000" "thread_code T2 = 0x1fe200" "thread_code T3 = 0x1fe400"
  "kernel_pointer T1" "kernel_pointer T2" "kernel_pointer T3"
  "T1 \<noteq> T2" "T2 \<noteq> T3" "T1 \<noteq> T3" "T2 \<noteq> T1" "T3 \<noteq> T2" "T3 \<noteq> T1" "T1 \<noteq> 0" "T2 \<noteq> 0" "T3 \<noteq> 0"
  by (simp_all add: sample_defs thread_code_def kernel_pointer_def start_address_def)

lemma sample_thread_fields [simp]:
  "current_map (sample_thread t) = 3" "gate (sample_thread t) = 0" "t_list (sample_thread t) = Null_list"
  "stack_pointer (sample_thread t) = 5" "t_pc (sample_thread t) = 0" "stack_limit (sample_thread t) = 0" "stack (sample_thread t) i = initial_frame"
  "regs (sample_thread t) i = (if i = 18 then ucast (thread_code t) else if i = 17 then sample_lock else 0)"
  by (simp_all add: sample_thread_def)

lemma sample_ring: "ring sample_thread [T1, T2, T3]"
  by (simp add: sample_thread_def)

lemma sample_heap_threads [simp]:
  "heap_thread sample_kernel T1" "heap_thread sample_kernel T2" "heap_thread sample_kernel T3"
  by (simp_all add: heap_thread_def could_be_in_heap_def sizeof_thread_context_def)

lemma sample_translate:
  assumes "unat va < 2 ^ 30"
  shows "translate sample_kernel va = Some (va, physical_block_entry 0)"
proof -
  have "index_l1 va = 0"
    using assms by (simp add: index_l1_def get_field_def unsigned_take_bit_eq unsigned_drop_bit_eq drop_bit_eq_div unat_div)
  then show ?thesis
    using allocator_map_identity [of va sample_kernel] assms by (simp add: sample_kernel_def)
qed

section \<open>Threads\<close>

text \<open>C7. The queue operations of the doubly linked lists implement a sequence: inserting at the tail
  appends, inserting as head prepends, removing an element takes it out of its place, and counting gives
  the length.\<close>

theorem dll_implements_sequences:
  assumes "queue k r xs" and "is_head r" and "new \<notin> set xs" and "new \<noteq> 0"
  shows "(\<exists>k'. insert_thread_at_tail r new k = Inr k' \<and> queue k' r (xs @ [new]))
    \<and> (\<exists>k'. insert_thread_as_head r new k = Inr k' \<and> queue k' r (new # xs))
    \<and> (\<forall>as e bs. xs = as @ e # bs \<longrightarrow> t_list (threads k e) = r \<longrightarrow>
           (\<exists>k'. remove_thread e k = Inr k' \<and> queue k' r (as @ bs)))
    \<and> (xs \<noteq> [] \<longrightarrow> count_thread_entries k (hd xs) = Some (length xs))"
proof (intro conjI allI impI)
  show "\<exists>k'. insert_thread_at_tail r new k = Inr k' \<and> queue k' r (xs @ [new])"
    by (rule queue_insert_tail [OF assms]) blast
  show "\<exists>k'. insert_thread_as_head r new k = Inr k' \<and> queue k' r (new # xs)"
    by (rule queue_insert_head [OF assms]) blast
  show "\<exists>k'. remove_thread e k = Inr k' \<and> queue k' r (as @ bs)"
    if "xs = as @ e # bs" "t_list (threads k e) = r" for as e bs
    using assms(1) that by (auto intro: queue_remove [OF _ assms(2), of k as e bs])
  show "count_thread_entries k (hd xs) = Some (length xs)" if "xs \<noteq> []"
    using assms(1) that count_ring [of k "hd xs" "tl xs"] by (simp add: queue_def)
qed

theorem dll_implements_sequences_witness:
  "\<exists>k'. insert_thread_as_head Runnable_list 0xfffffffffe1fe600 sample_kernel = Inr k'
     \<and> queue k' Runnable_list [0xfffffffffe1fe600, T1, T2, T3]"
proof -
  have "queue sample_kernel Runnable_list [T1, T2, T3]" "is_head Runnable_list"
    using sample_ring by (simp_all add: queue_def deref_list_def is_head_def del: ring.simps)
  moreover have "(0xfffffffffe1fe600 :: u64) \<notin> set [T1, T2, T3]" by (simp add: T1_def T2_def T3_def)
  ultimately show ?thesis using dll_implements_sequences [of sample_kernel Runnable_list] by simp
qed

text \<open>The thread that runs yields \<^verbatim>\<open>n\<close> times in a row, whichever thread that is.\<close>

fun yields :: "nat \<Rightarrow> kernel \<Rightarrow> kernel result" where
  "yields 0 k = Inr k"
| "yields (Suc n) k = rbind (svc_yield (runnable k) k) (\<lambda>(_, k). yields n k)"

lemma yields_rotate:
  "ring (threads k) (xs @ ys) \<Longrightarrow> runnable k = hd (xs @ ys) \<Longrightarrow> ys \<noteq> [] \<Longrightarrow>
     \<exists>k'. yields (length xs) k = Inr k' \<and> ring (threads k') (ys @ xs) \<and> runnable k' = hd ys"
proof (induction xs arbitrary: k ys)
  case Nil
  then show ?case by simp
next
  case (Cons x xs)
  obtain z zs where z: "xs @ ys = z # zs" using Cons.prems(3) by (cases "xs @ ys") auto
  obtain k1 where k1: "svc_yield x k = Inr (\<lparr>sw_then = x, sw_now = z\<rparr>, k1)"
      "ring (threads k1) (z # zs @ [x])" "runnable k1 = z"
    using svc_yield_rotates [of k x z zs] Cons.prems(1) z by auto
  have "ring (threads k1) (xs @ ys @ [x])" "runnable k1 = hd (xs @ ys @ [x])"
    using k1(2,3) z by (metis append_Cons append_assoc, metis append_Cons append_assoc list.sel(1))
  then obtain k' where "yields (length xs) k1 = Inr k'" "ring (threads k') ((ys @ [x]) @ xs)" "runnable k' = hd (ys @ [x])"
    using Cons.IH [of k1 "ys @ [x]"] by auto
  then show ?case using k1(1) Cons.prems(2,3) by (auto simp: hd_append)
qed

text \<open>C14. Yielding is round robin: in a ring of runnable threads, after each of the threads
  \<^verbatim>\<open>xs\<close> at the front has yielded once, the next thread runs and they stand at the back in the same
  order; no thread is lost or overtaken.\<close>

theorem yield_is_round_robin:
  assumes "ring (threads k) (xs @ ys)" and "runnable k = hd (xs @ ys)" and "ys \<noteq> []"
  shows "\<exists>k'. yields (length xs) k = Inr k' \<and> ring (threads k') (ys @ xs) \<and> runnable k' = hd ys"
  using yields_rotate [OF assms] .

theorem yield_is_round_robin_witness:
  "\<exists>k'. yields 2 sample_kernel = Inr k' \<and> ring (threads k') [T3, T1, T2] \<and> runnable k' = T3"
  using yield_is_round_robin [of sample_kernel "[T1, T2]" "[T3]"] sample_ring
  by (simp add: numeral_2_eq_2 del: yields.simps ring.simps)

section \<open>Locks\<close>

text \<open>C4. Locks are fair: when the threads \<^verbatim>\<open>ts\<close> wait one after the other for a lock held by
  \<^verbatim>\<open>owner\<close> and every holder releases it, each wait and each release succeeds, the lock passes to the
  waiting threads in the order in which they asked (those already queued first), all of them are
  runnable again and the last one owns the lock with no thread waiting.\<close>

theorem lock_is_fair:
  assumes "lock_state va k (ts @ owner # rest) owner qs" and "owner \<notin> set ts"
  shows "\<exists>k1 k2. kernel_lock.wait_all ts k = Inr k1 \<and> lock_state va k1 (owner # rest) owner (qs @ ts)
     \<and> kernel_lock.release_all owner (qs @ ts) k1 = Inr k2
     \<and> lock_state va k2 (rev (qs @ ts) @ owner # rest) (last (owner # qs @ ts)) []"
proof -
  obtain k1 where k1: "kernel_lock.wait_all ts k = Inr k1" "lock_state va k1 (owner # rest) owner (qs @ ts)"
    using kernel_lock.wait_all_rep [OF assms] by blast
  then show ?thesis using kernel_lock.release_all_rep [OF k1(2)] by blast
qed

lemma sample_lock_state: "lock_state sample_lock sample_kernel [T1, T2, T3] T3 []"
proof -
  have v: "unat sample_lock < 2 ^ 30" by (simp add: sample_lock_def)
  have w: "writable_by_el0 (physical_block_entry 0)" by (rule physical_block_facts(3))
  have "lock_rep sample_kernel sample_lock T3 []"
    using w by (simp add: lock_rep_def sample_translate [OF v])
  moreover have "null_owner_ok sample_kernel sample_lock"
    using v by (simp add: null_owner_ok_def sample_translate)
      (simp add: sample_lock_def kernel_pointer_def start_address_def)
  ultimately show ?thesis using sample_ring by (simp del: ring.simps add: lock_state_def lock_client_def)
qed

theorem lock_is_fair_witness:
  "\<exists>k1 k2. kernel_lock.wait_all [T1, T2] sample_kernel = Inr k1
     \<and> lock_state sample_lock k1 [T3] T3 [T1, T2]
     \<and> kernel_lock.release_all T3 [T1, T2] k1 = Inr k2
     \<and> lock_state sample_lock k2 [T2, T1, T3] T2 []"
  using lock_is_fair [of sample_lock sample_kernel "[T1, T2]" T3 "[]" "[]"] sample_lock_state by simp

section \<open>Gates and timeouts\<close>

text \<open>A thread that is neither in a virtual machine nor a gate thread of one.\<close>

definition plain_thread :: "kernel \<Rightarrow> u64 \<Rightarrow> bool" where
  "plain_thread k t \<longleftrightarrow> \<not> vm_mode (spsr (threads k t))"

lemma gate_dispatch:
  assumes "plain_thread k th"
  shows "handle_svc th ISAMBARD_GATE k =
    (if reg k th 0 = 0 then
       (if th = interrupt_thread k then gate_tick th k
        else if sint (gate (threads k th)) > 0 then
          Inr (stay th, set_gate th 0 (set_reg th 0 (gate (threads k th)) k))
        else gate_wait th k)
     else if is_real_thread k (ucast (reg k th 0)) then gate_wake th k
     else Inl (BSOD 132))"
  using assms by (auto simp: plain_thread_def vm_mode_def handle_svc_def handle_svc_gate_def ISAMBARD_GATE_def)

lemma gate_rep_positive:
  assumes "gate_rep k L" and "(t, d) \<in> set L"
  shows "0 < d"
proof -
  have L: "deadlines (threads k) 0 (map fst L) = L" and inv: "timeout_inv k (map fst L)"
    using assms(1) by (auto simp: gate_rep_def timeouts_def)
  obtain u us where u: "map fst L = u # us" using assms(2) by (cases "map fst L") auto
  have pos: "0 < unat (reg k u 1)" using inv u by (simp add: timeout_inv_def unat_gt_0)
  have "(t, d) \<in> set (deadlines (threads k) 0 (u # us))" using assms(2) L u by simp
  then have "unat (reg k u 1) \<le> d" using deadlines_ge by fastforce
  then show ?thesis using pos by simp
qed

text \<open>C5. Timeouts are exact.  The list of sleeping threads stores differences; after a thread has been
  enqueued for \<^verbatim>\<open>n\<close> ticks among any other sleeping threads, \<^verbatim>\<open>m\<close> ticks of the interrupt thread
  succeed, and the thread is then still asleep exactly when \<^verbatim>\<open>m < n\<close>, with \<^verbatim>\<open>n - m\<close> ticks left.\<close>

theorem timeout_is_exact:
  assumes "gate_rep k L" and "gate_ready k t n"
  shows "\<exists>k1 k2 L'. gate_enqueue t k = Inr k1 \<and> gate_queue.ticks m k1 = Inr k2 \<and> gate_rep k2 L'
     \<and> (\<forall>d. (t, d) \<in> set L' \<longleftrightarrow> m < n \<and> d = n - m)"
proof -
  have inv: "timeout_inv k (map fst L)" using assms(1) by (simp add: gate_rep_def)
  then have "t \<notin> fst ` set L" using timeouts_not_parked [OF inv, of t] assms(2) by (simp add: gate_ready_def)
  moreover have "0 < n" using assms(2) by (simp add: gate_ready_def)
  moreover have "\<And>u d. (u, d) \<in> set L \<Longrightarrow> 0 < d" using gate_rep_positive [OF assms(1)] by blast
  ultimately show ?thesis using gate_queue.enqueue_then_ticks [OF assms(1) _ assms(2)] by blast
qed

definition T4 :: u64 where "T4 = 0xfffffffffe1fe600"

text \<open>The interrupt thread heads the ring and a fourth thread is about to sleep for two ticks.\<close>

definition sample_timer :: kernel where
  "sample_timer = (upd_thread T4 (\<lambda>c. c\<lparr>regs := (regs c)(1 := 2)\<rparr>)
     (upd_thread T1 (\<lambda>c. c\<lparr>current_map := system_map_index\<rparr>) sample_kernel))\<lparr>interrupt_thread := T1\<rparr>"

lemma sample_T4 [simp]: "T4 \<noteq> T1" "T4 \<noteq> T2" "T4 \<noteq> T3" "T4 \<noteq> 0" "T1 \<noteq> T4" "T2 \<noteq> T4" "T3 \<noteq> T4"
  by (simp_all add: T1_def T2_def T3_def T4_def)

lemma sample_timer_ring: "ring (threads sample_timer) [T1, T2, T3]" "ring (threads sample_timer) [T4]"
proof -
  show "ring (threads sample_timer) [T1, T2, T3]"
    by (rule ring_cong [THEN iffD2, OF _ sample_ring]) (auto simp: sample_timer_def)
  show "ring (threads sample_timer) [T4]"
    by (simp add: sample_timer_def) (simp add: sample_thread_def)
qed

lemma sample_timer_rep: "gate_rep sample_timer []" "gate_ready sample_timer T4 2"
proof -
  have a: "blocked_with_timeout_address sample_timer = 0xfffffffffe4030a0"
    by (simp add: sample_timer_def blocked_with_timeout_address_def sample_kernel_def)
  have "timeout_inv sample_timer []"
    using a by (simp add: timeout_inv_def timeout_list_def timeouts_def sample_timer_def)
  then show "gate_rep sample_timer []"
    using sample_timer_ring(1) by (auto simp: gate_rep_def timeouts_def sample_timer_def simp del: ring.simps)
  have "queueable sample_timer T4" using a by (simp add: queueable_def regs17_address_def) (simp add: T4_def)
  then show "gate_ready sample_timer T4 2"
    using sample_timer_ring(2) by (simp add: gate_ready_def sample_timer_def del: ring.simps)
qed

theorem timeout_is_exact_witness:
  "\<exists>k1 k2 L'. gate_enqueue T4 sample_timer = Inr k1 \<and> gate_queue.ticks 1 k1 = Inr k2 \<and> gate_rep k2 L'
     \<and> (\<forall>d. (T4, d) \<in> set L' \<longleftrightarrow> d = 1)"
  using timeout_is_exact [OF sample_timer_rep, of 1] by (simp add: One_nat_def)

text \<open>A gate call of the interrupt thread is one tick of the clock: the threads whose time is up
  become runnable directly after the interrupt thread with -1 in register 0 and their gate closed, every
  other sleeping thread has one tick less to go, and no other thread changes its gate or its result.\<close>

theorem tick_releases_expired:
  assumes "timeout_inv k ts" and "th = interrupt_thread k" and "reg k th 0 = 0" and "plain_thread k th"
    and "current_map (threads k th) = system_map_index"
    and "ring (threads k) (th # rest)" and "set ts \<inter> set (th # rest) = {}"
  shows "\<exists>k' keep. handle_svc th ISAMBARD_GATE k = Inr (stay th, k')
     \<and> timeout_inv k' keep \<and> timeouts k' keep = tick_all (timeouts k ts)
     \<and> ring (threads k') (th # rev (expiring (timeouts k ts)) @ rest)
     \<and> tick_effect k k' (set (expiring (timeouts k ts)))"
  using gate_dispatch [OF assms(4)] assms(2,3) gate_tick_refines [OF assms(1,5-7)]
  by (auto simp: assms(2,3)) metis

theorem tick_releases_expired_witness:
  "\<exists>k' keep. handle_svc T1 ISAMBARD_GATE sample_timer = Inr (stay T1, k')
     \<and> timeout_inv k' keep \<and> timeouts k' keep = []"
proof -
  have "timeout_inv sample_timer []" "plain_thread sample_timer T1"
    using sample_timer_rep(1) by (auto simp: gate_rep_def plain_thread_def vm_mode_def sample_timer_def)
      (simp_all add: sample_thread_def)
  then show ?thesis
    using tick_releases_expired [of sample_timer "[]" T1 "[T2, T3]"] sample_timer_ring(1)
    by (auto simp: timeouts_def tick_all_def sample_timer_def simp del: ring.simps)
qed

text \<open>Waiting at a closed gate with a timeout: the next thread of the ring runs, the caller leaves
  the ring with its gate marked as waiting, and it joins the sleeping threads in the order of expiry.\<close>

theorem gate_wait_sleeps:
  assumes "ring (threads k) (th # x # rest)" and "owner_ok k th" and "plain_thread k th" and "th \<noteq> interrupt_thread k"
    and "reg k th 0 = 0" and "sint (gate (threads k th)) \<le> 0" and "reg k th 1 \<noteq> 0"
    and "timeout_inv k ts" and "th \<notin> set ts" and "queueable k th"
  shows "\<exists>k' us. handle_svc th ISAMBARD_GATE k = Inr (\<lparr>sw_then = th, sw_now = x\<rparr>, k') \<and> runnable k' = x
     \<and> ring (threads k') (x # rest) \<and> gate (threads k' th) = THREAD_WAITING
     \<and> timeout_inv k' us \<and> timeouts k' us = insort_key snd (th, unat (reg k th 1)) (timeouts k ts)"
  using gate_dispatch [OF assms(3)] assms(4-6) gate_wait_timeout [OF assms(1,2,7-10)]
  by (auto simp: assms(5)) metis

theorem gate_wait_sleeps_witness:
  "\<exists>k' us. handle_svc T1 ISAMBARD_GATE (set_reg T1 1 9 sample_kernel) = Inr (\<lparr>sw_then = T1, sw_now = T2\<rparr>, k')
     \<and> timeout_inv k' us \<and> timeouts k' us = [(T1, 9)]"
proof -
  let ?k = "set_reg T1 1 9 sample_kernel"
  have a: "blocked_with_timeout_address ?k = 0xfffffffffe4030a0"
    by (simp add: set_reg_def blocked_with_timeout_address_def sample_kernel_def)
  have r: "ring (threads ?k) [T1, T2, T3]"
    by (rule ring_cong [THEN iffD2, OF _ sample_ring]) (auto simp: set_reg_def)
  have i: "timeout_inv ?k []"
    using a by (simp add: timeout_inv_def timeout_list_def timeouts_def) (simp add: set_reg_def)
  have "translate ?k 0 = translate sample_kernel 0" by (simp add: set_reg_def)
  then have o: "owner_ok ?k T1"
    using sample_translate [of 0] by (simp add: owner_ok_def read_user64_def) (simp add: set_reg_def sample_lock_def)
  have q: "queueable ?k T1" using a by (simp add: queueable_def regs17_address_def) (simp add: T1_def)
  have "plain_thread ?k T1" by (simp add: plain_thread_def vm_mode_def) (simp add: sample_thread_def)
  from gate_wait_sleeps [OF r o this _ _ _ _ i _ q] show ?thesis
    by (simp add: timeouts_def set_reg_def del: ring.simps) blast
qed

text \<open>C9. Opening the gate of a sleeping thread of the same map: the thread becomes runnable directly
  behind the caller, its gate is closed again, and it leaves the list of sleeping threads without
  changing the time any other thread has to go.\<close>

theorem gate_wake_releases_sleeper:
  assumes "ring (threads k) (th # rest)" and "plain_thread k th" and "reg k th 0 \<noteq> 0"
    and "is_real_thread k (ucast (reg k th 0))" and "t = thread_from_code (ucast (reg k th 0))"
    and "gate (threads k t) = THREAD_WAITING" and "current_map (threads k th) = current_map (threads k t)"
    and "t \<notin> set (th # rest)" and "t \<noteq> 0" and "timeout_inv k (as @ t # bs)"
  shows "\<exists>k'. handle_svc th ISAMBARD_GATE k = Inr (stay th, k') \<and> ring (threads k') (th # t # rest)
     \<and> gate (threads k' t) = 0 \<and> timeout_inv k' (as @ bs)
     \<and> timeouts k' (as @ bs) = filter (\<lambda>(u, _). u \<noteq> t) (timeouts k (as @ t # bs))"
  using gate_dispatch [OF assms(2)] assms(3,4) gate_wake_releases [OF assms(1,5-10)]
  by auto

text \<open>A fourth thread sleeps with two ticks to go and the first thread opens its gate.\<close>

definition sample_sleeper :: kernel where
  "sample_sleeper = (set_reg T1 0 0x1fe600
     (upd_thread T4 (\<lambda>c. c\<lparr>regs := (regs c)(1 := 2, 16 := 0xfffffffffe4030a0, 17 := 0), gate := THREAD_WAITING\<rparr>)
        sample_kernel))\<lparr>blocked_with_timeout := T4\<rparr>"

lemma sample_T4_code [simp]: "thread_from_code 0x1fe600 = T4"
  by (simp add: thread_from_code_def start_address_def T4_def)

lemma sample_sleeper_facts:
  "ring (threads sample_sleeper) [T1, T2, T3]" "timeout_inv sample_sleeper [T4]"
  "timeouts sample_sleeper [T4] = [(T4, 2)]" "reg sample_sleeper T1 0 = 0x1fe600"
  "gate (threads sample_sleeper T4) = THREAD_WAITING" "plain_thread sample_sleeper T1"
  "current_map (threads sample_sleeper u) = 3" "is_real_thread sample_sleeper 0x1fe600"
proof -
  show "ring (threads sample_sleeper) [T1, T2, T3]"
    by (rule ring_cong [THEN iffD2, OF _ sample_ring]) (auto simp: sample_sleeper_def set_reg_def)
  have a: "blocked_with_timeout_address sample_sleeper = 0xfffffffffe4030a0"
    by (simp add: sample_sleeper_def blocked_with_timeout_address_def sample_kernel_def set_reg_def)
  have "regs17_address T4 \<noteq> 0xfffffffffe4030a0" "regs17_address T4 \<noteq> 0"
    by (simp_all add: regs17_address_def T4_def)
  then show "timeout_inv sample_sleeper [T4]"
    using a by (simp add: timeout_inv_def timeout_list_def timeouts_def) (simp add: sample_sleeper_def set_reg_def)
  show "timeouts sample_sleeper [T4] = [(T4, 2)]" "reg sample_sleeper T1 0 = 0x1fe600"
    "gate (threads sample_sleeper T4) = THREAD_WAITING" "current_map (threads sample_sleeper u) = 3"
    by (simp_all add: timeouts_def sample_sleeper_def set_reg_def)
  show "plain_thread sample_sleeper T1"
    by (simp add: plain_thread_def vm_mode_def sample_sleeper_def set_reg_def) (simp add: sample_thread_def)
  show "is_real_thread sample_sleeper 0x1fe600"
    by (simp add: is_real_thread_def could_be_in_heap_def sizeof_thread_context_def sample_sleeper_def set_reg_def)
      (simp add: sample_thread_def)
qed

theorem gate_wake_releases_sleeper_witness:
  "\<exists>k'. handle_svc T1 ISAMBARD_GATE sample_sleeper = Inr (stay T1, k')
     \<and> ring (threads k') [T1, T4, T2, T3] \<and> timeouts k' [] = []"
proof -
  have c: "(ucast (0x1fe600 :: u64) :: u32) = 0x1fe600" by simp
  show ?thesis
    using gate_wake_releases_sleeper [of sample_sleeper T1 "[T2, T3]" T4 "[]" "[]"] sample_sleeper_facts
    by (simp add: c del: ring.simps) (auto simp: timeouts_def)
qed

text \<open>Opening a gate that is not being waited at counts up: the gate of the named thread goes up by
  one and stays at the largest 31-bit value, and no other thread changes.\<close>

theorem gate_wake_saturates:
  assumes "plain_thread k th" and "reg k th 0 \<noteq> 0" and "is_real_thread k (ucast (reg k th 0))"
    and "t = thread_from_code (ucast (reg k th 0))"
    and "0 \<le> sint (gate (threads k t))" and "sint (gate (threads k t)) \<le> 0x7fffffff"
  shows "\<exists>k'. handle_svc th ISAMBARD_GATE k = Inr (stay th, k')
     \<and> sint (gate (threads k' t)) = min 0x7fffffff (sint (gate (threads k t)) + 1)
     \<and> (\<forall>u. u \<noteq> t \<longrightarrow> threads k' u = threads k u)"
  using gate_dispatch [OF assms(1)] assms(2,3) gate_wake_counts [OF assms(4-6)]
  by auto

theorem gate_wake_saturates_witness:
  "\<exists>k'. handle_svc T1 ISAMBARD_GATE (set_reg T1 0 0x1fe200 sample_kernel) = Inr (stay T1, k')
     \<and> sint (gate (threads k' T2)) = 1"
proof -
  let ?k = "set_reg T1 0 0x1fe200 sample_kernel"
  have c: "(ucast (0x1fe200 :: u64) :: u32) = 0x1fe200" by simp
  have t: "thread_from_code 0x1fe200 = T2" by (simp add: thread_from_code_def start_address_def T2_def)
  have "is_real_thread ?k 0x1fe200"
    by (simp add: is_real_thread_def could_be_in_heap_def sizeof_thread_context_def set_reg_def t)
      (simp add: sample_thread_def)
  moreover have "plain_thread ?k T1"
    by (simp add: plain_thread_def vm_mode_def set_reg_def) (simp add: sample_thread_def)
  ultimately show ?thesis
    using gate_wake_saturates [of ?k T1 T2] by (auto simp: set_reg_def c t)
qed

section \<open>Calls between maps\<close>

text \<open>C6. A call enters the provider of an interface and a return undoes it.  The caller must be the
  user of the interface; the call runs the handler in the provider's map with the object in
  register 0.  Whatever the provider then does to its registers, memory and stack pointer, its return
  brings back the caller's map, return address and stack pointer and pops the frame.\<close>

theorem call_and_return:
  assumes i: "interface_from_index k (ucast (reg k th 0)) = Some i" "i < unat (kernel_last_interface k)"
    and e: "e = interfaces k i" "user e = current_map (threads k th)" "ordinary_map k (provider e)"
    and c: "reg k th 18 = ucast (thread_code th)" "ordinary_map k (current_map (threads k th))"
    and sp: "stack_limit (threads k th) + 2 < stack_pointer (threads k th)" "stack_pointer (threads k th) \<le> 5"
    and l: "loaded_map k = current_map (threads k th)"
  shows "\<exists>k1. handle_svc th ISAMBARD_CALL k = Inr (stay th, k1)
     \<and> t_pc (threads k1 th) = handler e \<and> reg k1 th 0 = object e
     \<and> current_map (threads k1 th) = provider e \<and> loaded_map k1 = provider e
     \<and> (\<forall>k2. stack_pointer (threads k2 th) = stack_pointer (threads k1 th) \<longrightarrow>
          stack (threads k2 th) = stack (threads k1 th) \<longrightarrow>
          kernel_last_interface k2 = kernel_last_interface k \<longrightarrow>
          current_map (threads k2 th) = provider e \<longrightarrow> loaded_map k2 = provider e \<longrightarrow>
          (\<exists>k3. handle_svc th ISAMBARD_RETURN k2 = Inr (stay th, k3)
             \<and> t_pc (threads k3 th) = t_pc (threads k th) \<and> sp_el0 k3 = sp_el0 k
             \<and> current_map (threads k3 th) = current_map (threads k th)
             \<and> loaded_map k3 = current_map (threads k th)
             \<and> stack_pointer (threads k3 th) = stack_pointer (threads k th)
             \<and> regs (threads k3 th) = regs (threads k2 th)))"
proof -
  obtain k1 where k1: "enter_provider th e k = Inr (stay th, k1)"
    using enter_provider_enters [of k "e" th] e(3) c(2) sp by (auto simp: ordinary_map_def)
  note f = enter_provider_Inr [OF k1]
  have call: "handle_svc th ISAMBARD_CALL k = Inr (stay th, k1)"
    using k1 i c(1) e by (simp add: svc_call_dispatch svc_call_def interface_at_def ordinary_map_def)
  have ret: "\<exists>k3. handle_svc th ISAMBARD_RETURN k2 = Inr (stay th, k3)
             \<and> t_pc (threads k3 th) = t_pc (threads k th) \<and> sp_el0 k3 = sp_el0 k
             \<and> current_map (threads k3 th) = current_map (threads k th)
             \<and> loaded_map k3 = current_map (threads k th)
             \<and> stack_pointer (threads k3 th) = stack_pointer (threads k th)
             \<and> regs (threads k3 th) = regs (threads k2 th)"
    if k2: "stack_pointer (threads k2 th) = stack_pointer (threads k1 th)"
      "stack (threads k2 th) = stack (threads k1 th)" "kernel_last_interface k2 = kernel_last_interface k"
      "current_map (threads k2 th) = provider e" "loaded_map k2 = provider e" for k2
  proof -
    let ?fr = "\<lparr>caller_sp = sp_el0 k, caller_return_address = t_pc (threads k th),
             caller_map = current_map (threads k th)\<rparr>"
    have s: "stack_pointer (threads k2 th) < 6" "stack (threads k2 th) (stack_pointer (threads k2 th)) = ?fr"
      using k2 f sp by simp_all
    have m: "ordinary_map k2 (caller_map ?fr)" "current_map (threads k2 th) \<le> kernel_last_interface k2"
      using c(2) e(3) k2 by (simp_all add: ordinary_map_def)
    obtain k3 where k3: "pop_frame th k2 = Inr k3" "t_pc (threads k3 th) = caller_return_address ?fr"
        "sp_el0 k3 = caller_sp ?fr" "current_map (threads k3 th) = caller_map ?fr"
        "stack_pointer (threads k3 th) = stack_pointer (threads k2 th) + 1"
        "regs (threads k3 th) = regs (threads k2 th)"
        "loaded_map k2 = current_map (threads k2 th) \<Longrightarrow> loaded_map k3 = caller_map ?fr"
      using pop_frame_result [OF s m] by metis
    show ?thesis
      using k3 k2 f(2,4) by (simp add: svc_return_dispatch svc_return_def)
  qed
  show ?thesis using call f l ret by blast
qed

theorem call_and_return_witness:
  "\<exists>k1. handle_svc T1 ISAMBARD_CALL (set_reg T1 0 5 sample_kernel) = Inr (stay T1, k1)
     \<and> t_pc (threads k1 T1) = 0x1000 \<and> reg k1 T1 0 = 7
     \<and> (\<exists>k3. handle_svc T1 ISAMBARD_RETURN k1 = Inr (stay T1, k3) \<and> t_pc (threads k3 T1) = 0
          \<and> sp_el0 k3 = 0x4000 \<and> current_map (threads k3 T1) = 3 \<and> loaded_map k3 = 3)"
proof -
  let ?k = "set_reg T1 0 5 sample_kernel"
  have u: "(ucast (5 :: u64) :: u32) = 5" by simp
  have f: "interfaces ?k i = \<lparr>user = 3, provider = 4, handler = 0x1000, object = 7\<rparr>"
    "kernel_last_interface ?k = 512" "loaded_map ?k = 3" "sp_el0 ?k = 0x4000"
    "reg ?k T1 0 = 5" "reg ?k T1 18 = ucast (thread_code T1)" "current_map (threads ?k T1) = 3"
    "stack_pointer (threads ?k T1) = 5" "stack_limit (threads ?k T1) = 0" "t_pc (threads ?k T1) = 0" for i
    by (simp_all add: set_reg_def)
  have "kernel_last_interface k' = 512" if "svc_call T1 ?k = Inr (sw, k')" for sw k'
    using svc_call_last_interface [OF that] f by simp
  then show ?thesis
    using call_and_return [of ?k T1 5 "\<lparr>user = 3, provider = 4, handler = 0x1000, object = 7\<rparr>"]
    by (simp add: f u interface_from_index_def ordinary_map_def system_map_index_def memory_allocator_map_index_def
        svc_call_dispatch) blast
qed

text \<open>C10. Calls nest at most three deep.  A new thread starts with one frame on its stack of six; a call
  succeeds only while at least three further frames are free below the limit, so the stack index stays
  within the array, and a call on a thread that has none left stops the kernel with the event for
  a full stack before anything of the provider runs.\<close>

theorem call_depth_bounded:
  assumes "stack_limit (threads k th) = 0" and "reg k th 18 = ucast (thread_code th)"
    and "interface_from_index k (ucast (reg k th 0)) = Some i" and "i < unat (kernel_last_interface k)"
    and "user (interfaces k i) = current_map (threads k th)" and "provider (interfaces k i) \<noteq> system_map_index"
  shows "(svc_call th k = Inr (sw, k') \<longrightarrow>
            2 \<le> stack_pointer (threads k' th) \<and> stack_pointer (threads k' th) = stack_pointer (threads k th) - 1
            \<and> stack_pointer (threads k' th) \<le> 5)
       \<and> (stack_pointer (threads k th) \<in> {1, 2} \<longrightarrow> svc_call th k = Inl (BSOD 1126))"
proof -
  have c: "svc_call th k = enter_provider th (interfaces k i) k"
    using assms by (simp add: svc_call_def interface_at_def)
  have "svc_call th k = Inl (BSOD 1126)" if "stack_pointer (threads k th) \<in> {1, 2}"
    using that assms(1) by (auto simp: c enter_provider_def Let_def thread_stack_is_full_def set_reg_def)
  moreover have "2 \<le> stack_pointer (threads k' th) \<and> stack_pointer (threads k' th) = stack_pointer (threads k th) - 1
            \<and> stack_pointer (threads k' th) \<le> 5" if "svc_call th k = Inr (sw, k')"
    using enter_provider_Inr(2,3,4) [OF that [unfolded c]] assms(1) by auto
  ultimately show ?thesis by blast
qed

theorem call_depth_bounded_witness:
  "svc_call T1 (upd_thread T1 (\<lambda>c. c\<lparr>stack_pointer := 2\<rparr>) (set_reg T1 0 5 sample_kernel)) = Inl (BSOD 1126)"
proof -
  let ?k = "upd_thread T1 (\<lambda>c. c\<lparr>stack_pointer := 2\<rparr>) (set_reg T1 0 5 sample_kernel)"
  have u: "(ucast (5 :: u64) :: u32) = 5" by simp
  show ?thesis
    using call_depth_bounded [of ?k T1 5]
    by (simp add: set_reg_def u interface_from_index_def system_map_index_def)
qed

text \<open>C11. An interface that has been freed, or that was never given out, cannot be called: the overlaid
  free marker is not the number of a map, and every call stops the kernel.\<close>

theorem free_interface_is_dead:
  assumes "interface_from_index k (ucast (reg k th 0)) = Some i"
    and "free_marker_of (interfaces k i) = free_marker"
    and "kernel_last_interface k < 0x65657246" and "current_map (threads k th) \<le> kernel_last_interface k"
  shows "\<exists>h. handle_svc th ISAMBARD_CALL k = Inl h"
  unfolding svc_call_dispatch by (rule call_free_interface_stops [OF assms])

theorem free_interface_is_dead_witness:
  "\<exists>h. handle_svc T1 ISAMBARD_CALL (set_interface 0
     \<lparr>user = 9, provider = 0x65657246, handler = 0x00746e49, object = 0\<rparr> sample_kernel) = Inl h"
proof -
  have "free_marker_of \<lparr>user = 9, provider = 0x65657246, handler = 0x00746e49, object = 0\<rparr> = free_marker"
    by (simp add: free_marker_of_def free_marker_def push_bit_eq_mult)
  then show ?thesis
    by (intro free_interface_is_dead [where i = 0]) (simp_all add: interface_from_index_def set_interface_def)
qed

section \<open>Interfaces\<close>



text \<open>C12. Entries of the interface table are kept apart: storing any list of interfaces one after the
  other into entries obtained from the free list uses the free entries in order, leaves every entry
  readable with the value stored in it, and changes no entry that was in use.\<close>

theorem interface_table_stores:
  assumes "table_inv k (is @ js)" and "js \<noteq> []" and "length is = length es"
  shows "\<exists>k'. interface_table.store_all es k = Inr k' \<and> table_inv k' js \<and> map (interfaces k') is = es
     \<and> (\<forall>i. i \<notin> set is \<longrightarrow> interfaces k' i = interfaces k i)"
  by (rule interface_table.store_all_stores [OF assms])

text \<open>The table after the first page of entries has been added.\<close>

definition sample_table :: kernel where
  "sample_table = new_memory_for_interfaces 6 (sample_kernel\<lparr>kernel_last_interface := 2\<rparr>)"

lemma sample_table_inv: "table_inv sample_table [3, 4, 5]"
proof -
  have "[unat (2 :: u32) + 1..<6] = [3, 4, 5]" by code_simp
  then show ?thesis
    using new_memory_for_interfaces_inv [of "sample_kernel\<lparr>kernel_last_interface := 2\<rparr>" 6]
    by (simp add: sample_table_def)
qed

theorem interface_table_stores_witness:
  "\<exists>k'. interface_table.store_all [\<lparr>user = 1, provider = 2, handler = 3, object = 4\<rparr>,
       \<lparr>user = 5, provider = 6, handler = 7, object = 8\<rparr>] sample_table = Inr k'
     \<and> user (interfaces k' 3) = 1 \<and> object (interfaces k' 4) = 8"
  using interface_table_stores [of sample_table "[3, 4]" "[5]"
      "[\<lparr>user = 1, provider = 2, handler = 3, object = 4\<rparr>, \<lparr>user = 5, provider = 6, handler = 7, object = 8\<rparr>]"]
    sample_table_inv
  by auto

text \<open>Freeing an interface and obtaining a new one gives the same entry back and restores the free
  list.\<close>

theorem free_then_obtain:
  assumes "table_inv k is" and "is \<noteq> []" and "i \<notin> set is" and "0 < i" and "i < unat (kernel_last_interface k)"
  shows "\<exists>k1 k2. free_interface [] i k = Inr k1 \<and> obtain_interface k1 = Inr (i, k2) \<and> table_inv k2 is"
proof -
  obtain k1 where k1: "free_interface [] i k = Inr k1" "table_inv k1 (i # is)" by (rule free_interface_inv [OF assms])
  obtain j js where "is = j # js" using assms(2) by (cases "is") auto
  then show ?thesis using k1 obtain_interface_first [of k1 i j js] by auto
qed

theorem free_then_obtain_witness:
  "\<exists>k1 k2. free_interface [] 2 sample_table = Inr k1 \<and> obtain_interface k1 = Inr (2, k2) \<and> table_inv k2 [3, 4, 5]"
proof -
  have "kernel_last_interface sample_table = 6"
    by (simp add: sample_table_def new_memory_for_interfaces_def Let_def)
  then show ?thesis using free_then_obtain [OF sample_table_inv, of 2] by simp
qed

section \<open>The heap\<close>



section \<open>Maps\<close>

text \<open>The list of virtual memory blocks of the map a thread runs in.\<close>

definition map_blocks :: "kernel \<Rightarrow> u64 \<Rightarrow> u64 list \<Rightarrow> bool" where
  "map_blocks k th vs \<longleftrightarrow>
    (let i = unat (current_map (threads k th)); mv = object (interfaces k i) in
     i < unat (kernel_last_interface k)
     \<and> current_map (threads k th) \<notin> {system_map_index, memory_allocator_map_index}
     \<and> mv_heap_offset_lsr4 mv \<le> ucast (drop_bit 4 (kernel_heap_top k - kernel_heap_bottom k))
     \<and> vmb_table k (heap_pointer_from_offset_lsr4 (ucast (mv_heap_offset_lsr4 mv)) - start_address) vs)"

text \<open>The physical memory behind a virtual block: an interface to a block of the system driver.\<close>

definition physical_block_of :: "kernel \<Rightarrow> u64 \<Rightarrow> u64 \<Rightarrow> bool" where
  "physical_block_of k vmb cmb \<longleftrightarrow>
    (\<exists>i. interface_from_index k (ucast (vmb_memory_block vmb)) = Some i \<and> i < unat (kernel_last_interface k)
       \<and> provider (interfaces k i) = system_map_index
       \<and> handler (interfaces k i) = System_Service_PhysicalMemoryBlock \<and> object (interfaces k i) = cmb)"

lemma find_vmb_first:
  assumes "map_blocks k th vs" and "unat fa < 2 ^ 34"
  shows "find_vmb k th fa = Inr (List.find (vmb_covers (drop_bit 12 fa)) vs)"
proof -
  have "unat (drop_bit 12 fa) < 2 ^ 52"
    using assms(2) by (simp add: unsigned_drop_bit_eq drop_bit_eq_div unat_div)
  then show ?thesis
    using assms(1) find_vmb_loop_finds
    by (simp add: find_vmb_def map_blocks_def Let_def interface_at_def not_less)
qed

lemma fault_maps_block:
  assumes "map_blocks k th vs" and "unat fa < 2 ^ 34" and "List.find (vmb_covers (drop_bit 12 fa)) vs = Some vmb"
    and "physical_block_of k vmb cmb" and "core_aligned k"
    and "cmb_start_page cmb < 2 ^ 19" and "vmb_start_page vmb < 2 ^ 19"
    and "unat (push_bit 12 (cmb_start_page cmb)) + unat (fa - push_bit 12 (vmb_start_page vmb)) < 2 ^ 32"
  shows "\<exists>k' e. find_and_map_memory th fa k = Inr (True, k')
     \<and> translate k' fa = Some (push_bit 12 (cmb_start_page cmb) + (fa - push_bit 12 (vmb_start_page vmb)), e)
     \<and> accessible_by_el0 e \<and> (writable_by_el0 e \<longleftrightarrow> vmb_read_only vmb = 0)
     \<and> (executable_by_el0 e \<longleftrightarrow> vmb_executable vmb \<noteq> 0)"
proof -
  obtain k' e where k': "map_vmb vmb cmb fa k = Inr k'"
      "translate k' fa = Some (push_bit 12 (cmb_start_page cmb) + (fa - push_bit 12 (vmb_start_page vmb)), e)"
      "accessible_by_el0 e" "writable_by_el0 e \<longleftrightarrow> vmb_read_only vmb = 0"
      "executable_by_el0 e \<longleftrightarrow> vmb_executable vmb \<noteq> 0"
    by (rule map_vmb_translates [OF assms(5,2,6,7,8)])
  have m: "current_map (threads k th) \<noteq> system_map_index" "current_map (threads k th) \<noteq> memory_allocator_map_index"
    using assms(1) by (simp_all add: map_blocks_def Let_def)
  have "find_and_map_memory th fa k = Inr (True, k')"
    using k'(1) m find_vmb_first [OF assms(1,2)] assms(3,4)
    by (auto simp: find_and_map_memory_def physical_block_of_def interface_at_def)
  then show ?thesis using k' by blast
qed


text \<open>Map 3 has one read-only block of two pages at 64 KB, backed by the physical pages from 1 MB.\<close>

definition sample_vmb :: u64 where
  "sample_vmb = set_vmb_memory_block 6 (set_vmb_read_only 1 (set_vmb_page_count 2 (set_vmb_start_page 0x10 0)))"

definition sample_map :: kernel where
  "sample_map = (set_interface 6 \<lparr>user = 3, provider = system_map_index, handler = System_Service_PhysicalMemoryBlock,
        object = mk_cmb 0x100 2 0\<rparr>
     (set_interface 3 \<lparr>user = 1, provider = system_map_index, handler = System_Service_Map,
        object = mk_map_value 0x100 0 1\<rparr> sample_kernel))\<lparr>heap_words := (\<lambda>a. if a = 0x1ff000 then sample_vmb else 0)\<rparr>"

lemma sample_vmb_fields [simp]:
  "vmb_start_page sample_vmb = 0x10" "vmb_page_count sample_vmb = 2" "vmb_memory_block sample_vmb = 6"
  "vmb_read_only sample_vmb = 1" "vmb_executable sample_vmb = 0"
  by (simp_all add: sample_vmb_def field_simps_packed get_field_zero)

lemma sample_map_blocks: "map_blocks sample_map T1 [sample_vmb]" "physical_block_of sample_map sample_vmb (mk_cmb 0x100 2 0)"
proof -
  have "bit (3 :: u64) 0" by simp
  then have r: "read_kernel64 sample_map 0x1ff000 = Inr sample_vmb" "read_kernel64 sample_map 0x1ff008 = Inr 0"
    by (simp_all add: read_kernel64_def sample_map_def set_interface_def)
  have c: "ucast (0x100 :: u64) = (0x100 :: u32)" "vmb_page_count 0 = 0"
    by (simp_all add: vmb_page_count_def get_field_zero)
  have "heap_pointer_from_offset_lsr4 0x100 - start_address = 0x1ff000"
    by (simp add: heap_pointer_from_offset_lsr4_def heap_pointer_from_offset_def top_of_kernel_working_memory_def
        push_bit_eq_mult)
  moreover have "current_map (threads sample_map T1) = 3" "kernel_last_interface sample_map = 512"
    "object (interfaces sample_map 3) = mk_map_value 0x100 0 1" "kernel_heap_top sample_map = 0x200000"
    "kernel_heap_bottom sample_map = 0x1fe000"
    by (simp_all add: sample_map_def set_interface_def)
  ultimately show "map_blocks sample_map T1 [sample_vmb]"
    using r by (simp add: map_blocks_def c drop_bit_eq_div system_map_index_def memory_allocator_map_index_def)
  show "physical_block_of sample_map sample_vmb (mk_cmb 0x100 2 0)"
    by (simp add: physical_block_of_def interface_from_index_def sample_map_def set_interface_def)
qed


text \<open>An address that no block of the map covers is never mapped: the fault handler stops the
  machine and does not resume the thread.\<close>

theorem uncovered_fault_stops:
  assumes "map_blocks k th vs" and "unat fa < 2 ^ 34" and "\<forall>v\<in>set vs. \<not> vmb_covers (drop_bit 12 fa) v"
  shows "find_and_map_memory th fa k = Inl (SMC 3)"
proof -
  have m: "current_map (threads k th) \<noteq> system_map_index" "current_map (threads k th) \<noteq> memory_allocator_map_index"
    using assms(1) by (simp_all add: map_blocks_def Let_def)
  have "List.find (vmb_covers (drop_bit 12 fa)) vs = None" using assms(3) by (auto simp: find_None_iff)
  then show ?thesis using m find_vmb_first [OF assms(1,2)] by (simp add: find_and_map_memory_def)
qed

theorem uncovered_fault_stops_witness: "find_and_map_memory T1 0x20000 sample_map = Inl (SMC 3)"
proof -
  have "\<not> vmb_covers (drop_bit 12 0x20000) sample_vmb" by (simp add: vmb_covers_def drop_bit_eq_div)
  then show ?thesis using uncovered_fault_stops [OF sample_map_blocks(1), of "0x20000"] by simp
qed

text \<open>C8. A change of map leaves nothing of the old one behind: after the change to an ordinary map
  no address at all translates, the address space identifier is that of the new map, and only the
  thread's own map has changed among the threads.\<close>

theorem change_map_isolates:
  assumes "current_map (threads k t) \<le> kernel_last_interface k" and "ordinary_map k m" and "loaded_map k \<noteq> m"
  shows "\<exists>k'. change_map t m k = Inr k' \<and> (\<forall>va. translate k' va = None) \<and> loaded_map k' = m
     \<and> drop_bit 48 (ttbr0_el1 k') = drop_bit 48 (push_bit 48 (ucast m) OR tt_l1_address k)
     \<and> threads k' = (threads k)(t := (threads k t)\<lparr>current_map := m\<rparr>)"
proof -
  obtain k' where "change_map t m k = Inr k'" "loaded_map k' = m" "\<And>va. walk k' va = None"
      "threads k' = (threads k)(t := (threads k t)\<lparr>current_map := m\<rparr>)"
      "ttbr0_el1 k' = push_bit 48 (ucast m) OR tt_l1_address k"
    using change_map_ordinary [of k t m] assms by (metis ordinary_map_def)
  then show ?thesis by (auto simp: translate_def)
qed

theorem change_map_isolates_witness:
  "translate sample_kernel 0x8000 = Some (0x8000, physical_block_entry 0)
   \<and> (\<exists>k'. change_map T1 5 sample_kernel = Inr k' \<and> translate k' 0x8000 = None \<and> loaded_map k' = 5)"
  using sample_translate [of "0x8000"] change_map_isolates [of sample_kernel T1 5]
  by (auto simp: ordinary_map_def system_map_index_def memory_allocator_map_index_def)

text \<open>In the map of the physical memory allocator every address below 4 GB is itself.\<close>

theorem allocator_map_is_identity:
  assumes "load_memory_allocator_map k = Inr k'" and "unat va < 2 ^ 32"
  shows "\<exists>e. translate k' va = Some (va, e) \<and> writable_by_el0 e \<and> \<not> executable_by_el0 e"
proof -
  have i: "index_l1 va < max_physical_memory_gb"
    using assms(2) by (simp add: index_l1_def get_field_def max_physical_memory_gb_def unsigned_take_bit_eq
        unsigned_drop_bit_eq drop_bit_eq_div unat_div unat_mod take_bit_eq_mod)
  have "core_tt_l1 k' (index_l1 va) = physical_block_entry (index_l1 va)"
    by (rule load_memory_allocator_map_l1 [OF assms(1) i])
  then show ?thesis
    using allocator_map_identity [OF assms(2)] physical_block_facts(3,4) by blast
qed

theorem allocator_map_is_identity_witness:
  "\<exists>k' e. load_memory_allocator_map sample_kernel = Inr k' \<and> translate k' 0xc0001234 = Some (0xc0001234, e)
     \<and> writable_by_el0 e"
proof -
  have "\<exists>k'. load_memory_allocator_map sample_kernel = Inr k'"
    by (simp add: load_memory_allocator_map_def max_physical_memory_gb_def for_each_set_l1 set_l1_def set_l2_def
        Let_def) (simp add: sample_kernel_def)
  then obtain k' where "load_memory_allocator_map sample_kernel = Inr k'" by blast
  then show ?thesis using allocator_map_is_identity [of sample_kernel k' "0xc0001234"] by auto
qed

section \<open>Virtual machines\<close>

text \<open>Switching to the partner puts the partner in the thread's place among the runnable threads;
  a partner that runs a virtual machine continues at the address the thread passes, with its registers as it
  left them, and the thread itself waits outside the ring.\<close>

theorem partner_takes_the_place:
  assumes "ring (threads k) (th # x # rest)" and "partner (threads k th) = p" and "p \<noteq> 0"
    and "p \<notin> set (th # x # rest)" and "current_map (threads k th) = current_map (threads k p)"
  shows "\<exists>k'. handle_svc th ISAMBARD_SWITCH_TO_PARTNER k = Inr (\<lparr>sw_then = th, sw_now = p\<rparr>, k')
     \<and> ring (threads k') (p # x # rest) \<and> ring (threads k') [th] \<and> runnable k' = p
     \<and> t_pc (threads k' p) = (if vm_mode (spsr (threads k p)) then reg k th 1 else t_pc (threads k p))
     \<and> regs (threads k' p) = regs (threads k p)"
proof -
  have "handle_svc th ISAMBARD_SWITCH_TO_PARTNER k = svc_switch_to_partner th k"
    by (simp add: handle_svc_def syscall_numbers)
  then show ?thesis using switch_to_partner_ring [OF assms] by metis
qed

theorem partner_takes_the_place_witness:
  "\<exists>k'. handle_svc T1 ISAMBARD_SWITCH_TO_PARTNER (upd_thread T1 (\<lambda>c. c\<lparr>partner := T4\<rparr>) sample_kernel)
       = Inr (\<lparr>sw_then = T1, sw_now = T4\<rparr>, k') \<and> ring (threads k') [T4, T2, T3]"
proof -
  let ?k = "upd_thread T1 (\<lambda>c. c\<lparr>partner := T4\<rparr>) sample_kernel"
  have "ring (threads ?k) [T1, T2, T3]"
    by (rule ring_cong [THEN iffD2, OF _ sample_ring]) auto
  then show ?thesis using partner_takes_the_place [of ?k T1 T2 "[T3]" T4] by (auto simp del: ring.simps)
qed

end
