(* ===== verification/PMA.thy ===== *)
theory PMA
  imports Prelude "HOL-Library.Multiset"
begin

text \<open>
  The physical memory allocator (\<^verbatim>\<open>drivers/physical_memory_allocator.c\<close>, with the macro
  \<^verbatim>\<open>blocks\<close> of \<^verbatim>\<open>include/aligned_blocks.h\<close>).

  The driver runs with all of memory at its own address; a free chunk holds its size and the next
  chunk in its first two words.  A pointer to a list pointer is the head or the \<^verbatim>\<open>next\<close> member of
  a chunk.  The merge test of \<^verbatim>\<open>release_free_chunk\<close> has an empty body and only reads, so it has no
  counterpart.  \<^verbatim>\<open>inter_map_exception\<close> executes \<^verbatim>\<open>svc 4\<close>, which no case of the kernel's
  \<^verbatim>\<open>handle_svc\<close> serves: the kernel stops at line 656.  \<^verbatim>\<open>1u << n\<close> takes the shift modulo
  32, as the processor does.

  The main results: freeing an area of whole pages makes exactly that area available, as
  naturally aligned chunks of powers of two in ascending order; an allocation returns the top of
  the first chunk that is large enough.
\<close>

section \<open>The driver\<close>

record chunk =
  log2size :: u64
  c_next :: u64

record pma =
  chunk_at :: "u64 \<Rightarrow> chunk"
  freed_chunks :: u64
  available_chunks :: u64

datatype chunk_ref = Available_head | Next_of u64

definition load_ref :: "pma \<Rightarrow> chunk_ref \<Rightarrow> u64" where
  "load_ref s r = (case r of Available_head \<Rightarrow> available_chunks s | Next_of a \<Rightarrow> c_next (chunk_at s a))"

definition set_chunk_next :: "u64 \<Rightarrow> u64 \<Rightarrow> pma \<Rightarrow> pma" where
  "set_chunk_next a v s = s\<lparr>chunk_at := (chunk_at s)(a := (chunk_at s a)\<lparr>c_next := v\<rparr>)\<rparr>"

definition set_log2size :: "u64 \<Rightarrow> u64 \<Rightarrow> pma \<Rightarrow> pma" where
  "set_log2size a v s = s\<lparr>chunk_at := (chunk_at s)(a := (chunk_at s a)\<lparr>log2size := v\<rparr>)\<rparr>"

definition store_ref :: "chunk_ref \<Rightarrow> u64 \<Rightarrow> pma \<Rightarrow> pma" where
  "store_ref r v s =
    (case r of Available_head \<Rightarrow> s\<lparr>available_chunks := v\<rparr> | Next_of a \<Rightarrow> set_chunk_next a v s)"

definition inter_map_exception :: "'a result" where
  "inter_map_exception = Inl (BSOD 656)"

partial_function (option) find_place :: "pma \<Rightarrow> u64 \<Rightarrow> chunk_ref \<Rightarrow> chunk_ref option" where
  "find_place s p ref =
    (if load_ref s ref \<noteq> 0 \<and> load_ref s ref < p then find_place s p (Next_of (load_ref s ref)) else Some ref)"

definition release_free_chunk :: "u64 \<Rightarrow> pma \<Rightarrow> pma result" where
  "release_free_chunk p s =
    (case find_place s p Available_head of
       None \<Rightarrow> Inl HANG
     | Some ref \<Rightarrow>
        if load_ref s ref = p then inter_map_exception
        else
          (let s = set_chunk_next p (load_ref s ref) s
           in Inr (store_ref ref p s)))"

definition release_first_free_chunk :: "pma \<Rightarrow> pma result" where
  "release_first_free_chunk s =
    (let p = freed_chunks s in
     if p \<noteq> 0 then release_free_chunk p (s\<lparr>freed_chunks := c_next (chunk_at s p)\<rparr>) else Inr s)"

text \<open>The macro, at the level of blocks of 2 to the \<^verbatim>\<open>mn\<close> bytes (the macro parameter \<^verbatim>\<open>min\<close>): larger blocks are left to the next
  level, which exists up to 34.\<close>

definition aligned :: "nat \<Rightarrow> u64 \<Rightarrow> bool" where
  "aligned n p \<longleftrightarrow> 0 = (p AND (push_bit n 1 - 1))"

definition initialise_block :: "nat \<Rightarrow> u64 \<Rightarrow> pma \<Rightarrow> pma" where
  "initialise_block mn p s =
    (let s = set_chunk_next p (freed_chunks s) s;
         s = set_log2size p (of_nat mn) s
     in s\<lparr>freed_chunks := p\<rparr>)"

partial_function (option) blocks :: "nat \<Rightarrow> u64 \<Rightarrow> u64 \<Rightarrow> pma \<Rightarrow> (u64 \<times> pma) result option" where
  "blocks mn limit p s =
    (if \<not> aligned mn p then Some (Inl (BRK 1))
     else if limit - p \<ge> push_bit mn 1 then
       (if mn < 34 \<and> limit - p \<ge> push_bit (mn + 1) 1 \<and> aligned (mn + 1) p then
          Option.bind (blocks (mn + 1) limit p s) (\<lambda>r.
            case r of
              Inl e \<Rightarrow> Some (Inl e)
            | Inr (p, s) \<Rightarrow> if limit < p then Some (Inl (BRK 1)) else blocks mn limit p s)
        else blocks mn limit (p + push_bit mn 1) (initialise_block mn p s))
     else Some (Inr (p, s)))"

definition make_list_of_freed_chunks :: "u64 \<Rightarrow> u64 \<Rightarrow> pma \<Rightarrow> pma result" where
  "make_list_of_freed_chunks p limit s =
    (case blocks 12 limit p s of None \<Rightarrow> Inl HANG | Some r \<Rightarrow> rbind r (\<lambda>(p, s). Inr s))"

partial_function (option) release_all_loop :: "pma \<Rightarrow> pma result option" where
  "release_all_loop s =
    (if freed_chunks s \<noteq> 0 then
       (case release_first_free_chunk s of Inl e \<Rightarrow> Some (Inl e) | Inr s \<Rightarrow> release_all_loop s)
     else Some (Inr s))"

definition make_available_all_freed_chunks :: "pma \<Rightarrow> pma result" where
  "make_available_all_freed_chunks s = (case release_all_loop s of None \<Rightarrow> Inl HANG | Some r \<Rightarrow> r)"

definition shl_1u :: "u64 \<Rightarrow> u64" where
  "shl_1u n = ucast (push_bit (unat n mod 32) 1 :: u32)"

partial_function (option) find_chunk :: "pma \<Rightarrow> u64 \<Rightarrow> chunk_ref \<Rightarrow> chunk_ref option" where
  "find_chunk s sz ref =
    (if load_ref s ref \<noteq> 0 \<and> shl_1u (log2size (chunk_at s (load_ref s ref))) < sz
     then find_chunk s sz (Next_of (load_ref s ref)) else Some ref)"

fun split_loop :: "nat \<Rightarrow> u64 \<Rightarrow> u64 \<Rightarrow> u64 \<Rightarrow> pma \<Rightarrow> pma" where
  "split_loop n c p remainder s =
    (if remainder \<noteq> 0 \<and> 12 \<le> n then
       (if remainder \<ge> shl_1u (of_nat n) then
          (let s = set_log2size p (of_nat n) s;
               remainder = remainder - shl_1u (of_nat n)
           in if remainder \<noteq> 0 then
                (let new_chunk = c + shl_1u (of_nat n);
                     s = set_chunk_next new_chunk (c_next (chunk_at s p)) s;
                     s = set_chunk_next p new_chunk s
                 in split_loop (n - 1) c new_chunk remainder s)
              else split_loop (n - 1) c p remainder s)
        else split_loop (n - 1) c p remainder s)
     else s)"

declare split_loop.simps [simp del]

definition allocate :: "u32 \<Rightarrow> pma \<Rightarrow> (u64 \<times> pma) result" where
  "allocate sz s =
    (case find_chunk s (ucast sz) Available_head of
       None \<Rightarrow> Inl HANG
     | Some ref \<Rightarrow>
        (let p = load_ref s ref in
         if p \<noteq> 0 then
           (if shl_1u (log2size (chunk_at s p)) = ucast sz then
              Inr (p, store_ref ref (c_next (chunk_at s p)) s)
            else
              (let remainder = shl_1u (log2size (chunk_at s p)) - ucast sz
               in Inr (p + remainder, split_loop (unat (log2size (chunk_at s p)) - 1) p p remainder s)))
         else Inr (0, s)))"

definition pma_entry :: "u64 \<Rightarrow> u64 \<Rightarrow> u64 \<Rightarrow> u64 \<Rightarrow> pma \<Rightarrow> (u64 \<times> pma) result" where
  "pma_entry zero call p1 p2 s =
    (if call = 0 then
       rbind (make_list_of_freed_chunks p1 p2 s) (\<lambda>s.
       rbind (make_available_all_freed_chunks s) (\<lambda>s. Inr (0, s)))
     else if call = 1 then allocate (ucast ((p1 + 4095) AND NOT 0xfff)) s
     else Inl (BRK 1))"

section \<open>Freeing an area\<close>

text \<open>The chunks of a list, and areas cut into naturally aligned chunks.\<close>

fun chunk_list :: "pma \<Rightarrow> u64 \<Rightarrow> (u64 \<times> nat) list \<Rightarrow> bool" where
  "chunk_list s h [] \<longleftrightarrow> h = 0"
| "chunk_list s h ((a, n) # cs) \<longleftrightarrow>
     h = a \<and> a \<noteq> 0 \<and> log2size (chunk_at s a) = of_nat n \<and> chunk_list s (c_next (chunk_at s a)) cs"

fun tiling :: "nat \<Rightarrow> (u64 \<times> nat) list \<Rightarrow> nat \<Rightarrow> bool" where
  "tiling lo [] hi \<longleftrightarrow> lo = hi"
| "tiling lo ((a, n) # cs) hi \<longleftrightarrow>
     unat a = lo \<and> 12 \<le> n \<and> n \<le> 34 \<and> 2 ^ n dvd lo \<and> tiling (lo + 2 ^ n) cs hi"

lemma tiling_append: "tiling lo (xs @ ys) hi \<longleftrightarrow> (\<exists>m. tiling lo xs m \<and> tiling m ys hi)"
  by (induction lo xs hi rule: tiling.induct) (auto intro: exI)

lemma tiling_bounds:
  "tiling lo cs hi \<Longrightarrow> lo \<le> hi \<and> (\<forall>(a, n)\<in>set cs. lo \<le> unat a \<and> unat a + 2 ^ n \<le> hi)"
  by (induction lo cs hi rule: tiling.induct) fastforce+

lemma tiling_below:
  assumes "tiling lo cs hi" and "(a, n) \<in> set cs"
  shows "lo \<le> unat a" and "unat a < hi"
proof -
  have "lo \<le> unat a" "unat a + 2 ^ n \<le> hi" using tiling_bounds [OF assms(1)] assms(2) by auto
  moreover have "(0 :: nat) < 2 ^ n" by simp
  ultimately show "lo \<le> unat a" "unat a < hi" by linarith+
qed

lemma unat_two_power: "n < 64 \<Longrightarrow> unat (2 ^ n :: u64) = 2 ^ n"
  using unat_of_nat_u64 [of "2 ^ n"] power_strict_increasing [of n 64 "2 :: nat"] by simp

lemma aligned_iff:
  assumes "n < 64"
  shows "aligned n p \<longleftrightarrow> 2 ^ n dvd unat p"
proof -
  have "push_bit n 1 - 1 = (mask n :: u64)" by (simp add: mask_eq_exp_minus_1)
  then have "aligned n p \<longleftrightarrow> take_bit n p = 0"
    unfolding aligned_def take_bit_eq_mask by auto
  moreover have "unat (take_bit n p) = unat p mod 2 ^ n" 
    by (subst unsigned_take_bit_eq) (simp only: take_bit_eq_mod)
  ultimately show ?thesis by (metis mod_0_imp_dvd dvd_imp_mod_0 unat_eq_zero)
qed

lemma block_fits_iff:
  assumes "n < 64" and "unat p \<le> unat limit"
  shows "2 ^ n \<le> limit - (p :: u64) \<longleftrightarrow> unat p + 2 ^ n \<le> unat limit"
proof -
  have "unat (limit - p) = unat limit - unat p" using assms(2) by (simp add: unat_sub word_le_nat_alt)
  then show ?thesis using assms by (auto simp: word_le_nat_alt unat_two_power)
qed

lemma chunk_list_cong:
  assumes "\<And>a n. (a, n) \<in> set cs \<Longrightarrow> chunk_at s' a = chunk_at s a"
  shows "chunk_list s' h cs \<longleftrightarrow> chunk_list s h cs"
  using assms
proof (induction cs arbitrary: h)
  case (Cons c cs)
  have "chunk_at s' (fst c) = chunk_at s (fst c)" using Cons.prems [of "fst c" "snd c"] by simp
  then show ?case using Cons by (cases c) auto
qed simp

text \<open>What a run over \<^verbatim>\<open>[p, p')\<close> leaves: the chunks of a tiling in front of the freed list, in descending order.\<close>

definition blocks_done :: "u64 \<Rightarrow> u64 \<Rightarrow> (u64 \<times> nat) list \<Rightarrow> pma \<Rightarrow> pma \<Rightarrow> bool" where
  "blocks_done p p' cs s s' \<longleftrightarrow>
     (\<exists>ts. tiling (unat p) ts (unat p') \<and> chunk_list s' (freed_chunks s') (rev ts @ cs))
     \<and> available_chunks s' = available_chunks s"

lemma initialise_block_done:
  assumes "2 ^ mn dvd unat p" and "12 \<le> mn" and "mn \<le> 34" and "unat p + 2 ^ mn \<le> unat (limit :: u64)" and "p \<noteq> 0"
    and "chunk_list s (freed_chunks s) cs" and "\<forall>(a, n)\<in>set cs. unat a < unat p"
  shows "unat (p + 2 ^ mn) = unat p + 2 ^ mn"
    and "chunk_list (initialise_block mn p s) (freed_chunks (initialise_block mn p s)) ((p, mn) # cs)"
    and "available_chunks (initialise_block mn p s) = available_chunks s"
proof -
  have "unat p + 2 ^ mn < 2 ^ 64" using assms(4) unat_lt_u64 [of limit] by linarith
  then show "unat (p + 2 ^ mn) = unat p + 2 ^ mn"
    using assms(3) by (simp add: unat_add_lem [THEN iffD1] unat_two_power)
  let ?s = "initialise_block mn p s"
  have "chunk_at ?s a = chunk_at s a" if "(a, n) \<in> set cs" for a n
    using that assms(7) by (auto simp: initialise_block_def set_chunk_next_def set_log2size_def)
  then have "chunk_list ?s (freed_chunks s) cs" using assms(6) chunk_list_cong by blast
  then show "chunk_list ?s (freed_chunks ?s) ((p, mn) # cs)"
    using assms(5) by (simp add: initialise_block_def set_chunk_next_def set_log2size_def)
  show "available_chunks ?s = available_chunks s"
    by (simp add: initialise_block_def set_chunk_next_def set_log2size_def)
qed

lemma blocks_done_trans:
  assumes "tiling (unat p) ts (unat q)" and "blocks_done q r (rev ts @ cs) s1 s'"
    and "available_chunks s1 = available_chunks s"
  shows "blocks_done p r cs s s'"
proof -
  obtain us where "tiling (unat q) us (unat r)" "chunk_list s' (freed_chunks s') (rev us @ rev ts @ cs)"
    using assms(2) by (auto simp: blocks_done_def)
  then have "tiling (unat p) (ts @ us) (unat r)" "chunk_list s' (freed_chunks s') (rev (ts @ us) @ cs)"
    using assms(1) by (auto simp: tiling_append)
  then show ?thesis using assms(2,3) by (auto simp: blocks_done_def)
qed

lemma blocks_tiles:
  assumes "12 \<le> mn" and "mn \<le> 34" and "2 ^ mn dvd unat p" and "unat p \<le> unat limit" and "p \<noteq> 0"
    and "chunk_list s (freed_chunks s) cs" and "\<forall>(a, n)\<in>set cs. unat a < unat p"
  shows "\<exists>p' s'. blocks mn limit p s = Some (Inr (p', s')) \<and> blocks_done p p' cs s s'
     \<and> unat p \<le> unat p' \<and> unat p' \<le> unat limit \<and> unat limit < unat p' + 2 ^ mn \<and> 2 ^ mn dvd unat p'"
  using assms
proof (induction "(unat limit - unat p) * 35 + (34 - mn)" arbitrary: mn p s cs rule: less_induct)
  case less
  note pr = less.prems
  have al: "aligned mn p" using pr by (simp add: aligned_iff)
  show ?case
  proof (cases "unat p + 2 ^ mn \<le> unat limit")
    case False
    then have "blocks mn limit p s = Some (Inr (p, s))"
      using al pr by (subst blocks.simps) (auto simp: block_fits_iff simp flip: power_Suc)
    moreover have "blocks_done p p cs s s"
      using pr(6) by (auto simp: blocks_done_def intro!: exI [of _ "[]"])
    ultimately show ?thesis using False pr by (intro exI [of _ p] exI [of _ s]) auto
  next
    case fits: True
    show ?thesis
    proof (cases "mn < 34 \<and> unat p + 2 ^ (mn + 1) \<le> unat limit \<and> aligned (mn + 1) p")
      case up: True
      obtain q s1 where q: "blocks (mn + 1) limit p s = Some (Inr (q, s1))" "blocks_done p q cs s s1"
          "unat p \<le> unat q" "unat q \<le> unat limit" "unat limit < unat q + 2 ^ (mn + 1)" "2 ^ (mn + 1) dvd unat q"
      proof -
        have "(unat limit - unat p) * 35 + (34 - (mn + 1)) < (unat limit - unat p) * 35 + (34 - mn)"
          using up by linarith
        moreover have "2 ^ (mn + 1) dvd unat p" using up aligned_iff [of "mn + 1" p] by simp
        ultimately show thesis
          using less.hyps [of p "mn + 1" s cs] pr(1,4-7) up that by (metis Suc_eq_plus1 Suc_leI le_SucI)
      qed
      obtain ts where ts: "tiling (unat p) ts (unat q)" "chunk_list s1 (freed_chunks s1) (rev ts @ cs)"
          "available_chunks s1 = available_chunks s"
        using q(2) by (auto simp: blocks_done_def)
      have lt: "unat p < unat q" using up q(5) by linarith
      have below: "\<forall>(a, n)\<in>set (rev ts @ cs). unat a < unat q"
        using tiling_below [OF ts(1)] pr(7) lt by auto
      have d: "2 ^ mn dvd unat q" using q(6) le_imp_power_dvd [of mn "mn + 1" "2 :: nat"] dvd_trans by auto
      have "unat limit - unat q < unat limit - unat p" using lt q(4) by linarith
      then obtain r s2 where r: "blocks mn limit q s1 = Some (Inr (r, s2))" "blocks_done q r (rev ts @ cs) s1 s2"
          "unat q \<le> unat r" "unat r \<le> unat limit" "unat limit < unat r + 2 ^ mn" "2 ^ mn dvd unat r"
        using less.hyps [of q mn s1 "rev ts @ cs"] pr(1,2) d q(4) lt ts(2) below
        by (metis (no_types, lifting) add_less_cancel_right mult_less_cancel2 not_less0 unat_0 zero_less_numeral)
      have "blocks mn limit p s = Some (Inr (r, s2))"
        using al fits up q(1,4) r(1) pr by (subst blocks.simps) (auto simp: block_fits_iff word_less_nat_alt not_less simp flip: power_Suc)
      then show ?thesis using blocks_done_trans [OF ts(1) r(2) ts(3)] r lt by fastforce
    next
      case stay: False
      let ?q = "p + 2 ^ mn" and ?s = "initialise_block mn p s"
      note i = initialise_block_done [OF pr(3,1,2) fits pr(5,6,7)]
      have t: "tiling (unat p) [(p, mn)] (unat ?q)" using pr i(1) by simp
      have "?q \<noteq> 0" using i(1) by (metis add_is_0 power_not_zero unat_0 zero_neq_numeral)
      moreover have "\<forall>(a, n)\<in>set ((p, mn) # cs). unat a < unat ?q" using pr(7) i(1) by fastforce
      moreover have "2 ^ mn dvd unat ?q" using i(1) pr(3) by simp
      moreover have "(unat limit - unat ?q) * 35 + (34 - mn) < (unat limit - unat p) * 35 + (34 - mn)"
      proof -
        have "(0 :: nat) < 2 ^ mn" by simp
        then have "unat limit - unat ?q < unat limit - unat p" using fits i(1) by linarith
        then show ?thesis by simp
      qed
      ultimately obtain r s2 where r: "blocks mn limit ?q ?s = Some (Inr (r, s2))"
          "blocks_done ?q r ((p, mn) # cs) ?s s2" "unat ?q \<le> unat r" "unat r \<le> unat limit"
          "unat limit < unat r + 2 ^ mn" "2 ^ mn dvd unat r"
        using less.hyps [of ?q mn ?s "(p, mn) # cs"] pr(1,2) fits i by auto
      have "blocks mn limit p s = Some (Inr (r, s2))"
        using al fits stay r(1) pr by (subst blocks.simps) (auto simp: block_fits_iff simp flip: power_Suc)
      then show ?thesis
        using blocks_done_trans [OF t _ i(3), of r cs s2] r i(1) by fastforce
    qed
  qed
qed

section \<open>Releasing chunks\<close>

fun last_ref :: "chunk_ref \<Rightarrow> (u64 \<times> nat) list \<Rightarrow> chunk_ref" where
  "last_ref r [] = r"
| "last_ref r ((a, n) # cs) = last_ref (Next_of a) cs"

lemma last_ref_append: "last_ref r (xs @ ys) = last_ref (last_ref r xs) ys"
  by (induction r xs rule: last_ref.induct) auto

definition first_chunk :: "(u64 \<times> nat) list \<Rightarrow> u64" where
  "first_chunk cs = (case cs of [] \<Rightarrow> 0 | (a, n) # _ \<Rightarrow> a)"

lemma chunk_list_head: "chunk_list s h cs \<Longrightarrow> h = first_chunk cs"
  by (cases cs) (auto simp: first_chunk_def)

lemma find_place_result:
  assumes "chunk_list s (load_ref s r) cs"
  shows "find_place s p r = Some (last_ref r (takeWhile (\<lambda>(a, n). a < p) cs))"
    and "load_ref s (last_ref r (takeWhile (\<lambda>(a, n). a < p) cs)) = first_chunk (dropWhile (\<lambda>(a, n). a < p) cs)"
  using assms
proof (induction cs arbitrary: r)
  case Nil
  { case 1 then show ?case by (subst find_place.simps) simp }
  { case 2 then show ?case by (simp add: first_chunk_def) }
next
  case (Cons c cs)
  obtain a n where c: "c = (a, n)" by (cases c)
  { case 1
    then show ?case using Cons.IH(1) [of "Next_of a"] c
      by (subst find_place.simps) (auto simp: load_ref_def) }
  { case 2
    then show ?case using Cons.IH(2) [of "Next_of a"] c
      by (auto simp: load_ref_def first_chunk_def) }
qed

lemma store_ref_chunk_list:
  assumes "chunk_list s (load_ref s r) (xs @ ys)" and "distinct (map fst (xs @ ys))" and "p \<notin> set (map fst (xs @ ys))"
    and "\<And>a. r = Next_of a \<Longrightarrow> a \<notin> set (map fst (xs @ ys)) \<and> a \<noteq> p" and "p \<noteq> 0"
    and "log2size (chunk_at s p) = of_nat n"
  shows "chunk_list (store_ref (last_ref r xs) p (set_chunk_next p (first_chunk ys) s))
     (load_ref (store_ref (last_ref r xs) p (set_chunk_next p (first_chunk ys) s)) r) (xs @ (p, n) # ys)"
  using assms
proof (induction xs arbitrary: r)
  case Nil
  let ?s = "store_ref r p (set_chunk_next p (first_chunk ys) s)"
  have h: "load_ref s r = first_chunk ys" using chunk_list_head Nil.prems(1) by simp
  have k: "chunk_at ?s a = chunk_at s a" if "(a, m) \<in> set ys" for a m
    using that Nil.prems by (cases r) (auto simp: store_ref_def set_chunk_next_def rev_image_eqI)
  have "chunk_list ?s (first_chunk ys) ys"
    using Nil.prems(1) h chunk_list_cong [of ys ?s s "first_chunk ys", OF k] by simp
  moreover have "chunk_at ?s p = (chunk_at s p)\<lparr>c_next := first_chunk ys\<rparr>" "load_ref ?s r = p"
    using Nil.prems(4) by (cases r; auto simp: store_ref_def set_chunk_next_def load_ref_def)+
  ultimately show ?case using Nil.prems(5,6) by simp
next
  case (Cons x xs)
  obtain a m where x: "x = (a, m)" by (cases x)
  let ?s = "store_ref (last_ref (Next_of a) xs) p (set_chunk_next p (first_chunk ys) s)"
  have IH: "chunk_list ?s (load_ref ?s (Next_of a)) (xs @ (p, n) # ys)"
    using Cons.prems x by (intro Cons.IH) (auto simp: load_ref_def)
  have ne: "last_ref (Next_of a) xs \<noteq> r" "last_ref (Next_of a) xs \<noteq> Available_head"
    using Cons.prems(2,4) x
    by (induction xs rule: rev_induct; fastforce simp: last_ref_append)+
  have "load_ref ?s r = a" "log2size (chunk_at ?s a) = of_nat m"
    using Cons.prems x ne
    by (cases r; cases "last_ref (Next_of a) xs"; auto simp: load_ref_def store_ref_def set_chunk_next_def)+
  then show ?case using IH Cons.prems(1) x by (simp add: load_ref_def)
qed

lemma store_ref_frame:
  assumes "a \<notin> set (map fst xs)" and "r = Available_head"
  shows "chunk_at (store_ref (last_ref r xs) v s) a = chunk_at s a"
  using assms by (cases xs rule: rev_cases) (auto simp: last_ref_append store_ref_def set_chunk_next_def)

lemma freed_store_ref [simp]: "freed_chunks (store_ref r v s) = freed_chunks s"
  by (simp add: store_ref_def set_chunk_next_def split: chunk_ref.splits)

lemma insort_takeWhile:
  assumes "sorted (map fst cs)" and "p \<notin> fst ` set cs"
  shows "insort_key fst (p, n) cs = takeWhile (\<lambda>(a, m). a < (p :: u64)) cs @ (p, n) # dropWhile (\<lambda>(a, m). a < p) cs"
  using assms by (induction cs) auto

lemma distinct_map_insort:
  "distinct (map fst (insort_key fst x xs)) \<longleftrightarrow> fst x \<notin> fst ` set xs \<and> distinct (map fst xs)"
proof -
  have "mset (map fst (insort_key fst x xs)) = mset (map fst (x # xs))" by (simp add: mset_insort)
  then show ?thesis by (metis distinct.simps(2) list.map(2) list.set_map mset_eq_imp_distinct_iff)
qed

text \<open>Releasing a chunk inserts it into the list in the order of addresses; the list of freed
  chunks, which is disjoint, is not affected.\<close>

lemma release_free_chunk_inserts:
  assumes "chunk_list s (available_chunks s) cs" and "sorted (map fst cs)" and "distinct (map fst cs)"
    and "p \<notin> set (map fst cs)" and "p \<noteq> 0" and "log2size (chunk_at s p) = of_nat n"
    and "chunk_list s (freed_chunks s) fs" and "set (map fst fs) \<inter> (insert p (set (map fst cs))) = {}"
  shows "\<exists>s'. release_free_chunk p s = Inr s' \<and> chunk_list s' (available_chunks s') (insort_key fst (p, n) cs)
     \<and> chunk_list s' (freed_chunks s') fs"
proof -
  let ?xs = "takeWhile (\<lambda>(a, m). a < p) cs" and ?ys = "dropWhile (\<lambda>(a, m). a < p) cs"
  let ?r = "last_ref Available_head ?xs"
  let ?s = "store_ref ?r p (set_chunk_next p (first_chunk ?ys) s)"
  have l: "chunk_list s (load_ref s Available_head) cs" using assms(1) by (simp add: load_ref_def)
  note f = find_place_result [OF l, of p]
  have "first_chunk ?ys \<noteq> p"
  proof (cases ?ys)
    case (Cons y ys)
    then have "fst y \<in> set (map fst cs)" using set_dropWhileD [of y "\<lambda>(a, m). a < p" cs] by simp
    then show ?thesis using Cons assms(4) by (auto simp: first_chunk_def rev_image_eqI split: prod.splits)
  next
    case Nil
    then show ?thesis using assms(5) by (simp add: first_chunk_def del: dropWhile_eq_Nil_conv)
  qed
  then have r: "release_free_chunk p s = Inr ?s" using f by (simp add: release_free_chunk_def)
  have "chunk_list ?s (load_ref ?s Available_head) (?xs @ (p, n) # ?ys)"
    using l assms(3-6) by (intro store_ref_chunk_list) simp_all
  then have "chunk_list ?s (available_chunks ?s) (insort_key fst (p, n) cs)"
    using insort_takeWhile [OF assms(2)] assms(4) by (simp add: load_ref_def)
  moreover have "chunk_at ?s a = chunk_at s a" if "(a, m) \<in> set fs" for a m
  proof -
    have "a \<noteq> p" "a \<notin> set (map fst ?xs)"
      using that assms(8) set_takeWhileD [of _ "\<lambda>(a, m). a < p" cs] by (fastforce simp: rev_image_eqI)+
    then show ?thesis by (simp add: store_ref_frame set_chunk_next_def)
  qed
  then have "chunk_list ?s (freed_chunks ?s) fs"
    using assms(7) chunk_list_cong [of fs ?s s "freed_chunks s"] by (simp add: set_chunk_next_def)
  ultimately show ?thesis using r by blast
qed

text \<open>Releasing a chunk that is in the list already stops the machine.\<close>

lemma release_free_chunk_twice:
  assumes "chunk_list s (available_chunks s) cs" and "sorted (map fst cs)" and "p \<in> set (map fst cs)"
  shows "release_free_chunk p s = Inl (BSOD 656)"
proof -
  let ?ys = "dropWhile (\<lambda>(a, m). a < p) cs"
  have l: "chunk_list s (load_ref s Available_head) cs" using assms(1) by (simp add: load_ref_def)
  have "first_chunk ?ys = p"
    using assms(2,3) by (induction cs) (auto simp: first_chunk_def dest: order_le_less_trans)
  then show ?thesis using find_place_result [OF l, of p] by (simp add: release_free_chunk_def inter_map_exception_def)
qed

lemma release_all_loop_sorts:
  assumes "chunk_list s (available_chunks s) cs" and "sorted (map fst cs)" and "distinct (map fst (cs @ fs))"
    and "chunk_list s (freed_chunks s) fs"
  shows "\<exists>s'. release_all_loop s = Some (Inr s') \<and> freed_chunks s' = 0
     \<and> chunk_list s' (available_chunks s') (fold (insort_key fst) fs cs)"
  using assms
proof (induction fs arbitrary: s cs)
  case Nil
  then show ?case by (subst release_all_loop.simps) auto
next
  case (Cons f fs)
  obtain p n where f: "f = (p, n)" by (cases f)
  let ?s = "s\<lparr>freed_chunks := c_next (chunk_at s p)\<rparr>"
  have k: "chunk_list ?s h xs \<longleftrightarrow> chunk_list s h xs" for h xs by (rule chunk_list_cong) simp
  have p: "p \<noteq> 0" "freed_chunks s = p" "log2size (chunk_at s p) = of_nat n" "chunk_list s (c_next (chunk_at s p)) fs"
    using Cons.prems(4) f by auto
  obtain s1 where s1: "release_free_chunk p ?s = Inr s1"
      "chunk_list s1 (available_chunks s1) (insort_key fst (p, n) cs)" "chunk_list s1 (freed_chunks s1) fs"
    using release_free_chunk_inserts [of ?s cs p n fs] k p Cons.prems f by (auto simp: Int_commute)
  have "distinct (map fst (insort_key fst (p, n) cs @ fs))"
    using Cons.prems(3) f by (auto simp: set_insort_key distinct_map_insort)
  moreover have "sorted (map fst (insort_key fst (p, n) cs))" using Cons.prems(2) by (simp add: sorted_insort_key)
  ultimately obtain s' where "release_all_loop s1 = Some (Inr s')" "freed_chunks s' = 0"
      "chunk_list s' (available_chunks s') (fold (insort_key fst) fs (insort_key fst (p, n) cs))"
    using Cons.IH [OF s1(2) _ _ s1(3)] by auto
  moreover have "release_all_loop s = release_all_loop s1"
    using s1(1) p by (subst release_all_loop.simps) (simp add: release_first_free_chunk_def)
  ultimately show ?case using f by auto
qed

lemma tiling_sorted: "tiling lo cs hi \<Longrightarrow> sorted (map fst cs) \<and> distinct (map fst cs)"
proof (induction lo cs hi rule: tiling.induct)
  case (2 lo a n cs hi)
  then have t: "tiling (lo + 2 ^ n) cs hi" by simp
  have "a < b" if "(b, m) \<in> set cs" for b m
  proof -
    have "lo + 2 ^ n \<le> unat b" using tiling_below(1) [OF t that] .
    moreover have "unat a = lo" "(0 :: nat) < 2 ^ n" using 2(2) by simp_all
    ultimately show ?thesis unfolding word_less_nat_alt by linarith
  qed
  then show ?case using 2 t by fastforce
qed simp

text \<open>C18. Freeing an area of whole pages into the empty allocator makes exactly that area available: the
  call terminates, and the list of available chunks is in ascending order, consecutive chunks meet, the
  first starts at the start of the area and the last ends at its end, and every chunk is a power of two
  of at least a page, aligned to its own size.\<close>

theorem free_area_is_tiled:
  assumes "available_chunks s = 0" and "freed_chunks s = 0" and "4096 dvd unat p" and "4096 dvd unat limit"
    and "p \<noteq> 0" and "p \<le> limit"
  shows "\<exists>s' cs. pma_entry 0 0 p limit s = Inr (0, s') \<and> freed_chunks s' = 0
     \<and> chunk_list s' (available_chunks s') cs \<and> tiling (unat p) cs (unat limit)"
proof -
  obtain p' s1 where b: "blocks 12 limit p s = Some (Inr (p', s1))" "blocks_done p p' [] s s1"
      "unat p' \<le> unat limit" "unat limit < unat p' + 2 ^ 12" "2 ^ 12 dvd unat p'"
    using blocks_tiles [of 12 p limit s "[]"] assms by (auto simp: word_le_nat_alt)
  have "unat p' = unat limit"
  proof -
    have "4096 dvd unat limit - unat p'" using assms(4) b(5) by (simp add: dvd_diff_nat)
    moreover have "unat limit - unat p' < 4096" using b(4) by simp
    ultimately show ?thesis using b(3) by (auto dest: nat_dvd_not_less)
  qed
  then obtain ts where ts: "tiling (unat p) ts (unat limit)" "chunk_list s1 (freed_chunks s1) (rev ts)"
      "available_chunks s1 = 0"
    using b(2) assms(1) by (auto simp: blocks_done_def)
  note t = tiling_sorted [OF ts(1)]
  obtain s' where s': "release_all_loop s1 = Some (Inr s')" "freed_chunks s' = 0"
      "chunk_list s' (available_chunks s') (fold (insort_key fst) (rev ts) [])"
    using release_all_loop_sorts [of s1 "[]" "rev ts"] ts t by (auto simp flip: rev_map)
  have "fold (insort_key fst) (rev ts) [] = ts"
    using t sort_key_id_if_sorted [of fst ts] by (simp add: sort_key_def foldr_conv_fold)
  then show ?thesis
    using b(1) s' ts(1)
    by (auto simp: pma_entry_def make_list_of_freed_chunks_def make_available_all_freed_chunks_def)
qed

theorem free_area_is_tiled_witness:
  "\<exists>s' cs. pma_entry 0 0 0x3000 0x9000 \<lparr>chunk_at = (\<lambda>_. \<lparr>log2size = 0, c_next = 0\<rparr>), freed_chunks = 0,
       available_chunks = 0\<rparr> = Inr (0, s') \<and> chunk_list s' (available_chunks s') cs \<and> tiling 0x3000 cs 0x9000"
proof -
  have "4096 dvd unat (0x3000 :: u64)" "4096 dvd unat (0x9000 :: u64)" by simp_all
  then show ?thesis
    using free_area_is_tiled [of "\<lparr>chunk_at = (\<lambda>_. \<lparr>log2size = 0, c_next = 0\<rparr>), freed_chunks = 0,
       available_chunks = 0\<rparr>" "0x3000" "0x9000"] by auto
qed

section \<open>Allocation\<close>

lemma shl_1u_small: "n < 32 \<Longrightarrow> unat (shl_1u (of_nat n)) = 2 ^ n"
proof -
  assume n: "n < 32"
  have "unat (of_nat n :: u64) = n" using n by (intro unat_of_nat_u64) simp
  moreover have "(2 :: nat) ^ n < 2 ^ 32" using n by (intro power_strict_increasing) simp_all
  then have "unat (2 ^ n :: u32) = 2 ^ n" using unat_of_nat_u32 [of "2 ^ n"] by simp
  ultimately show ?thesis using n by (simp add: shl_1u_def)
qed

lemma chunk_list_member:
  "chunk_list s h (xs @ (a, n) # ys) \<Longrightarrow> a \<noteq> 0 \<and> log2size (chunk_at s a) = of_nat n"
  by (induction xs arbitrary: h) auto

lemma find_chunk_first:
  assumes "chunk_list s (load_ref s r) (xs @ cs)" and "\<forall>(a, n)\<in>set (xs @ cs). n < 32"
    and "\<forall>(a, n)\<in>set xs. 2 ^ n < unat sz" and "cs \<noteq> [] \<Longrightarrow> unat sz \<le> 2 ^ snd (hd cs)"
  shows "find_chunk s sz r = Some (last_ref r xs)" and "load_ref s (last_ref r xs) = first_chunk cs"
  using assms
proof (induction xs arbitrary: r)
  case Nil
  { case 1
    then show ?case
      by (subst find_chunk.simps, cases cs) (auto simp: word_less_nat_alt shl_1u_small) }
  { case 2 then show ?case using chunk_list_head by simp }
next
  case (Cons x xs)
  obtain a n where x: "x = (a, n)" by (cases x)
  { case 1
    then show ?case using Cons.IH(1) [of "Next_of a"] x
      by (subst find_chunk.simps) (auto simp: load_ref_def word_less_nat_alt shl_1u_small) }
  { case 2 then show ?case using Cons.IH(2) [of "Next_of a"] x by (auto simp: load_ref_def) }
qed

lemma allocate_result:
  assumes "chunk_list s (available_chunks s) (xs @ (a, n) # ys)" and "\<forall>(b, m)\<in>set (xs @ (a, n) # ys). m < 32"
    and "\<forall>(b, m)\<in>set xs. 2 ^ m < unat sz" and "unat sz \<le> 2 ^ n"
  shows "\<exists>s'. allocate sz s = Inr (a + (shl_1u (of_nat n) - ucast sz), s')"
proof -
  have u: "unat (ucast sz :: u64) = unat sz" by simp
  have l: "chunk_list s (load_ref s Available_head) (xs @ (a, n) # ys)" using assms(1) by (simp add: load_ref_def)
  note f = find_chunk_first [OF l assms(2), of "ucast sz"]
  have c: "a \<noteq> 0" "log2size (chunk_at s a) = of_nat n"
    using chunk_list_member [OF assms(1)] by simp_all
  show ?thesis using f assms(3,4) c u by (auto simp: allocate_def first_chunk_def Let_def)
qed

text \<open>C19. An allocation returns the top of the first chunk of the list that is large enough: the
  block ends where the chunk ended and lies wholly within it.  Without such a chunk the result is 0 and
  nothing changes.\<close>

theorem allocate_first_fit:
  assumes "chunk_list s (available_chunks s) (xs @ cs)" and "\<forall>(b, m)\<in>set (xs @ cs). m < 32 \<and> unat b + 2 ^ m < 2 ^ 64"
    and "\<forall>(b, m)\<in>set xs. 2 ^ m < unat sz" and "cs \<noteq> [] \<longrightarrow> unat sz \<le> 2 ^ snd (hd cs)"
  shows "(cs = [] \<longrightarrow> allocate sz s = Inr (0, s))
     \<and> (\<forall>a n ys. cs = (a, n) # ys \<longrightarrow>
          (\<exists>r s'. allocate sz s = Inr (r, s') \<and> unat a \<le> unat r \<and> unat r + unat sz = unat a + 2 ^ n))"
proof (intro conjI impI allI)
  assume c: "cs = []"
  have l: "chunk_list s (load_ref s Available_head) (xs @ [])" using assms(1) c by (simp add: load_ref_def)
  show "allocate sz s = Inr (0, s)"
    using find_chunk_first [OF l, of "ucast sz"] assms(2,3) c
    by (fastforce simp: allocate_def first_chunk_def)
next
  fix a n ys assume c: "cs = (a, n) # ys"
  have b: "n < 32" "unat a + 2 ^ n < 2 ^ 64" "unat sz \<le> 2 ^ n" using assms(2,4) c by auto
  have "unat (shl_1u (of_nat n) - ucast sz) = 2 ^ n - unat sz"
    using b by (subst unat_sub) (simp_all add: word_le_nat_alt shl_1u_small)
  then have "unat (a + (shl_1u (of_nat n) - ucast sz)) = unat a + (2 ^ n - unat sz)"
    using b by (subst unat_add_lem [THEN iffD1]) simp_all
  moreover obtain s' where "allocate sz s = Inr (a + (shl_1u (of_nat n) - ucast sz), s')"
    using allocate_result [of s xs a n ys sz] assms c b(3) by fastforce
  ultimately show "\<exists>r s'. allocate sz s = Inr (r, s') \<and> unat a \<le> unat r \<and> unat r + unat sz = unat a + 2 ^ n"
    using b(3) by auto
qed

text \<open>One chunk of sixteen pages at 64 KB.\<close>

definition sample_pma :: pma where
  "sample_pma = \<lparr>chunk_at = (\<lambda>_. \<lparr>log2size = 16, c_next = 0\<rparr>), freed_chunks = 0, available_chunks = 0x10000\<rparr>"

theorem allocate_first_fit_witness:
  "\<exists>r s'. allocate 0x2000 sample_pma = Inr (r, s') \<and> 0x10000 \<le> unat r \<and> unat r + 0x2000 = 0x20000"
  using allocate_first_fit [of sample_pma "[]" "[(0x10000, 16)]" "0x2000"] by (simp add: sample_pma_def)

text \<open>Splitting the rest of a chunk is wrong when it takes three or more powers of two: the address
  of each further part is computed from the start of the whole chunk.  Two pages taken from a chunk of
  sixteen leave the free list with a part at 0x14000 that lies inside the part of 32 KB at 0x10000, so the
  same memory can be given out twice.\<close>

theorem allocate_split_overlaps:
  "\<exists>s'. allocate 0x2000 sample_pma = Inr (0x1e000, s')
     \<and> chunk_list s' (available_chunks s') [(0x10000, 15), (0x18000, 14), (0x14000, 13)]"
  by (subst allocate_def, subst find_chunk.simps)
    (simp add: sample_pma_def load_ref_def shl_1u_def split_loop.simps set_log2size_def set_chunk_next_def)

end
