(* ===== verification/System_Driver.thy ===== *)
theory System_Driver
  imports Isolation PMA
begin

text \<open>
  The system driver (\<^verbatim>\<open>drivers/system.c\<close>): physical memory blocks, the virtual memory blocks of a
  map, services, the timer and interrupt handlers.

  The state is the driver's own variables next to the kernel and the physical memory allocator, which it
  calls: a system call of the driver runs the kernel's handler for the thread \<^verbatim>\<open>th\<close> that called the
  driver, and a call of the memory manager runs \<^verbatim>\<open>pma_entry\<close>.  The array \<^verbatim>\<open>vmbs\<close>, to and
  from which the kernel copies heap words, is a component of the driver's state; the checks and
  the extent of the copy are those of \<^verbatim>\<open>read_heap\<close> and \<^verbatim>\<open>write_heap\<close>.  An exception of the driver is a
  system call at which the kernel executes \<^verbatim>\<open>smc 4\<close>; \<^verbatim>\<open>svc 1\<close> is no system call and stops
  the kernel at line 656.  Device registers are an array of 32-bit words; a read of a status register
  takes its value as an argument.  The build without \<^verbatim>\<open>QEMU\<close> is modelled.
\<close>

section \<open>State\<close>

record service =
  sv_service :: u64
  sv_type_crc :: u64
  sv_name_crc :: u64

record system_driver =
  vmb_lock :: u64
  vmbs :: "nat \<Rightarrow> u64"
  services :: "nat \<Rightarrow> service"
  free_service :: nat
  ms_ticks :: u64
  interrupt_handlers :: "nat \<Rightarrow> u64"
  all_interrupts :: u32
  ticks_per_millisecond :: u32
  this_core_number :: u64
  last_cval :: u64
  core_interrupts_count :: u64
  core_unidentified_interrupts_count :: u64
  interrupts_count :: u64
  unidentified_interrupts_count :: u64
  interrupts_handled :: "nat \<Rightarrow> u32"
  QA7 :: "nat \<Rightarrow> u32"
  cntp_ctl :: u64
  cntp_cval :: u64
  memory_manager :: u64
  allocatable_memory_base :: u64
  allocatable_memory_top :: u64
  board_initialised :: bool
  initial_interrupts_routing :: u32

record system_world =
  w_kernel :: kernel
  w_system :: system_driver
  w_pma :: pma

definition MAX_VMBS :: nat where "MAX_VMBS = 64"

definition upd_system :: "(system_driver \<Rightarrow> system_driver) \<Rightarrow> system_world \<Rightarrow> system_world" where
  "upd_system f w = w\<lparr>w_system := f (w_system w)\<rparr>"

section \<open>System calls of the driver\<close>

definition driver_exception :: "'a result" where
  "driver_exception = Inl (SMC 4)"

definition interface_to_return :: "u64 \<Rightarrow> u64 \<Rightarrow> u64 \<Rightarrow> system_world \<Rightarrow> (u64 \<times> system_world) result" where
  "interface_to_return th hdlr val w =
    rbind (handle_svc_interface_to_return th (set_reg th 1 val (set_reg th 0 hdlr (w_kernel w)))) (\<lambda>(sw, k).
      Inr (reg k th 0, w\<lparr>w_kernel := k\<rparr>))"

definition duplicate_to_return :: "u64 \<Rightarrow> u64 \<Rightarrow> system_world \<Rightarrow> (u64 \<times> system_world) result" where
  "duplicate_to_return th obj w =
    rbind (handle_svc_duplicate_to_return th (set_reg th 0 obj (w_kernel w))) (\<lambda>(sw, k).
      Inr (reg k th 0, w\<lparr>w_kernel := k\<rparr>))"

definition special_read_interface :: "u64 \<Rightarrow> kernel \<Rightarrow> u64 result" where
  "special_read_interface blk k =
    (case interface_from_index k (ucast blk) of
       None \<Rightarrow> Inl (BSOD 1040)
     | Some i \<Rightarrow> rbind (interface_at k i) (\<lambda>e. Inr (object e)))"

fun copy_from_heap :: "nat \<Rightarrow> nat \<Rightarrow> u64 \<Rightarrow> kernel \<Rightarrow> (nat \<Rightarrow> u64) \<Rightarrow> (nat \<Rightarrow> u64) result" where
  "copy_from_heap 0 i s k d = Inr d"
| "copy_from_heap (Suc n) i s k d =
    rbind (read_kernel64 k s) (\<lambda>v.
      if i < MAX_VMBS then copy_from_heap n (i + 1) (s + 8) k (d(i := v)) else Inl FAULT)"

fun copy_to_heap :: "nat \<Rightarrow> nat \<Rightarrow> u64 \<Rightarrow> (nat \<Rightarrow> u64) \<Rightarrow> kernel \<Rightarrow> kernel result" where
  "copy_to_heap 0 i d s k = Inr k"
| "copy_to_heap (Suc n) i d s k =
    (if i < MAX_VMBS then rbind (write_kernel64 k d (s i)) (copy_to_heap n (i + 1) (d + 8) s) else Inl FAULT)"

definition special_read_heap :: "u64 \<Rightarrow> u64 \<Rightarrow> kernel \<Rightarrow> (nat \<Rightarrow> u64) \<Rightarrow> (nat \<Rightarrow> u64) result" where
  "special_read_heap offset len k d =
    (if offset > ucast (kernel_heap_top k - kernel_heap_bottom k) then Inl (BSOD 223)
     else if offset AND 15 \<noteq> 0 then Inl (BSOD 227)
     else if len AND 15 \<noteq> 0 then Inl (BSOD 231)
     else copy_from_heap (unat (len div 8)) 0 (ucast (kernel_heap_top k) - offset) k d)"

definition special_write_heap :: "u64 \<Rightarrow> u64 \<Rightarrow> (nat \<Rightarrow> u64) \<Rightarrow> kernel \<Rightarrow> kernel result" where
  "special_write_heap offset len s k =
    (if offset > ucast (kernel_heap_top k - kernel_heap_bottom k) then Inl (BSOD 246)
     else if offset AND 15 \<noteq> 0 then Inl (BSOD 250)
     else if len AND 15 \<noteq> 0 then Inl (BSOD 254)
     else copy_to_heap (unat (len div 8)) 0 (ucast (kernel_heap_top k) - offset) s k)"

text \<open>\<^verbatim>\<open>Isambard_20\<close> and \<^verbatim>\<open>Isambard_11\<close> on the memory manager.\<close>

definition call_memory_manager :: "u64 \<Rightarrow> u64 \<Rightarrow> u64 \<Rightarrow> system_world \<Rightarrow> (u64 \<times> system_world) result" where
  "call_memory_manager call p1 p2 w =
    rbind (pma_entry 0 call p1 p2 (w_pma w)) (\<lambda>(r, p). Inr (r, w\<lparr>w_pma := p\<rparr>))"

text \<open>The spin lock of \<^verbatim>\<open>include/atomic.h\<close>: with one core a lock that is held is never released.\<close>

definition claim_vmb_lock :: "u64 \<Rightarrow> system_world \<Rightarrow> system_world result" where
  "claim_vmb_lock me w =
    (if vmb_lock (w_system w) = 0 then Inr (upd_system (\<lambda>d. d\<lparr>vmb_lock := me\<rparr>) w) else Inl HANG)"

definition release_vmb_lock :: "system_world \<Rightarrow> system_world" where
  "release_vmb_lock = upd_system (\<lambda>d. d\<lparr>vmb_lock := 0\<rparr>)"

section \<open>Interrupt handlers\<close>

definition board_remove_interrupt_handler :: "u64 \<Rightarrow> nat \<Rightarrow> system_driver \<Rightarrow> system_driver result" where
  "board_remove_interrupt_handler hdlr interrupt d =
    (if interrupt \<ge> 12 then Inl FAULT
     else if interrupt_handlers d interrupt \<noteq> hdlr then Inl (BSOD 656)
     else Inr (d\<lparr>interrupt_handlers := (interrupt_handlers d)(interrupt := 0)\<rparr>))"

definition board_register_interrupt_handler :: "u64 \<Rightarrow> nat \<Rightarrow> system_driver \<Rightarrow> system_driver result" where
  "board_register_interrupt_handler hdlr interrupt d =
    (if interrupt \<ge> 12 then Inl (BSOD 656)
     else if interrupt_handlers d interrupt \<noteq> 0 then Inl (BSOD 656)
     else Inr (d\<lparr>interrupt_handlers := (interrupt_handlers d)(interrupt := hdlr)\<rparr>))"

text \<open>The services: the interrupt number is cut to 32 bits.\<close>

definition register_interrupt_handler :: "u64 \<Rightarrow> u64 \<Rightarrow> system_driver \<Rightarrow> system_driver result" where
  "register_interrupt_handler hdlr interrupt d =
    board_register_interrupt_handler hdlr (unat (ucast interrupt :: u32)) d"

definition remove_interrupt_handler :: "u64 \<Rightarrow> u64 \<Rightarrow> system_driver \<Rightarrow> system_driver result" where
  "remove_interrupt_handler hdlr interrupt d =
    board_remove_interrupt_handler hdlr (unat (ucast interrupt :: u32)) d"

text \<open>The loop over the twelve sources: the handlers called, in order, and the counters.\<close>

fun handler_loop :: "nat \<Rightarrow> nat \<Rightarrow> u32 \<Rightarrow> system_driver \<Rightarrow> u64 list \<times> system_driver" where
  "handler_loop 0 i sources d = ([], d)"
| "handler_loop (Suc n) i sources d =
    (if sources \<noteq> 0 then
       (if 0 \<noteq> (push_bit i 1 AND sources) then
          (let sources = sources AND NOT (push_bit i 1) in
           if interrupt_handlers d i \<noteq> 0 then
             (let (calls, d') = handler_loop n (i + 1) sources
                    (d\<lparr>interrupts_handled := (interrupts_handled d)(i := interrupts_handled d i + 16)\<rparr>)
              in (interrupt_handlers d i # calls, d'))
           else handler_loop n (i + 1) sources
                  (d\<lparr>interrupts_handled := (interrupts_handled d)(i := interrupts_handled d i + 0x10000)\<rparr>))
        else handler_loop n (i + 1) sources d)
     else ([], d))"

text \<open>\<^verbatim>\<open>first\<close> and \<^verbatim>\<open>again\<close> are the two reads of the source register.  The result tells whether the timer
  ticked (the call \<^verbatim>\<open>gate_function( 0, 0 )\<close>) and lists the handlers called.\<close>

definition board_call_interrupt_handlers ::
    "u32 \<Rightarrow> u32 \<Rightarrow> system_driver \<Rightarrow> bool \<times> u64 list \<times> system_driver" where
  "board_call_interrupt_handlers first again d =
    (let d = d\<lparr>interrupts_count := interrupts_count d + 1\<rparr>;
         d = d\<lparr>core_interrupts_count := core_interrupts_count d + 1\<rparr>;
         sources = first;
         d = d\<lparr>all_interrupts := all_interrupts d OR sources\<rparr>;
         d = (if sources = 0 then d\<lparr>interrupts_handled := (interrupts_handled d)(0 := interrupts_handled d 0 + 0x100000)\<rparr> else d);
         unidentified = (sources = 0 \<and> again = 0);
         sources = (if sources = 0 then again else sources);
         d = (if unidentified
              then d\<lparr>core_unidentified_interrupts_count := core_unidentified_interrupts_count d + 1,
                     unidentified_interrupts_count := unidentified_interrupts_count d + 1\<rparr> else d);
         tick = (0 \<noteq> (sources AND 2));
         d = (if tick
              then (let d = d\<lparr>last_cval := last_cval d + ucast (ticks_per_millisecond d)\<rparr>;
                        d = d\<lparr>cntp_cval := last_cval d\<rparr>
                    in d\<lparr>ms_ticks := ms_ticks d + 1\<rparr>) else d);
         (calls, d) = handler_loop 12 0 sources d
     in (tick, calls, d))"

definition core_timer_value :: "u32 \<Rightarrow> u32 \<Rightarrow> u64" where
  "core_timer_value ls ms = ucast ls OR push_bit 32 (ucast ms)"

text \<open>Word offsets of the device registers.\<close>

definition QA7_control :: nat where "QA7_control = 0"
definition QA7_timer_prescaler :: nat where "QA7_timer_prescaler = 2"
definition QA7_GPU_interrupts_routing :: nat where "QA7_GPU_interrupts_routing = 3"
definition QA7_Local_Interrupt_routing0 :: nat where "QA7_Local_Interrupt_routing0 = 9"
definition QA7_Local_timer_control_and_status :: nat where "QA7_Local_timer_control_and_status = 13"
definition QA7_Local_timer_write_flags :: nat where "QA7_Local_timer_write_flags = 14"
definition QA7_Core_timers_Interrupt_control :: nat where "QA7_Core_timers_Interrupt_control = 16"
definition QA7_Core_IRQ_Source :: nat where "QA7_Core_IRQ_Source = 24"

definition write_QA7 :: "nat \<Rightarrow> u32 \<Rightarrow> system_driver \<Rightarrow> system_driver" where
  "write_QA7 i v d = d\<lparr>QA7 := (QA7 d)(i := v)\<rparr>"

text \<open>The device page is requested from the kernel at the address of \<^verbatim>\<open>device_pages\<close>.\<close>

definition board_initialise :: "u64 \<Rightarrow> u64 \<Rightarrow> system_world \<Rightarrow> system_world result" where
  "board_initialise th device_pages w =
    rbind (request_add_device_page th (set_reg th 2 device_pages (set_reg th 1 0x40000000 (w_kernel w)))) (\<lambda>(sw, k).
      let w = w\<lparr>w_kernel := k\<rparr>;
          w = upd_system (\<lambda>d. d\<lparr>initial_interrupts_routing := QA7 d QA7_GPU_interrupts_routing\<rparr>) w
      in Inr (upd_system (write_QA7 QA7_GPU_interrupts_routing 0) w))"

definition start_ms_timer :: "u64 \<Rightarrow> u32 \<Rightarrow> system_driver \<Rightarrow> system_driver result" where
  "start_ms_timer now frequency d =
    (if this_core_number d \<ge> 4 then Inl FAULT
     else
       (let d = write_QA7 QA7_Local_Interrupt_routing0 0 d;
            d = write_QA7 QA7_timer_prescaler 0x80000000 d;
            d = write_QA7 QA7_control (push_bit 8 1) d;
            d = write_QA7 QA7_Local_timer_control_and_status (push_bit 28 1 OR 100000) d;
            d = write_QA7 QA7_Local_timer_write_flags (push_bit 31 1 OR push_bit 30 1) d;
            d = write_QA7 QA7_Core_IRQ_Source 0xffd d;
            d = write_QA7 (QA7_Core_IRQ_Source + 1) 0x00d d;
            d = write_QA7 (QA7_Core_IRQ_Source + 2) 0x00d d;
            d = write_QA7 (QA7_Core_IRQ_Source + 3) 0x00d d;
            d = write_QA7 (QA7_Core_timers_Interrupt_control + unat (this_core_number d)) 2 d;
            d = d\<lparr>ticks_per_millisecond := frequency div 1000\<rparr>;
            d = d\<lparr>last_cval := now + ucast (ticks_per_millisecond d)\<rparr>;
            d = d\<lparr>cntp_cval := last_cval d\<rparr>
        in Inr (d\<lparr>cntp_ctl := 5\<rparr>)))"

section \<open>Physical memory blocks\<close>

definition get_device_page :: "u64 \<Rightarrow> u64 \<Rightarrow> system_world \<Rightarrow> (u64 \<times> system_world) result" where
  "get_device_page th pa w =
    interface_to_return th System_Service_PhysicalMemoryBlock (mk_cmb (drop_bit 12 pa) 1 Device_nGnRnE) w"

definition get_physical_memory_block :: "u64 \<Rightarrow> u64 \<Rightarrow> u64 \<Rightarrow> system_world \<Rightarrow> (u64 \<times> system_world) result" where
  "get_physical_memory_block th start sz w =
    interface_to_return th System_Service_PhysicalMemoryBlock
      (mk_cmb (drop_bit 12 start) (drop_bit 12 sz) Fully_Cacheable) w"

definition cmb_physical_address :: "u64 \<Rightarrow> u64" where
  "cmb_physical_address cmb = int_shl_12 (cmb_start_page cmb)"

definition cmb_size :: "u64 \<Rightarrow> u64" where
  "cmb_size cmb = int_shl_12 (cmb_page_count cmb)"

definition cmb_is_read_only :: "u64 \<Rightarrow> u64" where
  "cmb_is_read_only cmb = cmb_read_only cmb"

definition read_only_copy :: "u64 \<Rightarrow> u64 \<Rightarrow> system_world \<Rightarrow> (u64 \<times> system_world) result" where
  "read_only_copy th cmb w =
    interface_to_return th System_Service_PhysicalMemoryBlock (set_cmb_read_only 1 cmb) w"

definition subblock_of :: "u64 \<Rightarrow> u64 \<Rightarrow> u64 \<Rightarrow> u64" where
  "subblock_of cmb offset sz =
    (let new_cmb = set_cmb_is_subpage 1 cmb;
         new_cmb = set_cmb_start_page (cmb_start_page new_cmb + drop_bit 12 offset) new_cmb
     in set_cmb_page_count (drop_bit 12 sz) new_cmb)"

definition subblock :: "u64 \<Rightarrow> u64 \<Rightarrow> u64 \<Rightarrow> u64 \<Rightarrow> system_world \<Rightarrow> (u64 \<times> system_world) result" where
  "subblock th cmb offset sz w =
    (if offset AND 0xfff \<noteq> 0 then driver_exception
     else if sz AND 0xfff \<noteq> 0 then driver_exception
     else interface_to_return th System_Service_PhysicalMemoryBlock (subblock_of cmb offset sz) w)"

section \<open>Virtual memory blocks\<close>

text \<open>The arguments of the heap requests: 32-bit arithmetic for the offset, the number of bytes of the
  blocks for the length.\<close>

definition map_heap_offset :: "u64 \<Rightarrow> u64" where
  "map_heap_offset m = ucast (push_bit 4 (ucast (mv_heap_offset_lsr4 m) :: u32))"

definition map_vmb_bytes :: "u64 \<Rightarrow> u64" where
  "map_vmb_bytes m = mv_number_of_vmbs m * 8"

definition new_vmb :: "u64 \<Rightarrow> u64 \<Rightarrow> u64 \<Rightarrow> u64 \<Rightarrow> u64" where
  "new_vmb start cmb blk v =
    (let v = set_vmb_start_page (drop_bit 12 start) v;
         v = set_vmb_page_count (cmb_page_count cmb) v;
         v = set_vmb_read_only 0 v;
         v = set_vmb_executable 0 v
     in set_vmb_memory_block blk v)"

fun map_at_loop :: "nat \<Rightarrow> nat \<Rightarrow> u64 \<Rightarrow> u64 \<Rightarrow> u64 \<Rightarrow> (nat \<Rightarrow> u64) \<Rightarrow> (nat \<Rightarrow> u64) result" where
  "map_at_loop 0 i start cmb blk v = Inr v"
| "map_at_loop (Suc n) i start cmb blk v =
    (if vmb_page_count (v i) = 0 then
       (if i + 1 < MAX_VMBS then Inr (v(i := new_vmb start cmb blk (v i), i + 1 := 0)) else Inl FAULT)
     else map_at_loop n (i + 1) start cmb blk v)"

definition map_at :: "u64 \<Rightarrow> u64 \<Rightarrow> u64 \<Rightarrow> u64 \<Rightarrow> system_world \<Rightarrow> system_world result" where
  "map_at me m blk start w =
    rbind (claim_vmb_lock me w) (\<lambda>w.
    rbind (special_read_interface blk (w_kernel w)) (\<lambda>cmb.
    rbind (special_read_heap (map_heap_offset m) (map_vmb_bytes m) (w_kernel w) (vmbs (w_system w))) (\<lambda>v.
    rbind (map_at_loop (unat (mv_number_of_vmbs m)) 0 start cmb blk v) (\<lambda>v.
    let w = upd_system (\<lambda>d. d\<lparr>vmbs := v\<rparr>) w in
    rbind (special_write_heap (map_heap_offset m) (map_vmb_bytes m) (vmbs (w_system w)) (w_kernel w)) (\<lambda>k.
      Inr (release_vmb_lock (w\<lparr>w_kernel := k\<rparr>)))))))"

text \<open>Moving the following blocks down by one, while the block at the index is not empty.\<close>

fun shift_down :: "nat \<Rightarrow> nat \<Rightarrow> (nat \<Rightarrow> u64) \<Rightarrow> nat \<Rightarrow> u64" where
  "shift_down 0 j v = v"
| "shift_down (Suc n) j v = (if v j \<noteq> 0 then shift_down n (j + 1) (v(j := v (j + 1))) else v)"

fun unmap_loop :: "nat \<Rightarrow> nat \<Rightarrow> u64 \<Rightarrow> (nat \<Rightarrow> u64) \<Rightarrow> (u64 \<times> (nat \<Rightarrow> u64)) result" where
  "unmap_loop 0 i start v = Inr (0, v)"
| "unmap_loop (Suc n) i start v =
    (if vmb_page_count (v i) \<noteq> 0 \<and> vmb_start_page (v i) = drop_bit 12 start then
       (let mapped_block = vmb_memory_block (v i);
            v = shift_down n i v
        in if i + 1 < MAX_VMBS then Inr (mapped_block, v(i + 1 := 0)) else Inl FAULT)
     else unmap_loop n (i + 1) start v)"

definition unmap :: "u64 \<Rightarrow> u64 \<Rightarrow> u64 \<Rightarrow> system_world \<Rightarrow> (u64 \<times> system_world) result" where
  "unmap me m start w =
    rbind (claim_vmb_lock me w) (\<lambda>w.
    rbind (special_read_heap (map_heap_offset m) (map_vmb_bytes m) (w_kernel w) (vmbs (w_system w))) (\<lambda>v.
    rbind (unmap_loop (unat (mv_number_of_vmbs m)) 0 start v) (\<lambda>(mapped_block, v).
    let w = upd_system (\<lambda>d. d\<lparr>vmbs := v\<rparr>) w in
    rbind (special_write_heap (map_heap_offset m) (map_vmb_bytes m) (vmbs (w_system w)) (w_kernel w)) (\<lambda>k.
    let w = release_vmb_lock (w\<lparr>w_kernel := k\<rparr>) in
    if mapped_block = 0 then driver_exception else Inr (mapped_block, w)))))"

section \<open>Services, memory and threads\<close>

definition create_thread :: "u64 \<Rightarrow> u64 \<Rightarrow> u64 \<Rightarrow> system_world \<Rightarrow> (thread_switch \<times> system_world) result" where
  "create_thread th code stack_top w =
    rbind (request_create_thread th (set_reg th 2 stack_top (set_reg th 1 code (w_kernel w)))) (\<lambda>(sw, k).
      Inr (sw, w\<lparr>w_kernel := k\<rparr>))"

definition physical_address_of_service :: "(u64 \<times> system_world) result" where
  "physical_address_of_service = driver_exception"

definition register_service :: "u64 \<Rightarrow> u64 \<Rightarrow> u64 \<Rightarrow> system_driver \<Rightarrow> system_driver result" where
  "register_service name_crc serv type_crc d =
    (if free_service d < 50 then
       Inr (d\<lparr>services := (services d)(free_service d :=
              \<lparr>sv_service = serv, sv_type_crc = type_crc, sv_name_crc = name_crc\<rparr>),
             free_service := free_service d + 1\<rparr>)
     else Inl FAULT)"

fun find_service :: "nat \<Rightarrow> nat \<Rightarrow> u64 \<Rightarrow> u64 \<Rightarrow> system_driver \<Rightarrow> u64 option" where
  "find_service 0 i name_crc type_crc d = None"
| "find_service (Suc n) i name_crc type_crc d =
    (if sv_name_crc (services d i) = name_crc \<and> (type_crc = 0 \<or> type_crc = sv_type_crc (services d i))
     then Some (sv_service (services d i)) else find_service n (i + 1) name_crc type_crc d)"

definition get_service :: "u64 \<Rightarrow> u64 \<Rightarrow> u64 \<Rightarrow> u64 \<Rightarrow> system_world \<Rightarrow> (u64 \<times> system_world) result" where
  "get_service th name_crc type_crc timeout w =
    (case find_service (free_service (w_system w)) 0 name_crc type_crc (w_system w) of
       Some serv \<Rightarrow> duplicate_to_return th serv w
     | None \<Rightarrow> Inr (0, w))"

definition set_memory_top :: "u64 \<Rightarrow> system_world \<Rightarrow> system_world result" where
  "set_memory_top new_top w =
    rbind (call_memory_manager 0 (allocatable_memory_base (w_system w)) new_top w) (\<lambda>(_, w).
      Inr (upd_system (\<lambda>d. d\<lparr>allocatable_memory_top := new_top\<rparr>) w))"

definition allocate_memory :: "u64 \<Rightarrow> u64 \<Rightarrow> system_world \<Rightarrow> (u64 \<times> system_world) result" where
  "allocate_memory th sz w =
    (if allocatable_memory_top (w_system w) = 0 then driver_exception
     else rbind (call_memory_manager 1 sz 0 w) (\<lambda>(r, w).
       if r \<noteq> 0 then
         interface_to_return th System_Service_PhysicalMemoryBlock
           (mk_cmb (drop_bit 12 r) (drop_bit 12 sz) Fully_Cacheable) w
       else Inr (0, w)))"

definition get_core_interrupts_count :: "system_driver \<Rightarrow> u64" where
  "get_core_interrupts_count d = core_interrupts_count d"

definition get_ms_timer_ticks :: "system_driver \<Rightarrow> u64" where
  "get_ms_timer_ticks d = ms_ticks d"

definition make_partner_thread :: "u64 \<Rightarrow> system_world \<Rightarrow> (thread_switch \<times> system_world) result" where
  "make_partner_thread th w =
    rbind (request_make_partner th (w_kernel w)) (\<lambda>(sw, k). Inr (sw, w\<lparr>w_kernel := k\<rparr>))"

section \<open>Start\<close>

definition create_interrupt_handler_thread :: "u64 \<Rightarrow> u64 \<Rightarrow> u64 \<Rightarrow> system_world \<Rightarrow> system_world result" where
  "create_interrupt_handler_thread th interrupt_handler_thread stack_top w =
    rbind (create_thread th interrupt_handler_thread stack_top w) (\<lambda>(sw, w). Inr w)"

text \<open>The idle thread up to its endless loop; \<^verbatim>\<open>code\<close>, \<^verbatim>\<open>stack_top\<close> and \<^verbatim>\<open>device_pages\<close> are addresses of
  the driver, \<^verbatim>\<open>now\<close> and \<^verbatim>\<open>frequency\<close> the timer registers.\<close>

definition idle_thread_entry ::
    "u64 \<Rightarrow> u64 \<Rightarrow> u64 \<Rightarrow> u64 \<Rightarrow> u64 \<Rightarrow> u32 \<Rightarrow> u64 \<Rightarrow> u32 \<Rightarrow> u64 \<Rightarrow> system_world \<Rightarrow> system_world result" where
  "idle_thread_entry th code stack_top device_pages now frequency memory_manager_map number first_free_page w =
    (let w = upd_system (\<lambda>d. d\<lparr>allocatable_memory_base := first_free_page\<rparr>) w;
         w = upd_system (\<lambda>d. d\<lparr>this_core_number := ucast number\<rparr>) w
     in rbind
       (if number = 0 then
          (let w = upd_system (\<lambda>d. d\<lparr>memory_manager := memory_manager_map\<rparr>) w in
           rbind (board_initialise th device_pages w) (\<lambda>w.
           rbind (call_memory_manager 0 (allocatable_memory_base (w_system w)) (256 * 1024 * 1024) w) (\<lambda>(_, w).
             Inr (upd_system (\<lambda>d. d\<lparr>allocatable_memory_top := 512 * 1024 * 1024, board_initialised := True\<rparr>) w))))
        else if board_initialised (w_system w) then
          rbind (request_updated_map th (w_kernel w)) (\<lambda>(sw, k). Inr (w\<lparr>w_kernel := k\<rparr>))
        else Inl HANG) (\<lambda>w.
     rbind (create_interrupt_handler_thread th code stack_top w) (\<lambda>w.
       if number = 0
       then rbind (start_ms_timer now frequency (w_system w)) (\<lambda>d. Inr (w\<lparr>w_system := d\<rparr>))
       else Inr w)))"

section \<open>Interrupts reach their handlers\<close>

lemma bit_test_iff: "i < 32 \<Longrightarrow> 2 ^ i AND (s :: u32) \<noteq> 0 \<longleftrightarrow> bit s i"
  by (metis and.commute and_exp_eq_0_iff_not_bit)

lemma handler_loop_calls:
  "i + n \<le> 32 \<Longrightarrow>
   fst (handler_loop n i sources d) =
     map (interrupt_handlers d) (filter (\<lambda>j. bit sources j \<and> interrupt_handlers d j \<noteq> 0) [i..<i + n])"
proof (induction n arbitrary: i sources d)
  case (Suc n)
  have u: "[i..<i + Suc n] = i # [Suc i..<Suc (i + n)]" by (simp add: upt_conv_Cons One_nat_def)
  have f: "filter (\<lambda>j. bit (sources AND NOT (2 ^ i)) j \<and> interrupt_handlers d j \<noteq> 0) [Suc i..<Suc (i + n)]
      = filter (\<lambda>j. bit sources j \<and> interrupt_handlers d j \<noteq> 0) [Suc i..<Suc (i + n)]"
    using Suc.prems by (intro filter_cong) (auto simp: bit_simps)
  have IH: "fst (handler_loop n (Suc i) s d') =
     map (interrupt_handlers d') (filter (\<lambda>j. bit s j \<and> interrupt_handlers d' j \<noteq> 0) [Suc i..<Suc (i + n)])" for s d'
    using Suc.IH [of "Suc i" s d'] Suc.prems by (simp del: upt_Suc)
  show ?case
  proof (cases "sources = 0")
    case False
    have "i < 32" using Suc.prems by simp
    then show ?thesis
      using False unfolding u by (simp add: bit_test_iff IH f split_beta Let_def del: upt_Suc)
  qed simp
qed simp

lemma handler_loop_keeps:
  "interrupt_handlers (snd (handler_loop n i sources d)) = interrupt_handlers d \<and> ms_ticks (snd (handler_loop n i sources d)) = ms_ticks d"
  by (induction n i sources d rule: handler_loop.induct) (auto simp: Let_def split_beta)

section \<open>Services are found\<close>

lemma find_service_first:
  "find_service n i name_crc type_crc d =
     map_option (\<lambda>j. sv_service (services d j))
       (List.find (\<lambda>j. sv_name_crc (services d j) = name_crc \<and> (type_crc = 0 \<or> type_crc = sv_type_crc (services d j)))
          [i..<i + n])"
proof (induction n arbitrary: i)
  case (Suc n)
  have u: "[i..<i + Suc n] = i # [Suc i..<Suc (i + n)]" by (simp add: upt_conv_Cons One_nat_def)
  show ?case unfolding u using Suc [of "Suc i"] by (auto simp del: upt_Suc)
qed simp

section \<open>Mapping a block\<close>

definition kernel_word_ok :: "kernel \<Rightarrow> u64 \<Rightarrow> bool" where
  "kernel_word_ok k off \<longleftrightarrow>
     off < 0x200000 \<and> bit (kernel_tt_l3 k (unat (drop_bit 12 off))) 0 \<and> \<not> bit (kernel_tt_l3 k (unat (drop_bit 12 off))) 7"

definition heap_slot :: "u64 \<Rightarrow> nat \<Rightarrow> u64" where
  "heap_slot s j = s + of_nat (8 * j)"

lemma heap_slot_Suc: "heap_slot (s + 8) j = heap_slot s (Suc j)"
  by (simp add: heap_slot_def)

lemma copy_from_heap_result:
  assumes "\<forall>j<n. kernel_word_ok k (heap_slot s j)" and "i + n \<le> MAX_VMBS"
  shows "copy_from_heap n i s k d = Inr (\<lambda>j. if i \<le> j \<and> j < i + n then heap_words k (heap_slot s (j - i)) else d j)"
  using assms
proof (induction n arbitrary: i s d)
  case 0
  then show ?case by (auto simp: fun_eq_iff)
next
  case (Suc n)
  have ok: "kernel_word_ok k s" using Suc.prems(1) [rule_format, of 0] by (simp add: heap_slot_def)
  have "\<forall>j<n. kernel_word_ok k (heap_slot (s + 8) j)" using Suc.prems(1) by (auto simp: heap_slot_Suc)
  then have "copy_from_heap n (i + 1) (s + 8) k d' =
      Inr (\<lambda>j. if i + 1 \<le> j \<and> j < i + 1 + n then heap_words k (heap_slot (s + 8) (j - (i + 1))) else d' j)" for d'
    using Suc.prems(2) by (intro Suc.IH) simp_all
  moreover have "heap_slot (s + 8) (j - (i + 1)) = heap_slot s (j - i)" if "i + 1 \<le> j" for j
    using that by (simp add: heap_slot_Suc Suc_diff_Suc One_nat_def)
  ultimately show ?case
    using ok Suc.prems(2)
    by (auto simp: read_kernel64_def kernel_word_ok_def fun_eq_iff heap_slot_def One_nat_def)
qed

lemma heap_slot_inj:
  assumes "unat s + 8 * n \<le> 2 ^ 22" and "i < n" and "j < n" and "heap_slot s i = heap_slot s j"
  shows "i = j"
proof -
  have "unat (heap_slot s m) = unat s + 8 * m" if "m < n" for m
  proof -
    have "unat (of_nat (8 * m) :: u64) = 8 * m" using that assms(1) by (intro unat_of_nat_u64) simp
    then show ?thesis using that assms(1) by (simp add: heap_slot_def unat_add_lem [THEN iffD1])
  qed
  then show ?thesis using assms(2-4) by (metis add_left_cancel mult_left_cancel zero_neq_numeral)
qed

lemma copy_to_heap_result:
  assumes "\<forall>j<n. kernel_word_ok k (heap_slot d j)" and "i + n \<le> MAX_VMBS" and "unat d + 8 * n \<le> 2 ^ 22"
  shows "\<exists>k'. copy_to_heap n i d s k = Inr k' \<and> k' = k\<lparr>heap_words := heap_words k'\<rparr>
     \<and> (\<forall>j<n. heap_words k' (heap_slot d j) = s (i + j))
     \<and> (\<forall>a. a \<notin> heap_slot d ` {..<n} \<longrightarrow> heap_words k' a = heap_words k a)"
  using assms
proof (induction n arbitrary: i d k)
  case 0
  then show ?case by simp
next
  case (Suc n)
  let ?k = "k\<lparr>heap_words := (heap_words k)(d := s i)\<rparr>"
  have d0: "heap_slot d 0 = d" by (simp add: heap_slot_def)
  have w: "write_kernel64 k d (s i) = Inr ?k"
    using Suc.prems(1) [rule_format, of 0] d0 by (simp add: write_kernel64_def kernel_word_ok_def)
  have u: "unat (d + 8) = unat d + 8" using Suc.prems(3) by (simp add: unat_add_lem [THEN iffD1])
  have "\<forall>j<n. kernel_word_ok ?k (heap_slot (d + 8) j)"
    using Suc.prems(1) by (auto simp: heap_slot_Suc kernel_word_ok_def)
  then obtain k' where k': "copy_to_heap n (i + 1) (d + 8) s ?k = Inr k'" "k' = ?k\<lparr>heap_words := heap_words k'\<rparr>"
      "\<forall>j<n. heap_words k' (heap_slot d (Suc j)) = s (i + 1 + j)"
      "\<forall>a. a \<notin> (\<lambda>j. heap_slot d (Suc j)) ` {..<n} \<longrightarrow> heap_words k' a = heap_words ?k a"
    using Suc.IH [of ?k "d + 8" "i + 1"] Suc.prems(2,3) u by (auto simp: heap_slot_Suc)
  have ne: "d \<notin> (\<lambda>j. heap_slot d (Suc j)) ` {..<n}"
  proof
    assume "d \<in> (\<lambda>j. heap_slot d (Suc j)) ` {..<n}"
    then obtain j where "j < n" "heap_slot d 0 = heap_slot d (Suc j)" using d0 by auto
    then show False using heap_slot_inj [OF Suc.prems(3), of 0 "Suc j"] by simp
  qed
  have "heap_words k' (heap_slot d j) = s (i + j)" if "j < Suc n" for j
    using that k'(3,4) ne d0 by (cases j) (auto simp: One_nat_def)
  moreover have "heap_words k' a = heap_words k a" if "a \<notin> heap_slot d ` {..<Suc n}" for a
  proof -
    have "a \<noteq> d" using that d0 by force
    moreover have "a \<notin> (\<lambda>j. heap_slot d (Suc j)) ` {..<n}" using that by auto
    ultimately show ?thesis using k'(4) by simp
  qed
  moreover have "k' = k\<lparr>heap_words := heap_words k'\<rparr>" by (subst k'(2)) simp
  ultimately show ?case using w k'(1) Suc.prems(2) by auto
qed

section \<open>The blocks of a map\<close>

text \<open>The array of virtual memory blocks that a map value names lies in the kernel's heap.\<close>

definition vmbs_start :: "kernel \<Rightarrow> u64 \<Rightarrow> u64" where
  "vmbs_start k m = ucast (kernel_heap_top k) - map_heap_offset m"

definition vmbs_in_heap :: "kernel \<Rightarrow> u64 \<Rightarrow> bool" where
  "vmbs_in_heap k m \<longleftrightarrow>
     map_heap_offset m \<le> ucast (kernel_heap_top k - kernel_heap_bottom k)
     \<and> even (unat (mv_number_of_vmbs m)) \<and> unat (mv_number_of_vmbs m) \<le> MAX_VMBS
     \<and> unat (vmbs_start k m) + 8 * unat (mv_number_of_vmbs m) \<le> 2 ^ 22
     \<and> (\<forall>j<unat (mv_number_of_vmbs m). kernel_word_ok k (heap_slot (vmbs_start k m) j))"

lemma map_heap_offset_aligned: "map_heap_offset m AND 15 = 0"
proof -
  have e: "(15 :: u64) = mask 4" by (simp add: mask_eq_exp_minus_1)
  show ?thesis unfolding e
    by (intro bit_eqI) (auto simp: map_heap_offset_def bit_and_iff bit_mask_iff bit_ucast_iff bit_push_bit_iff)
qed

lemma even_unat_u64: "even (unat (x :: u64)) \<longleftrightarrow> even x"
  using bit_unsigned_iff [of x 0, where ?'a = nat] by (simp add: bit_0)

lemma map_vmb_bytes_aligned:
  assumes "even (unat (mv_number_of_vmbs m))"
  shows "map_vmb_bytes m AND 15 = 0"
proof -
  have e: "(15 :: u64) = mask 4" "mv_number_of_vmbs m * 8 = push_bit 3 (mv_number_of_vmbs m)"
    by (simp_all add: mask_eq_exp_minus_1 push_bit_eq_mult)
  have "\<not> bit (mv_number_of_vmbs m) 0" using assms by (simp add: bit_0 even_unat_u64)
  then have "\<not> bit (push_bit 3 (mv_number_of_vmbs m)) n" if "n < 4" for n
    using that by (cases "n = 3") (auto simp: bit_simps)
  then show ?thesis
    unfolding map_vmb_bytes_def e by (intro bit_eqI) (auto simp: bit_and_iff bit_mask_iff)
qed

lemma map_vmb_bytes_count: "map_vmb_bytes m div 8 = mv_number_of_vmbs m"
proof -
  have "unat (mv_number_of_vmbs m) < 2 ^ 12"
    using get_field_lt [of 12 52 m] by (simp add: mv_number_of_vmbs_def word_less_nat_alt)
  then show ?thesis by (simp add: map_vmb_bytes_def word_unat_eq_iff unat_div unat_word_ariths)
qed

lemmas vmb_bytes_facts = map_heap_offset_aligned map_vmb_bytes_aligned map_vmb_bytes_count

lemma read_vmbs:
  assumes "vmbs_in_heap k m"
  shows "special_read_heap (map_heap_offset m) (map_vmb_bytes m) k d =
    Inr (\<lambda>j. if j < unat (mv_number_of_vmbs m) then heap_words k (heap_slot (vmbs_start k m) j) else d j)"
  using assms copy_from_heap_result [of "unat (mv_number_of_vmbs m)" k "vmbs_start k m" 0 d]
  by (auto simp: special_read_heap_def vmbs_in_heap_def vmb_bytes_facts not_less vmbs_start_def fun_eq_iff)

lemma write_vmbs:
  assumes "vmbs_in_heap k m"
  shows "\<exists>k'. special_write_heap (map_heap_offset m) (map_vmb_bytes m) v k = Inr k'
     \<and> k' = k\<lparr>heap_words := heap_words k'\<rparr>
     \<and> (\<forall>j<unat (mv_number_of_vmbs m). heap_words k' (heap_slot (vmbs_start k m) j) = v j)
     \<and> (\<forall>a. a \<notin> heap_slot (vmbs_start k m) ` {..<unat (mv_number_of_vmbs m)} \<longrightarrow> heap_words k' a = heap_words k a)"
  using assms copy_to_heap_result [of "unat (mv_number_of_vmbs m)" k "vmbs_start k m" 0 v]
  by (auto simp: special_write_heap_def vmbs_in_heap_def vmb_bytes_facts not_less vmbs_start_def)

lemma vmb_table_slots:
  assumes "\<forall>j\<le>length vs. kernel_word_ok k (heap_slot s j)"
  shows "vmb_table k s vs \<longleftrightarrow>
    (\<forall>j<length vs. heap_words k (heap_slot s j) = vs ! j \<and> vmb_page_count (vs ! j) \<noteq> 0)
    \<and> vmb_page_count (heap_words k (heap_slot s (length vs))) = 0"
  using assms
proof (induction vs arbitrary: s)
  case Nil
  then show ?case by (auto simp: read_kernel64_def kernel_word_ok_def heap_slot_def)
next
  case (Cons v vs)
  have "kernel_word_ok k s" using Cons.prems [rule_format, of 0] by (simp add: heap_slot_def)
  then have "read_kernel64 k s = Inr (heap_words k s)" by (simp add: read_kernel64_def kernel_word_ok_def)
  moreover have "\<forall>j\<le>length vs. kernel_word_ok k (heap_slot (s + 8) j)"
    using Cons.prems by (auto simp: heap_slot_Suc)
  ultimately show ?case
    using Cons.IH [of "s + 8"] by (simp add: heap_slot_Suc All_less_Suc2) (simp add: heap_slot_def)
qed

text \<open>The array that the driver works on, as a list of blocks up to the first empty one.\<close>

definition vmb_array :: "(nat \<Rightarrow> u64) \<Rightarrow> u64 list \<Rightarrow> bool" where
  "vmb_array v vs \<longleftrightarrow>
     (\<forall>j<length vs. v j = vs ! j \<and> vmb_page_count (vs ! j) \<noteq> 0) \<and> vmb_page_count (v (length vs)) = 0"

lemma map_at_loop_appends:
  assumes "\<forall>j<l. vmb_page_count (v (i + j)) \<noteq> 0" and "vmb_page_count (v (i + l)) = 0" and "l < n"
    and "i + l + 1 < MAX_VMBS"
  shows "map_at_loop n i start cmb blk v
    = Inr (v(i + l := new_vmb start cmb blk (v (i + l)), i + l + 1 := 0))"
  using assms
proof (induction n arbitrary: i l)
  case (Suc n)
  show ?case
  proof (cases l)
    case 0
    then show ?thesis using Suc.prems by (simp add: fun_upd_def)
  next
    case (Suc l')
    have "map_at_loop n (i + 1) start cmb blk v
      = Inr (v(i + 1 + l' := new_vmb start cmb blk (v (i + 1 + l')), i + 1 + l' + 1 := 0))"
      using Suc.prems Suc by (intro Suc.IH) (auto simp: One_nat_def)
    then show ?thesis using Suc.prems Suc by (auto simp: One_nat_def)
  qed
qed simp

lemma new_vmb_fields:
  "vmb_start_page (new_vmb start cmb blk v) = take_bit 24 (drop_bit 12 start)"
  "vmb_page_count (new_vmb start cmb blk v) = cmb_page_count cmb"
  "vmb_read_only (new_vmb start cmb blk v) = 0"
  "vmb_executable (new_vmb start cmb blk v) = 0"
  "vmb_memory_block (new_vmb start cmb blk v) = take_bit 18 blk"
  by (simp_all add: new_vmb_def field_simps_packed) (simp add: get_field_def)

text \<open>The effect of removing the block at index \<^verbatim>\<open>i\<close>: the first following block, or the end of the
  table, moves into its place, and the next entry becomes empty.\<close>

lemma shift_down_keeps: "j' < j \<Longrightarrow> shift_down n j v j' = v j'"
  by (induction n j v rule: shift_down.induct) auto

lemma unmap_loop_finds:
  assumes "\<forall>j<l. vmb_page_count (v (i + j)) \<noteq> 0 \<longrightarrow> vmb_start_page (v (i + j)) \<noteq> drop_bit 12 start"
    and "vmb_page_count (v (i + l)) \<noteq> 0" and "vmb_start_page (v (i + l)) = drop_bit 12 start"
    and "l + 1 < n" and "i + l + 1 < MAX_VMBS"
  shows "\<exists>v'. unmap_loop n i start v = Inr (vmb_memory_block (v (i + l)), v')
     \<and> (\<forall>j<i + l. v' j = v j) \<and> v' (i + l) = v (i + l + 1) \<and> v' (i + l + 1) = 0"
  using assms
proof (induction n arbitrary: i l)
  case (Suc n)
  show ?case
  proof (cases l)
    case 0
    obtain n' where n: "n = Suc n'" using Suc.prems(4) 0 by (cases n) auto
    have "v i \<noteq> 0" using Suc.prems(2) 0 by (auto simp: vmb_page_count_def)
    then have "shift_down n i v i = v (i + 1)" by (simp add: n shift_down_keeps)
    then show ?thesis using Suc.prems 0 by (auto simp: Let_def shift_down_keeps)
  next
    case (Suc l')
    have "\<exists>v'. unmap_loop n (i + 1) start v = Inr (vmb_memory_block (v (i + 1 + l')), v')
       \<and> (\<forall>j<i + 1 + l'. v' j = v j) \<and> v' (i + 1 + l') = v (i + 1 + l' + 1) \<and> v' (i + 1 + l' + 1) = 0"
      using Suc.prems Suc by (intro Suc.IH) (auto simp: One_nat_def)
    moreover have "\<not> (vmb_page_count (v i) \<noteq> 0 \<and> vmb_start_page (v i) = drop_bit 12 start)"
      using Suc.prems(1) [rule_format, of 0] Suc by auto
    ultimately show ?thesis using Suc by (auto simp: One_nat_def)
  qed
qed simp

text \<open>The table a map value names, and what the two operations make of it.\<close>

definition map_has_blocks :: "kernel \<Rightarrow> u64 \<Rightarrow> u64 list \<Rightarrow> bool" where
  "map_has_blocks k m vs \<longleftrightarrow> vmbs_in_heap k m \<and> vmb_table k (vmbs_start k m) vs"

lemma map_has_blocks_slots:
  assumes "vmbs_in_heap k m" and "length vs < unat (mv_number_of_vmbs m)"
  shows "map_has_blocks k m vs \<longleftrightarrow> vmb_array (\<lambda>j. heap_words k (heap_slot (vmbs_start k m) j)) vs"
  using assms vmb_table_slots [of vs k "vmbs_start k m"]
  by (auto simp: map_has_blocks_def vmb_array_def vmbs_in_heap_def)

lemma vmbs_in_heap_words: "vmbs_in_heap (k\<lparr>heap_words := h\<rparr>) m \<longleftrightarrow> vmbs_in_heap k m"
  "vmbs_start (k\<lparr>heap_words := h\<rparr>) m = vmbs_start k m"
  by (simp_all add: vmbs_in_heap_def vmbs_start_def kernel_word_ok_def)

lemma write_vmbs_blocks:
  assumes "vmbs_in_heap k m" and "length vs < unat (mv_number_of_vmbs m)" and "vmb_array v vs"
  shows "\<exists>k'. special_write_heap (map_heap_offset m) (map_vmb_bytes m) v k = Inr k'
     \<and> k' = k\<lparr>heap_words := heap_words k'\<rparr> \<and> map_has_blocks k' m vs"
proof -
  obtain k' where k': "special_write_heap (map_heap_offset m) (map_vmb_bytes m) v k = Inr k'"
      "k' = k\<lparr>heap_words := heap_words k'\<rparr>"
      "\<forall>j<unat (mv_number_of_vmbs m). heap_words k' (heap_slot (vmbs_start k m) j) = v j"
    using write_vmbs [OF assms(1)] by blast
  have h: "vmbs_in_heap k' m" "vmbs_start k' m = vmbs_start k m"
    using assms(1) vmbs_in_heap_words k'(2) by (metis, metis)
  have "map_has_blocks k' m vs"
    unfolding map_has_blocks_slots [OF h(1) assms(2)] h(2)
    using assms(2,3) k'(3) by (auto simp: vmb_array_def)
  then show ?thesis using k'(1,2) by blast
qed

lemma array_of_blocks:
  assumes "map_has_blocks k m vs" and "length vs < unat (mv_number_of_vmbs m)"
    and "v = (\<lambda>j. if j < unat (mv_number_of_vmbs m) then heap_words k (heap_slot (vmbs_start k m) j) else d j)"
  shows "vmb_array v vs"
proof -
  have "vmbs_in_heap k m" using assms(1) by (simp add: map_has_blocks_def)
  then show ?thesis using assms map_has_blocks_slots [of k m vs] by (auto simp: vmb_array_def)
qed

lemma map_at_result:
  assumes "map_has_blocks (w_kernel w) m vs" and "length vs + 1 < unat (mv_number_of_vmbs m)"
    and "special_read_interface blk (w_kernel w) = Inr cmb" and "cmb_page_count cmb \<noteq> 0"
    and "vmb_lock (w_system w) = 0"
  shows "\<exists>w' v. map_at me m blk start w = Inr w' \<and> map_has_blocks (w_kernel w') m (vs @ [v])
     \<and> vmb_start_page v = take_bit 24 (drop_bit 12 start) \<and> vmb_page_count v = cmb_page_count cmb
     \<and> vmb_read_only v = 0 \<and> vmb_executable v = 0 \<and> vmb_memory_block v = take_bit 18 blk
     \<and> w_kernel w' = (w_kernel w)\<lparr>heap_words := heap_words (w_kernel w')\<rparr> \<and> vmb_lock (w_system w') = 0"
proof -
  define k where "k = w_kernel w"
  define v where "v = (\<lambda>j. if j < unat (mv_number_of_vmbs m) then heap_words k (heap_slot (vmbs_start k m) j)
    else vmbs (w_system w) j)"
  define b where "b = new_vmb start cmb blk (v (length vs))"
  have h: "vmbs_in_heap k m" using assms(1) by (simp add: map_has_blocks_def k_def)
  have a: "vmb_array v vs" using assms(2) by (intro array_of_blocks [OF assms(1) [folded k_def] _ v_def]) simp
  have l: "map_at_loop (unat (mv_number_of_vmbs m)) 0 start cmb blk v = Inr (v(length vs := b, length vs + 1 := 0))"
    using a assms(2) h map_at_loop_appends [of "length vs" v 0]
    by (simp add: vmb_array_def b_def vmbs_in_heap_def One_nat_def)
  have "vmb_array (v(length vs := b, length vs + 1 := 0)) (vs @ [b])"
    using a assms(4)
    by (auto simp: vmb_array_def nth_append less_Suc_eq b_def new_vmb_fields vmb_page_count_def [THEN fun_cong, of 0])
  from write_vmbs_blocks [OF h _ this] assms(2) obtain k' where
      "special_write_heap (map_heap_offset m) (map_vmb_bytes m) (v(length vs := b, length vs + 1 := 0)) k = Inr k'"
      "k' = k\<lparr>heap_words := heap_words k'\<rparr>" "map_has_blocks k' m (vs @ [b])"
    by auto
  then show ?thesis
    using assms(3,5) l read_vmbs [OF h, of "vmbs (w_system w)"]
    by (intro exI [of _ "w\<lparr>w_kernel := k', w_system := (w_system w)\<lparr>vmbs := v(length vs := b, length vs + 1 := 0), vmb_lock := 0\<rparr>\<rparr>"] exI [of _ b])
       (simp add: map_at_def claim_vmb_lock_def release_vmb_lock_def upd_system_def Let_def new_vmb_fields b_def
          k_def v_def)
qed

lemma unmap_result:
  assumes "map_has_blocks (w_kernel w) m (us @ b # vs)" and "length us + length vs + 1 < unat (mv_number_of_vmbs m)"
    and "\<forall>u\<in>set us. vmb_start_page u \<noteq> drop_bit 12 start" and "vmb_start_page b = drop_bit 12 start"
    and "vmb_lock (w_system w) = 0" and "vmb_memory_block b \<noteq> 0"
  shows "\<exists>w'. unmap me m start w = Inr (vmb_memory_block b, w')
     \<and> map_has_blocks (w_kernel w') m (us @ take 1 vs)
     \<and> w_kernel w' = (w_kernel w)\<lparr>heap_words := heap_words (w_kernel w')\<rparr> \<and> vmb_lock (w_system w') = 0"
proof -
  define k where "k = w_kernel w"
  define v where "v = (\<lambda>j. if j < unat (mv_number_of_vmbs m) then heap_words k (heap_slot (vmbs_start k m) j)
    else vmbs (w_system w) j)"
  let ?l = "length us"
  have h: "vmbs_in_heap k m" using assms(1) by (simp add: map_has_blocks_def k_def)
  have a: "vmb_array v (us @ b # vs)"
    using assms(2) by (intro array_of_blocks [OF assms(1) [folded k_def] _ v_def]) simp
  have vj: "v j = (us @ b # vs) ! j" "vmb_page_count (v j) \<noteq> 0" if "j < length us + Suc (length vs)" for j
    using a that by (auto simp: vmb_array_def)
  have vb: "v ?l = b" "vmb_page_count b \<noteq> 0" using vj [of ?l] by auto
  have vu: "v j = us ! j" if "j < ?l" for j using vj [of j] that by (simp add: nth_append)
  have ve: "vmb_page_count (v (length us + Suc (length vs))) = 0" using a by (simp add: vmb_array_def)
  have "\<exists>v'. unmap_loop (unat (mv_number_of_vmbs m)) 0 start v = Inr (vmb_memory_block (v (0 + ?l)), v')
     \<and> (\<forall>j<0 + ?l. v' j = v j) \<and> v' (0 + ?l) = v (0 + ?l + 1) \<and> v' (0 + ?l + 1) = 0"
    using assms(2-4) vb vu h by (intro unmap_loop_finds) (auto simp: vmbs_in_heap_def)
  then obtain v' where v': "unmap_loop (unat (mv_number_of_vmbs m)) 0 start v = Inr (vmb_memory_block b, v')"
      "\<forall>j<?l. v' j = us ! j" "v' ?l = v (?l + 1)" "v' (?l + 1) = 0"
    using vb vu by auto
  have "vmb_page_count (us ! j) \<noteq> 0" if "j < ?l" for j
    using vj [of j] that by (simp add: nth_append)
  moreover have "v (?l + 1) = hd vs" "vmb_page_count (hd vs) \<noteq> 0" if "vs \<noteq> []"
    using vj [of "?l + 1"] that by (auto simp: nth_append hd_conv_nth One_nat_def)
  ultimately have "vmb_array v' (us @ take 1 vs)"
    using v'(2-4) ve
    by (cases vs) (auto simp: vmb_array_def nth_append less_Suc_eq vmb_page_count_def [THEN fun_cong, of 0] One_nat_def)
  moreover have "length (us @ take 1 vs) < unat (mv_number_of_vmbs m)" using assms(2) by auto
  ultimately obtain k' where
      "special_write_heap (map_heap_offset m) (map_vmb_bytes m) v' k = Inr k'"
      "k' = k\<lparr>heap_words := heap_words k'\<rparr>" "map_has_blocks k' m (us @ take 1 vs)"
    using write_vmbs_blocks [OF h] by blast
  then show ?thesis
    using assms(5,6) v'(1) read_vmbs [OF h, of "vmbs (w_system w)"]
    by (intro exI [of _ "w\<lparr>w_kernel := k', w_system := (w_system w)\<lparr>vmbs := v', vmb_lock := 0\<rparr>\<rparr>"])
       (simp add: unmap_def claim_vmb_lock_def release_vmb_lock_def upd_system_def Let_def k_def v_def)
qed

end
