(* ===== verification/System_Properties.thy ===== *)
theory System_Properties
  imports Kernel_Properties System_Driver
begin

text \<open>
  Properties of the system driver, each with a concrete instance: memory it maps is the memory the
  kernel's fault handler provides, what removing a block leaves of a map, interrupts reach their handlers,
  and services are found under their names.
\<close>

section \<open>Memory\<close>

text \<open>The thread runs in the map that the map value describes.\<close>

definition runs_in_map :: "kernel \<Rightarrow> u64 \<Rightarrow> u64 \<Rightarrow> bool" where
  "runs_in_map k th m \<longleftrightarrow>
     unat (current_map (threads k th)) < unat (kernel_last_interface k)
     \<and> current_map (threads k th) \<notin> {system_map_index, memory_allocator_map_index}
     \<and> mv_heap_offset_lsr4 m \<le> ucast (drop_bit 4 (kernel_heap_top k - kernel_heap_bottom k))
     \<and> object (interfaces k (unat (current_map (threads k th)))) = m
     \<and> kernel_heap_top k = top_of_kernel_working_memory"

lemma map_blocks_of_map_value:
  assumes "runs_in_map k th m"
  shows "map_blocks k th vs \<longleftrightarrow> vmb_table k (vmbs_start k m) vs"
proof -
  have "heap_pointer_from_offset_lsr4 (ucast (mv_heap_offset_lsr4 m)) - start_address = vmbs_start k m"
    using assms
    by (simp add: heap_pointer_from_offset_lsr4_def heap_pointer_from_offset_def vmbs_start_def map_heap_offset_def
        runs_in_map_def)
  then show ?thesis using assms by (auto simp: map_blocks_def runs_in_map_def Let_def)
qed

text \<open>An interface to a physical memory block of the system driver.\<close>

definition physical_block :: "kernel \<Rightarrow> u64 \<Rightarrow> u64 \<Rightarrow> bool" where
  "physical_block k blk cmb \<longleftrightarrow>
     blk < 2 ^ 18 \<and> unat blk < unat (kernel_last_interface k)
     \<and> provider (interfaces k (unat blk)) = system_map_index
     \<and> handler (interfaces k (unat blk)) = System_Service_PhysicalMemoryBlock
     \<and> object (interfaces k (unat blk)) = cmb"

lemma unat_ucast_small: "blk < 2 ^ 18 \<Longrightarrow> unat (ucast (blk :: u64) :: u32) = unat blk"
  by (simp add: unsigned_ucast_eq take_bit_nat_eq_self word_less_nat_alt)

lemma physical_block_reads:
  assumes "physical_block k blk cmb"
  shows "special_read_interface blk k = Inr cmb"
  using assms unat_ucast_small [of blk]
  by (auto simp: physical_block_def special_read_interface_def interface_from_index_def interface_at_def
      word_less_nat_alt word_le_nat_alt)

lemma physical_block_behind:
  assumes "physical_block k blk cmb" and "vmb_memory_block v = take_bit 18 blk"
  shows "physical_block_of k v cmb"
proof -
  have "take_bit 18 blk = blk"
    using assms(1) by (simp add: physical_block_def take_bit_eq_mask less_mask_eq)
  then show ?thesis
    using assms unat_ucast_small [of blk]
    by (auto simp: physical_block_def physical_block_of_def interface_from_index_def word_less_nat_alt)
qed

lemma page_shift:
  assumes "page < (2 :: u64) ^ 19"
  shows "drop_bit 12 (push_bit 12 page) = page" and "take_bit 24 page = page"
proof -
  have t: "take_bit 19 page = page" using assms by (simp add: take_bit_eq_mask less_mask_eq)
  then have b: "bit page n \<Longrightarrow> n < 19" for n by (metis bit_take_bit_iff)
  show "drop_bit 12 (push_bit 12 page) = page" using b by (intro bit_eqI) (force simp: bit_simps)
  show "take_bit 24 page = page" using b by (intro bit_eqI) (force simp: bit_take_bit_iff)
qed

text \<open>C16. Memory that is mapped can be used: when the system driver has mapped a physical block at a page
  of a map, the next fault of a thread of the map in that range gives it the byte at the same offset
  of the physical block.  The memory is writable and not executable, whatever the physical block
  says: a read-only copy of a block is writable once it is mapped.\<close>

theorem mapped_memory_is_usable:
  assumes "map_has_blocks (w_kernel w) m vs" and "length vs + 1 < unat (mv_number_of_vmbs m)"
    and "runs_in_map (w_kernel w) th m" and "physical_block (w_kernel w) blk cmb" and "vmb_lock (w_system w) = 0"
    and "page < 2 ^ 19" and "unat page \<le> unat (drop_bit 12 fa)"
    and "unat (drop_bit 12 fa) < unat page + unat (cmb_page_count cmb)"
    and "\<forall>v\<in>set vs. \<not> vmb_covers (drop_bit 12 fa) v" and "unat fa < 2 ^ 34"
    and "core_aligned (w_kernel w)" and "cmb_start_page cmb < 2 ^ 19"
    and "unat (push_bit 12 (cmb_start_page cmb)) + unat (fa - push_bit 12 page) < 2 ^ 32"
  shows "\<exists>w' k' e. map_at me m blk (push_bit 12 page) w = Inr w'
     \<and> find_and_map_memory th fa (w_kernel w') = Inr (True, k')
     \<and> translate k' fa = Some (push_bit 12 (cmb_start_page cmb) + (fa - push_bit 12 page), e)
     \<and> accessible_by_el0 e \<and> writable_by_el0 e \<and> \<not> executable_by_el0 e"
proof -
  have pc: "cmb_page_count cmb \<noteq> 0" using assms(7,8) by auto
  have p: "drop_bit 12 (push_bit 12 page) = page" "take_bit 24 page = page"
    using assms(6) page_shift [of page] by simp_all
  obtain w' v where w': "map_at me m blk (push_bit 12 page) w = Inr w'" "map_has_blocks (w_kernel w') m (vs @ [v])"
      "vmb_start_page v = page" "vmb_page_count v = cmb_page_count cmb" "vmb_read_only v = 0" "vmb_executable v = 0"
      "vmb_memory_block v = take_bit 18 blk" "w_kernel w' = (w_kernel w)\<lparr>heap_words := heap_words (w_kernel w')\<rparr>"
    using map_at_result [OF assms(1,2) physical_block_reads [OF assms(4)] pc assms(5), of me "push_bit 12 page"] p
    by auto
  define k where "k = w_kernel w'"
  have k: "k = (w_kernel w)\<lparr>heap_words := heap_words k\<rparr>" using w'(8) k_def by simp
  have same: "threads k = threads (w_kernel w)" "interfaces k = interfaces (w_kernel w)"
    "kernel_last_interface k = kernel_last_interface (w_kernel w)" "kernel_heap_top k = kernel_heap_top (w_kernel w)"
    "kernel_heap_bottom k = kernel_heap_bottom (w_kernel w)" "physical_address k = physical_address (w_kernel w)"
    by (subst k, simp)+
  have r: "runs_in_map k th m" "physical_block k blk cmb" "core_aligned k"
    using assms(3,4,11) same by (auto simp: runs_in_map_def physical_block_def core_aligned_def)
  have "map_blocks k th (vs @ [v])"
    using map_blocks_of_map_value [OF r(1)] w'(2) k_def by (simp add: map_has_blocks_def)
  moreover have "List.find (vmb_covers (drop_bit 12 fa)) (vs @ [v]) = Some v"
  proof -
    have "List.find (vmb_covers (drop_bit 12 fa)) vs = None" using assms(9) by (auto simp: find_None_iff)
    then show ?thesis using assms(7,8) w'(3,4) by (simp add: find_append vmb_covers_def)
  qed
  ultimately have "\<exists>k' e. find_and_map_memory th fa k = Inr (True, k')
     \<and> translate k' fa = Some (push_bit 12 (cmb_start_page cmb) + (fa - push_bit 12 (vmb_start_page v)), e)
     \<and> accessible_by_el0 e \<and> (writable_by_el0 e \<longleftrightarrow> vmb_read_only v = 0) \<and> (executable_by_el0 e \<longleftrightarrow> vmb_executable v \<noteq> 0)"
    using fault_maps_block [OF _ assms(10) _ physical_block_behind [OF r(2) w'(7)] r(3) assms(12)]
      w'(3) assms(6,13) by simp
  then show ?thesis using w'(1,3,5,6) by (auto simp: k_def)
qed

text \<open>A driver at its start, and map 3 with room for four blocks.\<close>

definition sample_driver :: system_driver where
  "sample_driver = \<lparr>vmb_lock = 0, vmbs = (\<lambda>_. 0),
     services = (\<lambda>_. \<lparr>sv_service = 0, sv_type_crc = 0, sv_name_crc = 0\<rparr>), free_service = 0, ms_ticks = 0,
     interrupt_handlers = (\<lambda>_. 0), all_interrupts = 0, ticks_per_millisecond = 1000, this_core_number = 0,
     last_cval = 0, core_interrupts_count = 0, core_unidentified_interrupts_count = 0, interrupts_count = 0,
     unidentified_interrupts_count = 0, interrupts_handled = (\<lambda>_. 0), QA7 = (\<lambda>_. 0), cntp_ctl = 0, cntp_cval = 0,
     memory_manager = 2, allocatable_memory_base = 0x10000, allocatable_memory_top = 0, board_initialised = False,
     initial_interrupts_routing = 0\<rparr>"

definition sample_world :: "(u64 \<Rightarrow> u64) \<Rightarrow> system_world" where
  "sample_world h = \<lparr>w_kernel = (set_interface 6 \<lparr>user = 3, provider = system_map_index,
        handler = System_Service_PhysicalMemoryBlock, object = mk_cmb 0x100 2 0\<rparr>
     (set_interface 3 \<lparr>user = 1, provider = system_map_index, handler = System_Service_Map,
        object = mk_map_value 0x100 0 4\<rparr> sample_kernel))\<lparr>heap_words := h\<rparr>,
     w_system = sample_driver, w_pma = sample_pma\<rparr>"

lemma sample_world_heap:
  "vmbs_start (w_kernel (sample_world h)) (mk_map_value 0x100 0 4) = 0x1ff000"
  "vmbs_in_heap (w_kernel (sample_world h)) (mk_map_value 0x100 0 4)"
proof -
  have n: "unat (mv_number_of_vmbs (mk_map_value 0x100 0 4)) = 4" by simp
  have o: "map_heap_offset (mk_map_value 0x100 0 4) = 0x1000" by (simp add: map_heap_offset_def push_bit_eq_mult)
  have t: "kernel_heap_top (w_kernel (sample_world h)) = 0x200000" "kernel_heap_bottom (w_kernel (sample_world h)) = 0x1fe000"
    "kernel_tt_l3 (w_kernel (sample_world h)) = (\<lambda>_. 3)"
    by (simp_all add: sample_world_def set_interface_def)
  show s: "vmbs_start (w_kernel (sample_world h)) (mk_map_value 0x100 0 4) = 0x1ff000"
    by (simp add: vmbs_start_def t o)
  have "(\<forall>j<4. P j) \<longleftrightarrow> P 0 \<and> P 1 \<and> P 2 \<and> P (3 :: nat)" for P
    by (auto simp: numeral_eq_Suc less_Suc_eq One_nat_def)
  moreover have "bit (3 :: u64) 0" "\<not> bit (3 :: u64) 7" by simp_all
  ultimately show "vmbs_in_heap (w_kernel (sample_world h)) (mk_map_value 0x100 0 4)"
    unfolding vmbs_in_heap_def n s o t by (simp add: MAX_VMBS_def kernel_word_ok_def heap_slot_def t)
qed

lemma sample_world_map:
  "runs_in_map (w_kernel (sample_world h)) T1 (mk_map_value 0x100 0 4)"
  "physical_block (w_kernel (sample_world h)) 6 (mk_cmb 0x100 2 0)"
  "core_aligned (w_kernel (sample_world h))"
  by (simp_all add: runs_in_map_def physical_block_def core_aligned_def sample_world_def set_interface_def
      system_map_index_def memory_allocator_map_index_def top_of_kernel_working_memory_def drop_bit_eq_div
      sample_kernel_def sample_thread_def One_nat_def)

lemma sample_blocks:
  assumes "length vs < 4" and "\<forall>j<length vs. h (0x1ff000 + of_nat (8 * j)) = vs ! j \<and> vmb_page_count (vs ! j) \<noteq> 0"
    and "vmb_page_count (h (0x1ff000 + of_nat (8 * length vs))) = 0"
  shows "map_has_blocks (w_kernel (sample_world h)) (mk_map_value 0x100 0 4) vs"
proof -
  have "heap_words (w_kernel (sample_world h)) = h" by (simp add: sample_world_def)
  moreover have "length vs < unat (mv_number_of_vmbs (mk_map_value 0x100 0 4))" using assms(1) by simp
  ultimately show ?thesis
    using map_has_blocks_slots [OF sample_world_heap(2) [of h]] assms(2,3)
    by (simp add: vmb_array_def heap_slot_def sample_world_heap(1))
qed

theorem mapped_memory_is_usable_witness:
  "\<exists>w' k' e. map_at 1 (mk_map_value 0x100 0 4) 6 0x10000 (sample_world (\<lambda>_. 0)) = Inr w'
     \<and> find_and_map_memory T1 0x11234 (w_kernel w') = Inr (True, k')
     \<and> translate k' 0x11234 = Some (0x101234, e) \<and> writable_by_el0 e"
proof -
  have "map_has_blocks (w_kernel (sample_world (\<lambda>_. 0))) (mk_map_value 0x100 0 4) []"
    by (rule sample_blocks) (simp_all add: vmb_page_count_def)
  moreover have "vmb_lock (w_system (sample_world (\<lambda>_. 0))) = 0" by (simp add: sample_world_def sample_driver_def)
  ultimately show ?thesis
    using mapped_memory_is_usable [OF _ _ sample_world_map(1) sample_world_map(2) _ _ _ _ _ _ sample_world_map(3),
        of "\<lambda>_. 0" "[]" "0x10" "0x11234" 1]
    by (simp add: drop_bit_eq_div push_bit_eq_mult One_nat_def) blast
qed

text \<open>Removing a block from a map returns its memory and keeps every block before it, but at most one
  of the blocks after it: the entry after the removed one is emptied when the later blocks have moved
  down, so that the table ends there.\<close>

theorem unmap_keeps_one_successor:
  assumes "map_has_blocks (w_kernel w) m (us @ b # vs)" and "length us + length vs + 1 < unat (mv_number_of_vmbs m)"
    and "\<forall>u\<in>set us. vmb_start_page u \<noteq> drop_bit 12 start" and "vmb_start_page b = drop_bit 12 start"
    and "vmb_lock (w_system w) = 0" and "vmb_memory_block b \<noteq> 0"
  shows "\<exists>w'. unmap me m start w = Inr (vmb_memory_block b, w') \<and> map_has_blocks (w_kernel w') m (us @ take 1 vs)"
  using unmap_result [OF assms] by blast

text \<open>Of three blocks the first is removed; the third is lost.\<close>

definition sample_block :: "u64 \<Rightarrow> u64" where
  "sample_block p = set_vmb_memory_block 6 (set_vmb_page_count 1 (set_vmb_start_page p 0))"

theorem unmap_keeps_one_successor_witness:
  "\<exists>w'. unmap 1 (mk_map_value 0x100 0 4) 0x10000
         (sample_world (\<lambda>a. if a = 0x1ff000 then sample_block 0x10 else if a = 0x1ff008 then sample_block 0x20
            else if a = 0x1ff010 then sample_block 0x30 else 0)) = Inr (6, w')
     \<and> map_has_blocks (w_kernel w') (mk_map_value 0x100 0 4) [sample_block 0x20]"
proof -
  let ?h = "\<lambda>a. if a = 0x1ff000 then sample_block 0x10 else if a = 0x1ff008 then sample_block 0x20
            else if a = 0x1ff010 then sample_block 0x30 else 0"
  have f: "vmb_page_count (sample_block p) = 1" "vmb_memory_block (sample_block p) = 6"
    "vmb_start_page (sample_block p) = take_bit 24 p" for p
    by (simp_all add: sample_block_def field_simps_packed)
  have "map_has_blocks (w_kernel (sample_world ?h)) (mk_map_value 0x100 0 4)
      ([] @ sample_block 0x10 # [sample_block 0x20, sample_block 0x30])"
    by (rule sample_blocks) (auto simp: f less_Suc_eq One_nat_def vmb_page_count_def [THEN fun_cong, of 0])
  moreover have "vmb_lock (w_system (sample_world ?h)) = 0" by (simp add: sample_world_def sample_driver_def)
  ultimately show ?thesis
    using unmap_keeps_one_successor [of "sample_world ?h" "mk_map_value 0x100 0 4" "[]" "sample_block 0x10"
        "[sample_block 0x20, sample_block 0x30]" "0x10000" 1]
    by (simp add: f drop_bit_eq_div One_nat_def)
qed

section \<open>Interrupts\<close>

text \<open>The interrupt dispatcher calls exactly the registered handlers of the sources whose bit is
  set, once each and in ascending order, with the second read of the source register when the
  first was zero; the millisecond counter advances exactly when the timer's bit is set.\<close>

theorem interrupts_reach_handlers:
  "\<exists>d'. board_call_interrupt_handlers first again d =
     (bit (if first = 0 then again else first) 1,
      map (interrupt_handlers d)
        (filter (\<lambda>i. bit (if first = 0 then again else first) i \<and> interrupt_handlers d i \<noteq> 0) [0..<12]), d')
   \<and> interrupt_handlers d' = interrupt_handlers d
   \<and> ms_ticks d' = ms_ticks d + (if bit (if first = 0 then again else first) 1 then 1 else 0)"
proof -
  have bit1: "(0 \<noteq> (s AND 2)) \<longleftrightarrow> bit s 1" for s :: u32
    using bit_test_iff [of 1 s] by (auto simp: and.commute)
  obtain d1 where d1: "board_call_interrupt_handlers first again d =
     (bit (if first = 0 then again else first) 1, handler_loop 12 0 (if first = 0 then again else first) d1)"
      "interrupt_handlers d1 = interrupt_handlers d"
      "ms_ticks d1 = ms_ticks d + (if bit (if first = 0 then again else first) 1 then 1 else 0)"
    unfolding board_call_interrupt_handlers_def Let_def bit1 by (simp add: split_beta)
  then show ?thesis
    using handler_loop_calls [of 0 12 "if first = 0 then again else first" d1]
      handler_loop_keeps [of 12 0 "if first = 0 then again else first" d1]
    by (simp add: prod_eq_iff)
qed

section \<open>Services\<close>

text \<open>C17. A service is found under its name: after a registration a lookup answers as before when it
  had an answer, so that the first registration of a name wins, and otherwise with the new service
  when the name, and the type where one is asked for, are those registered.\<close>

theorem registered_service_is_found:
  assumes "register_service name serv type d = Inr d'"
  shows "find_service (free_service d') 0 name' type' d' =
    (case find_service (free_service d) 0 name' type' d of Some s \<Rightarrow> Some s
     | None \<Rightarrow> if name' = name \<and> (type' = 0 \<or> type' = type) then Some serv else None)"
proof -
  let ?n = "free_service d"
  have d': "free_service d' = Suc ?n" "services d' = (services d)(?n := \<lparr>sv_service = serv, sv_type_crc = type, sv_name_crc = name\<rparr>)"
    using assms by (auto simp: register_service_def split: if_splits)
  have same: "services d' j = services d j" if "j < ?n" for j using that d'(2) by simp
  have "List.find (\<lambda>j. sv_name_crc (services d' j) = name' \<and> (type' = 0 \<or> type' = sv_type_crc (services d' j))) [0..<?n]
      = List.find (\<lambda>j. sv_name_crc (services d j) = name' \<and> (type' = 0 \<or> type' = sv_type_crc (services d j))) [0..<?n]"
    using same by (intro find_cong) auto
  moreover have "services d' z = services d z" if "List.find P [0..<?n] = Some z" for P z
    using that same by (auto simp: find_Some_iff)
  ultimately show ?thesis
    by (auto simp: find_service_first d'(1) find_append d'(2) [THEN fun_cong, of ?n] split: option.splits)
qed

theorem registered_service_is_found_witness:
  "\<exists>d'. register_service 0x1234 9 0x77 sample_driver = Inr d' \<and> find_service (free_service d') 0 0x1234 0 d' = Some 9"
proof -
  obtain d' where "register_service 0x1234 9 0x77 sample_driver = Inr d'"
    by (simp add: register_service_def sample_driver_def)
  then show ?thesis
    using registered_service_is_found [of "0x1234" 9 "0x77" sample_driver d' "0x1234" 0]
    by (simp add: sample_driver_def)
qed

end
