(* ===== verification/Boot.thy ===== *)
theory Boot
  imports System_Properties
begin

text \<open>
  From reset to the first thread: the roll call of the cores (\<^verbatim>\<open>el3.c\<close>), the kernel's translation
  tables (\<^verbatim>\<open>kernel_translation_tables.c\<close>), the kernel's storage, and the maps and threads of the drivers
  (\<^verbatim>\<open>secure_el1.c\<close>, lines 699-945).

  The state \<^verbatim>\<open>boot\<close> is the kernel with the variables that only this part uses; the addresses the linker
  and the build choose are a \<^verbatim>\<open>layout\<close>, an argument of the definitions.  The words of the core structure
  are those of the kernel record; the \<^verbatim>\<open>runnable\<close> members of further cores are an array.  Waiting for
  another core that never answers is \<^verbatim>\<open>HANG\<close>.
\<close>

section \<open>State\<close>

record layout =
  at_rw_start :: u64
  at_rw_end :: u64
  initial_first_free_page :: u64
  sizeof_Core :: u64
  kernel_tt_l3_address :: u64
  kernel_tt_l2_address :: u64
  VBAR_SEL1 :: u64

record boot =
  bk :: kernel
  first_free_page :: u64
  number_of_cores :: u64
  kernel_tt_l2 :: vmsa_entry
  standard_isambard_cores :: u64
  other_runnable :: "nat \<Rightarrow> u64"
  low_virtual_address :: u64
  mair_el1 :: u64
  tcr_el1 :: u64
  ttbr1_el1 :: u64
  sctlr_el1 :: u64
  vbar_el1 :: u64
  cntkctl_el1 :: u64
  tables_initialising :: bool
  himem_initialising :: bool

definition upd_bk :: "(kernel \<Rightarrow> kernel) \<Rightarrow> boot \<Rightarrow> boot" where
  "upd_bk f b = b\<lparr>bk := f (bk b)\<rparr>"

definition lift_bk :: "(kernel \<Rightarrow> kernel result) \<Rightarrow> boot \<Rightarrow> boot result" where
  "lift_bk f b = rbind (f (bk b)) (\<lambda>k. Inr (b\<lparr>bk := k\<rparr>))"

section \<open>The roll call\<close>

datatype core_types = WAITING | NORMAL | SPECIAL

definition read_number_of_cores :: "u32 \<Rightarrow> nat" where
  "read_number_of_cores l2ctlr = unat (drop_bit 24 l2ctlr AND 3) + 1"

text \<open>One round of the waiting loop on a core: the bits of the cores present when this core is
  the one that completes the roll call.\<close>

fun scan_present :: "nat \<Rightarrow> nat \<Rightarrow> nat \<Rightarrow> (nat \<Rightarrow> core_types) \<Rightarrow> bool \<Rightarrow> bool \<Rightarrow> bool \<times> bool" where
  "scan_present 0 i number present lowest_normal all_present = (lowest_normal, all_present)"
| "scan_present (Suc n) i number present lowest_normal all_present =
    scan_present n (i + 1) number present
      (if present i = NORMAL \<and> i < number then False else lowest_normal)
      (all_present \<and> present i \<noteq> WAITING)"

fun collect_present :: "nat \<Rightarrow> nat \<Rightarrow> (nat \<Rightarrow> core_types) \<Rightarrow> u64 \<Rightarrow> u64" where
  "collect_present 0 i present bits = bits"
| "collect_present (Suc n) i present bits =
    collect_present n (i + 1) present
      (if present i = NORMAL then bits OR push_bit (i mod 64) 1 else bits)"

definition roll_call_round :: "nat \<Rightarrow> nat \<Rightarrow> (nat \<Rightarrow> core_types) \<Rightarrow> u64 option" where
  "roll_call_round cores number present =
    (let (lowest_normal, all_present) = scan_present cores 0 number present True True in
     if all_present \<and> lowest_normal then Some (collect_present cores 0 present 0) else None)"

section \<open>The kernel's translation tables\<close>

definition assign_kernel_entry :: "vmsa_entry \<Rightarrow> nat \<Rightarrow> kernel \<Rightarrow> kernel result" where
  "assign_kernel_entry entry kernel_page k =
    (if kernel_page \<ge> 512 \<or> kernel_tt_l3 k kernel_page \<noteq> Aarch64_VMSA_invalid then Inl HANG
     else Inr (k\<lparr>kernel_tt_l3 := (kernel_tt_l3 k)(kernel_page := entry)\<rparr>))"

definition kernel_code_entry :: "u64 \<Rightarrow> vmsa_entry" where
  "kernel_code_entry pa =
    (let entry = Aarch64_VMSA_page_at pa;
         entry = Aarch64_VMSA_priv_r_x entry;
         entry = set_access_flag 1 entry;
         entry = set_shareability 3 entry;
         entry = Aarch64_VMSA_global entry
     in Aarch64_VMSA_write_back_memory entry)"

definition kernel_data_entry :: "u64 \<Rightarrow> vmsa_entry" where
  "kernel_data_entry pa =
    (let entry = Aarch64_VMSA_page_at pa;
         entry = Aarch64_VMSA_priv_rw entry 3;
         entry = set_access_flag 1 entry;
         entry = set_shareability 3 entry;
         entry = Aarch64_VMSA_global entry
     in Aarch64_VMSA_write_back_memory entry)"

text \<open>The loops over the pages below an address; an index past the table is an access outside it.\<close>

function fill_pages :: "(u64 \<Rightarrow> vmsa_entry) \<Rightarrow> u64 \<Rightarrow> nat \<Rightarrow> kernel \<Rightarrow> kernel result" where
  "fill_pages entry limit i k =
    (if push_bit 12 (of_nat i) < limit then
       (if i < 512
        then fill_pages entry limit (i + 1) (k\<lparr>kernel_tt_l3 := (kernel_tt_l3 k)(i := entry (push_bit 12 (of_nat i)))\<rparr>)
        else Inl FAULT)
     else Inr k)"
  by pat_completeness auto
termination by (relation "measure (\<lambda>(_, _, i, _). 512 - i)") (auto simp: One_nat_def)

declare fill_pages.simps [simp del]

definition initialise_shared_isambard_kernel_tables :: "layout \<Rightarrow> u64 \<Rightarrow> u64 \<Rightarrow> boot \<Rightarrow> boot result" where
  "initialise_shared_isambard_kernel_tables l core0 cores b =
    (if kernel_tt_l2 b \<noteq> 0 then Inr b
     else
       (let b = b\<lparr>kernel_tt_l2 := Aarch64_VMSA_subtable_at (kernel_tt_l3_address l)\<rparr>;
            writable_area = at_rw_start l;
            writable_area_end = at_rw_end l
        in rbind (lift_bk (fill_pages kernel_code_entry writable_area 0) b) (\<lambda>b.
           rbind (lift_bk (fill_pages kernel_data_entry writable_area_end (unat (drop_bit 12 writable_area))) b) (\<lambda>b.
             let virtual_cores_area_end = writable_area_end + cores * sizeof_Core l in
             lift_bk (fill_pages (\<lambda>a. kernel_data_entry (core0 + a - writable_area_end)) virtual_cores_area_end
                       (unat (drop_bit 12 writable_area_end))) b))))"

definition himem_offset :: u64 where "himem_offset = 0xfffffffffe000000"

definition himem_address :: "u64 \<Rightarrow> u64" where
  "himem_address offset = offset + himem_offset"

text \<open>The fields of \<^verbatim>\<open>TCR1\<close> that are not zero.\<close>

definition tcr_el1_value :: u64 where
  "tcr_el1_value =
    30 OR push_bit 8 1 OR push_bit 10 1 OR push_bit 16 39 OR push_bit 24 1 OR push_bit 26 1
      OR push_bit 28 3 OR push_bit 36 1"

definition low_memory_entry :: vmsa_entry where
  "low_memory_entry =
    (let entry = Aarch64_VMSA_block_at 0;
         entry = Aarch64_VMSA_priv_rwx entry;
         entry = Aarch64_VMSA_outer_write_through_memory entry;
         entry = Aarch64_VMSA_not_global entry
     in set_access_flag 1 entry)"

text \<open>Entering high memory: the identity mapping of the first gigabyte is there while the MMU is switched on
  and gone when the kernel runs in high memory.  The result is the state at the call of \<^verbatim>\<open>himem_code\<close>,
  whose argument is the core's new address.\<close>

definition switch_to_running_in_high_memory :: "layout \<Rightarrow> u64 \<Rightarrow> boot \<Rightarrow> boot result" where
  "switch_to_running_in_high_memory l phys_core b =
    (let virtual_stack_offset = initial_first_free_page l - at_rw_end l;
         b = upd_bk (\<lambda>k. k\<lparr>physical_address := phys_core\<rparr>) b;
         va = phys_core - virtual_stack_offset;
         b = b\<lparr>low_virtual_address := va\<rparr>
     in rbind (lift_bk (set_l1 0 low_memory_entry) b) (\<lambda>b.
          let b = b\<lparr>mair_el1 := Aarch64_VMSA_Isambard_memory_attributes, tcr_el1 := tcr_el1_value,
                    ttbr1_el1 := kernel_tt_l2_address l\<rparr>;
              b = upd_bk (\<lambda>k. k\<lparr>ttbr0_el1 := tt_l1_address k\<rparr>) b;
              b = b\<lparr>sctlr_el1 := sctlr_el1 b OR push_bit 0 1 OR push_bit 2 1 OR push_bit 12 1 OR push_bit 14 1
                                  OR push_bit 26 1\<rparr>;
              b = upd_bk (\<lambda>k. k\<lparr>core_address := himem_address va\<rparr>) b
          in lift_bk (set_l1 0 Aarch64_VMSA_invalid) b))"

section \<open>The kernel's storage\<close>

definition pages_needed_for :: "u64 \<Rightarrow> u64" where
  "pages_needed_for sz = drop_bit 12 (sz + 4095)"

definition heap_space_needed_for_cores :: "u64 \<Rightarrow> u64" where
  "heap_space_needed_for_cores cores = cores * sizeof_thread_context"

definition interfaces_needed_per_core :: u64 where "interfaces_needed_per_core = 1"

definition number_of_special_interfaces :: u32 where "number_of_special_interfaces = 2"

definition kernel_storage_entry :: "u64 \<Rightarrow> vmsa_entry" where
  "kernel_storage_entry pa =
    (let entry = Aarch64_VMSA_page_at pa;
         entry = Aarch64_VMSA_priv_rw entry 1;
         entry = set_access_flag 1 entry;
         entry = set_shareability 3 entry;
         entry = set_not_global 0 entry
     in Aarch64_VMSA_write_back_memory entry)"

definition map_initial_storage :: "layout \<Rightarrow> u64 \<Rightarrow> u32 \<Rightarrow> u32 \<Rightarrow> boot \<Rightarrow> boot result" where
  "map_initial_storage l core0 initial_heap initial_interfaces b =
    (if initial_interfaces < number_of_special_interfaces then Inl (BSOD 725)
     else
       (let heap_pages = unat (pages_needed_for (ucast initial_heap));
            interface_pages = unat (pages_needed_for (ucast initial_interfaces * sizeof_Interface));
            b = upd_bk (\<lambda>k. k\<lparr>kernel_interfaces_offset := ucast (core0 + number_of_cores b * sizeof_Core l - start_address)\<rparr>) b;
            interfaces_page = unat (drop_bit 12 (kernel_interfaces_offset (bk b)));
            first_physical_interfaces_page = first_free_page b;
            b = b\<lparr>first_free_page := first_free_page b + push_bit 12 (of_nat interface_pages)\<rparr>
        in rbind (for_each (\<lambda>i. lift_bk (assign_kernel_entry
                    (kernel_storage_entry (first_physical_interfaces_page + push_bit 12 (of_nat i))) (interfaces_page + i)))
                  [0..<interface_pages] b) (\<lambda>b.
             let first_physical_heap_page = first_free_page b;
                 b = b\<lparr>first_free_page := first_free_page b + push_bit 12 (of_nat heap_pages)\<rparr>
             in for_each (\<lambda>i. lift_bk (assign_kernel_entry
                    (kernel_storage_entry (first_physical_heap_page + push_bit 12 (of_nat i))) (512 - heap_pages + i)))
                  [0..<heap_pages] b)))"

section \<open>The first threads and maps\<close>

definition max_physical_memory :: u64 where
  "max_physical_memory = of_nat max_physical_memory_gb * push_bit 30 1"

definition set_special_interface :: "u32 \<Rightarrow> Interface \<Rightarrow> kernel \<Rightarrow> kernel result" where
  "set_special_interface index e k =
    (case interface_from_index k index of None \<Rightarrow> Inl FAULT | Some i \<Rightarrow> Inr (set_interface i e k))"

definition start_system_thread :: "nat \<Rightarrow> u64 \<Rightarrow> boot \<Rightarrow> boot" where
  "start_system_thread n ffp b =
    (let (thread, k) = allocate_heap sizeof_thread_context (bk b);
         k = initialise_new_thread thread k;
         k = upd_thread thread (\<lambda>c. c\<lparr>current_map := system_map_index, t_pc := 0, spsr := 0\<rparr>) k;
         k = set_reg thread 0 (ucast system_map_index) k;
         k = set_reg thread 1 (ucast memory_allocator_map_index) k;
         k = set_reg thread 2 (of_nat n) k;
         k = set_reg thread 3 ffp k
     in if n = 0 then b\<lparr>bk := k\<lparr>runnable := thread\<rparr>\<rparr>
        else b\<lparr>bk := k, other_runnable := (other_runnable b)(n := thread)\<rparr>)"

text \<open>The loop over the cores; with bit 63 set the shift count would reach the width of the word.\<close>

fun start_system_threads :: "nat \<Rightarrow> nat \<Rightarrow> u64 \<Rightarrow> boot \<Rightarrow> boot result" where
  "start_system_threads 0 n ffp b =
    (if standard_isambard_cores b < push_bit 63 1 then Inr b else Inl FAULT)"
| "start_system_threads (Suc m) n ffp b =
    (if push_bit n 1 \<le> standard_isambard_cores b \<and> push_bit n 1 \<noteq> (0 :: u64) then
       start_system_threads m (n + 1) ffp
         (if standard_isambard_cores b AND push_bit n 1 \<noteq> 0 then start_system_thread n ffp b else b)
     else Inr b)"

definition INITIAL_VMBs_PER_DRIVER :: u64 where "INITIAL_VMBs_PER_DRIVER = 12"

definition update_kernel64 :: "(u64 \<Rightarrow> u64) \<Rightarrow> u64 \<Rightarrow> kernel \<Rightarrow> kernel result" where
  "update_kernel64 f off k = rbind (read_kernel64 k off) (\<lambda>v. write_kernel64 k off (f v))"

definition driver_code_vmb :: "driver_info \<Rightarrow> nat \<Rightarrow> u64 \<Rightarrow> u64" where
  "driver_code_vmb d code v =
    (let v = set_vmb_start_page 0 v;
         v = set_vmb_page_count (code_pages d) v;
         v = set_vmb_read_only 1 v;
         v = set_vmb_executable 1 v
     in set_vmb_memory_block (ucast (index_from_interface code)) v)"

definition driver_data_vmb :: "driver_info \<Rightarrow> nat \<Rightarrow> u64 \<Rightarrow> u64" where
  "driver_data_vmb d data v =
    (let v = set_vmb_start_page (code_pages d) v;
         v = set_vmb_page_count (data_pages d) v;
         v = set_vmb_read_only 0 v;
         v = set_vmb_executable 0 v
     in set_vmb_memory_block (ucast (index_from_interface data)) v)"

definition driver_code_block :: "driver_info \<Rightarrow> u64" where
  "driver_code_block d = mk_cmb (ucast (drop_bit 12 (ucast (drv_start d) :: u32))) (code_pages d) Fully_Cacheable"

definition driver_data_block :: "driver_info \<Rightarrow> u64" where
  "driver_data_block d =
    mk_cmb (ucast (drop_bit 12 (ucast (drv_start d) :: u32)) + code_pages d) (data_pages d) Fully_Cacheable"

definition start_driver_thread :: "nat \<Rightarrow> kernel \<Rightarrow> kernel result" where
  "start_driver_thread map_interface k =
    (let (thread, k) = allocate_heap sizeof_thread_context k;
         k = initialise_new_thread thread k;
         k = upd_thread thread (\<lambda>c. c\<lparr>current_map := index_from_interface map_interface, t_pc := 0, spsr := 0\<rparr>) k;
         k = set_reg thread 0 (ucast (index_from_interface map_interface)) k
     in insert_thread_at_tail Runnable_list thread k)"

definition initialise_driver :: "nat \<Rightarrow> kernel \<Rightarrow> kernel result" where
  "initialise_driver i k =
    rbind (obtain_interface k) (\<lambda>(map_interface, k).
    rbind (obtain_interface k) (\<lambda>(code_interface, k).
    rbind (obtain_interface k) (\<lambda>(data_interface, k).
    let d = drivers k i in
    if drv_start d AND 0xfff \<noteq> 0 \<or> drv_end d AND 0xfff \<noteq> 0 then Inl (BSOD 809)
    else
      (let (vmb, k) = allocate_heap (INITIAL_VMBs_PER_DRIVER * 8) k;
           mv = mk_map_value (ucast (heap_offset_lsr4 vmb)) (ucast (index_from_interface map_interface))
                  INITIAL_VMBs_PER_DRIVER;
           k = set_interface map_interface \<lparr>user = index_from_interface map_interface, provider = system_map_index,
                  handler = System_Service_Map, object = mv\<rparr> k;
           off = vmb - start_address
       in rbind (update_kernel64 (driver_code_vmb d code_interface) off k) (\<lambda>k.
          rbind (update_kernel64 (driver_data_vmb d data_interface) (off + 8) k) (\<lambda>k.
          rbind (write_kernel64 k (off + 16) 0) (\<lambda>k.
            let k = set_interface code_interface \<lparr>user = index_from_interface map_interface,
                  provider = system_map_index, handler = System_Service_PhysicalMemoryBlock,
                  object = driver_code_block d\<rparr> k;
                k = set_interface data_interface \<lparr>user = index_from_interface map_interface,
                  provider = system_map_index, handler = System_Service_PhysicalMemoryBlock,
                  object = driver_data_block d\<rparr> k
            in start_driver_thread map_interface k)))))))"

definition number_of_system_maps :: nat where "number_of_system_maps = 2"

definition initialise_driver_maps :: "u64 \<Rightarrow> boot \<Rightarrow> boot result" where
  "initialise_driver_maps ffp b =
    rbind (lift_bk (set_special_interface system_map_index
      \<lparr>user = system_map_index, provider = system_map_index, handler = System_Service_Map, object = 0x535953\<rparr>) b) (\<lambda>b.
    rbind (lift_bk (set_special_interface memory_allocator_map_index
      \<lparr>user = system_map_index, provider = memory_allocator_map_index, handler = max_physical_memory,
        object = 0x4d454d\<rparr>) b) (\<lambda>b.
    rbind (start_system_threads 64 0 ffp b) (\<lambda>b.
      lift_bk (\<lambda>k. for_each initialise_driver [number_of_system_maps..<number_of_drivers k] k) b)))"

definition enter_secure_el1_himem :: "layout \<Rightarrow> u64 \<Rightarrow> boot \<Rightarrow> (thread_switch \<times> boot) result" where
  "enter_secure_el1_himem l core b =
    (let b = b\<lparr>vbar_el1 := VBAR_SEL1 l, cntkctl_el1 := 0x303\<rparr> in
     rbind
       (if core_number (bk b) = 0 then
          rbind (map_initial_storage l core 65536 512 b) (\<lambda>b.
          let b = upd_bk (new_memory_for_interfaces 512) b in
          rbind (lift_bk initialise_system_map b) (\<lambda>b.
          rbind (initialise_driver_maps (first_free_page b) b) (\<lambda>b.
            Inr (b\<lparr>himem_initialising := False\<rparr>))))
        else if himem_initialising b \<or> runnable (bk b) = 0 then Inl HANG else Inr b) (\<lambda>b.
     let b = upd_bk (\<lambda>k. k\<lparr>loaded_map := illegal_interface_index\<rparr>) b in
     rbind (lift_bk (\<lambda>k. load_this_map (current_map (threads k (runnable k))) k) b) (\<lambda>b.
       Inr (\<lparr>sw_then = 0, sw_now = runnable (bk b)\<rparr>, b))))"

definition isambard_secure_el1 :: "layout \<Rightarrow> u64 \<Rightarrow> u32 \<Rightarrow> u64 \<Rightarrow> boot \<Rightarrow> (thread_switch \<times> boot) result" where
  "isambard_secure_el1 l phys_core number present b =
    (let b = b\<lparr>standard_isambard_cores := present\<rparr>;
         b = upd_bk clear_core_translation_tables b;
         b = upd_bk (\<lambda>k. k\<lparr>core_number := number\<rparr>) b
     in rbind
          (if number = 0 then
             rbind (initialise_shared_isambard_kernel_tables l phys_core (number_of_cores b) b) (\<lambda>b.
               Inr (b\<lparr>tables_initialising := False\<rparr>))
           else if tables_initialising b then Inl HANG else Inr b) (\<lambda>b.
        rbind (switch_to_running_in_high_memory l phys_core b) (\<lambda>b.
          enter_secure_el1_himem l (core_address (bk b)) b)))"

section \<open>One core completes the roll call\<close>

lemma scan_present_result:
  "scan_present n i number present ln ap =
    (ln \<and> (\<forall>j<n. i + j < number \<longrightarrow> present (i + j) \<noteq> NORMAL), ap \<and> (\<forall>j<n. present (i + j) \<noteq> WAITING))"
  by (induction n arbitrary: i ln ap) (auto simp: All_less_Suc2 One_nat_def)

lemma bit_collect_present:
  assumes "i + n \<le> 64"
  shows "bit (collect_present n i present bits) j \<longleftrightarrow> bit bits j \<or> (i \<le> j \<and> j < i + n \<and> present j = NORMAL)"
  using assms
proof (induction n arbitrary: i bits)
  case (Suc n)
  have "bit (collect_present n (i + 1) present b) j \<longleftrightarrow> bit b j \<or> (i + 1 \<le> j \<and> j < i + 1 + n \<and> present j = NORMAL)" for b
    using Suc.prems by (intro Suc.IH) simp
  moreover have "bit (if present i = NORMAL then bits OR push_bit (i mod 64) 1 else bits) j
      \<longleftrightarrow> bit bits j \<or> (j = i \<and> present i = NORMAL)"
    using Suc.prems by (auto simp: bit_or_iff bit_exp_iff)
  moreover have "i \<le> j \<and> j < i + Suc n \<longleftrightarrow> j = i \<or> i + 1 \<le> j \<and> j < i + 1 + n" by auto
  ultimately show ?case unfolding collect_present.simps by blast
qed auto

lemma roll_call_round_iff:
  "roll_call_round cores number present = Some bits \<longleftrightarrow>
     (\<forall>i<cores. present i \<noteq> WAITING) \<and> (\<forall>i<cores. i < number \<longrightarrow> present i \<noteq> NORMAL)
     \<and> bits = collect_present cores 0 present 0"
  by (auto simp: roll_call_round_def scan_present_result)



section \<open>A driver is set up\<close>

lemma update_kernel64_ok:
  assumes "kernel_word_ok k off"
  shows "update_kernel64 f off k = Inr (k\<lparr>heap_words := (heap_words k)(off := f (heap_words k off))\<rparr>)"
  using assms by (simp add: update_kernel64_def read_kernel64_def write_kernel64_def kernel_word_ok_def)

lemma write_kernel64_ok:
  assumes "kernel_word_ok k off"
  shows "write_kernel64 k off v = Inr (k\<lparr>heap_words := (heap_words k)(off := v)\<rparr>)"
  using assms by (simp add: write_kernel64_def kernel_word_ok_def)

lemma kernel_word_ok_updates [simp]:
  "kernel_word_ok (k\<lparr>heap_words := h\<rparr>) off \<longleftrightarrow> kernel_word_ok k off"
  "kernel_word_ok (k\<lparr>interfaces := t\<rparr>) off \<longleftrightarrow> kernel_word_ok k off"
  "kernel_word_ok (k\<lparr>kernel_heap_bottom := b\<rparr>) off \<longleftrightarrow> kernel_word_ok k off"
  "kernel_word_ok (k\<lparr>kernel_free_interface := n\<rparr>) off \<longleftrightarrow> kernel_word_ok k off"
  by (simp_all add: kernel_word_ok_def)

text \<open>The three words of a new table of blocks.\<close>

lemma driver_table:
  assumes "kernel_word_ok k off" and "kernel_word_ok k (off + 8)" and "kernel_word_ok k (off + 16)"
    and "heap_words k off = v" and "heap_words k (off + 8) = w" and "vmb_page_count (heap_words k (off + 16)) = 0"
    and "vmb_page_count v \<noteq> 0" and "vmb_page_count w \<noteq> 0"
  shows "vmb_table k off [v, w]"
  using assms by (simp add: read_kernel64_def kernel_word_ok_def add.assoc)

lemma insert_runnable_frame:
  assumes "insert_thread_at_tail Runnable_list t k = Inr k'"
  shows "k' = k\<lparr>threads := threads k', runnable := runnable k'\<rparr>"
  using assms
  by (auto simp: insert_thread_at_tail_def Let_def assign_list_def link_setters upd_thread_def
      insert_new_thread_before_old_def elim!: rbind_InrE split: if_splits)

lemma start_driver_thread_result:
  assumes "queue k Runnable_list xs" and "\<forall>x\<in>set xs. unat (kernel_heap_bottom k) \<le> unat (x - start_address)"
    and "512 \<le> unat (kernel_heap_bottom k)" and "kernel_heap_bottom k \<le> 0x200000"
  shows "\<exists>k' t. start_driver_thread m k = Inr k' \<and> queue k' Runnable_list (xs @ [t])
     \<and> current_map (threads k' t) = of_nat m \<and> k' = k\<lparr>threads := threads k', runnable := runnable k',
          kernel_heap_bottom := kernel_heap_bottom k'\<rparr>
     \<and> unat (kernel_heap_bottom k') + 512 = unat (kernel_heap_bottom k)"
proof -
  obtain t k1 where a: "allocate_heap sizeof_thread_context k = (t, k1)" by fastforce
  have b: "unat (t - start_address) + 512 = unat (kernel_heap_bottom k)"
    and kb: "k1 = k\<lparr>kernel_heap_bottom := kernel_heap_bottom k1\<rparr>" "unat (kernel_heap_bottom k1) = unat (t - start_address)"
    using allocate_heap_under_block [of "[]" sizeof_thread_context k t k1] a assms(3)
    by (simp_all add: allocate_heap_def seen_bottom_def round_sizes)
  obtain h where k1: "k1 = k\<lparr>kernel_heap_bottom := h\<rparr>" using kb(1) by blast
  have t: "t \<notin> set xs" using assms(2) b by auto
  have "unat (t - start_address) < 0x200000" using b assms(4) by (simp add: word_le_nat_alt)
  then have "t \<noteq> 0" by (auto simp: start_address_def)
  define k2 where "k2 = set_reg t 0 (ucast (index_from_interface m))
    (upd_thread t (\<lambda>c. c\<lparr>current_map := index_from_interface m, t_pc := 0, spsr := 0\<rparr>) (initialise_new_thread t k1))"
  have k2: "k2 = k\<lparr>threads := threads k2, kernel_heap_bottom := h\<rparr>"
    "\<And>x. x \<noteq> t \<Longrightarrow> threads k2 x = threads k x" "current_map (threads k2 t) = of_nat m"
    by (simp_all add: k2_def k1 set_reg_def upd_thread_def initialise_new_thread_def index_from_interface_def)
  have "runnable k2 = runnable k" by (subst k2(1)) simp
  moreover have "ring (threads k2) xs \<longleftrightarrow> ring (threads k) xs" using t k2(2) by (intro ring_cong) metis
  ultimately have "queue k2 Runnable_list xs" using assms(1) by (auto simp: queue_def deref_list_def)
  then obtain k' where k': "insert_thread_at_tail Runnable_list t k2 = Inr k'" "queue k' Runnable_list (xs @ [t])"
    using queue_insert_tail [of k2 Runnable_list xs t] t \<open>t \<noteq> 0\<close> by (auto simp: is_head_def)
  have "current_map (threads k' t) = of_nat m"
    using maps_viewD [OF maps.view_insert_tail [OF k'(1)], of t] k2(3) by simp
  moreover have hb: "kernel_heap_bottom k' = h"
    by (subst insert_runnable_frame [OF k'(1)], subst k2(1)) simp
  moreover have "k' = k\<lparr>threads := threads k', runnable := runnable k', kernel_heap_bottom := kernel_heap_bottom k'\<rparr>"
    unfolding hb by (subst insert_runnable_frame [OF k'(1)], subst k2(1)) simp
  moreover have "unat (kernel_heap_bottom k') + 512 = unat (kernel_heap_bottom k)"
    using b kb(2) hb by (simp add: k1)
  moreover have "start_driver_thread m k = Inr k'" using k'(1) by (simp add: start_driver_thread_def a k2_def Let_def)
  ultimately show ?thesis using k'(2) by blast
qed

lemma vmb_pointer:
  assumes "unat off \<le> 0x200000" and "16 dvd unat off"
  shows "heap_pointer_from_offset_lsr4 (heap_offset_lsr4 (start_address + off)) - start_address = off"
    and "unat (heap_offset_lsr4 (start_address + off)) = (0x200000 - unat off) div 16"
proof -
  have u: "unat (0x200000 - off) = 0x200000 - unat off"
    using assms(1) by (subst unat_sub) (simp_all add: word_le_nat_alt)
  then have o: "unat (heap_offset (start_address + off)) = 0x200000 - unat off"
    by (simp add: heap_offset_def top_of_kernel_working_memory_def unsigned_ucast_eq take_bit_nat_eq_self)
  have "16 dvd (0x200000 - unat off)" using assms(2) by (intro dvd_diff_nat) simp_all
  then have "unat (take_bit 4 (heap_offset (start_address + off))) = 0"
    unfolding unsigned_take_bit_eq o by (simp add: take_bit_eq_mod)
  then have "take_bit 4 (heap_offset (start_address + off)) = 0" by (simp add: unat_eq_0)
  moreover have "start_address + ucast top_of_kernel_working_memory - (start_address + off) < 2 ^ 32"
    using u by (simp add: top_of_kernel_working_memory_def word_less_nat_alt)
  ultimately show "heap_pointer_from_offset_lsr4 (heap_offset_lsr4 (start_address + off)) - start_address = off"
    using heap_pointer_from_offset_lsr4_of_pointer [of "start_address + off"] by simp
  show "unat (heap_offset_lsr4 (start_address + off)) = (0x200000 - unat off) div 16"
    using o by (simp add: heap_offset_lsr4_def drop_bit_eq_div unat_div)
qed

lemma driver_vmb_fields:
  "vmb_start_page (driver_code_vmb d c v) = 0" "vmb_page_count (driver_code_vmb d c v) = take_bit 20 (code_pages d)"
  "vmb_read_only (driver_code_vmb d c v) = 1" "vmb_executable (driver_code_vmb d c v) = 1"
  "vmb_memory_block (driver_code_vmb d c v) = take_bit 18 (ucast (index_from_interface c))"
  "vmb_start_page (driver_data_vmb d c v) = take_bit 24 (code_pages d)"
  "vmb_page_count (driver_data_vmb d c v) = take_bit 20 (data_pages d)"
  "vmb_read_only (driver_data_vmb d c v) = 0" "vmb_executable (driver_data_vmb d c v) = 0"
  "vmb_memory_block (driver_data_vmb d c v) = take_bit 18 (ucast (index_from_interface c))"
  by (simp_all add: driver_code_vmb_def driver_data_vmb_def field_simps_packed)

text \<open>The state of the heap in which a driver is set up.\<close>

definition room_for_driver :: "kernel \<Rightarrow> u64 list \<Rightarrow> bool" where
  "room_for_driver k xs \<longleftrightarrow>
     kernel_heap_top k = 0x200000 \<and> kernel_heap_bottom k \<le> 0x200000 \<and> 608 \<le> unat (kernel_heap_bottom k)
     \<and> 32 dvd unat (kernel_heap_bottom k)
     \<and> (\<forall>j<3. kernel_word_ok k (heap_slot (ucast (kernel_heap_bottom k) - 96) j))
     \<and> (\<forall>x\<in>set xs. unat (kernel_heap_bottom k) \<le> unat (x - start_address))"

lemma physical_block_entry_of:
  assumes "vmb_memory_block v = take_bit 18 (ucast (index_from_interface c))"
    and "c < unat (kernel_last_interface k)" and "kernel_last_interface k \<le> 2 ^ 18"
    and "interfaces k c = \<lparr>user = u, provider = system_map_index, handler = System_Service_PhysicalMemoryBlock, object = cmb\<rparr>"
  shows "physical_block_of k v cmb"
proof -
  have c: "c < 2 ^ 18" using assms(2,3) by (simp add: word_le_nat_alt)
  then have u: "unat (of_nat c :: u32) = c" by (intro unat_of_nat_u32) simp
  then have "ucast (of_nat c :: u32) < (2 :: u64) ^ 18" using c by (simp add: word_less_nat_alt)
  then have "take_bit 18 (ucast (of_nat c :: u32)) = (ucast (of_nat c :: u32) :: u64)"
    by (simp add: take_bit_eq_mask less_mask_eq)
  then have "ucast (vmb_memory_block v) = (of_nat c :: u32)" using assms(1) by (simp add: index_from_interface_def)
  then show ?thesis
    using assms(2,4) u by (auto simp: physical_block_of_def interface_from_index_def word_less_nat_alt)
qed

lemma take_interfaces:
  assumes "table_inv k (m # c # d # f # fs)"
  shows "initialise_driver i k =
    (let k = k\<lparr>kernel_free_interface := of_nat f\<rparr>; drv = drivers k i in
     if drv_start drv AND 0xfff \<noteq> 0 \<or> drv_end drv AND 0xfff \<noteq> 0 then Inl (BSOD 809)
     else
       (let (vmb, k) = allocate_heap (INITIAL_VMBs_PER_DRIVER * 8) k;
            mv = mk_map_value (ucast (heap_offset_lsr4 vmb)) (ucast (index_from_interface m)) INITIAL_VMBs_PER_DRIVER;
            k = set_interface m \<lparr>user = index_from_interface m, provider = system_map_index,
                  handler = System_Service_Map, object = mv\<rparr> k;
            off = vmb - start_address
        in rbind (update_kernel64 (driver_code_vmb drv c) off k) (\<lambda>k.
           rbind (update_kernel64 (driver_data_vmb drv d) (off + 8) k) (\<lambda>k.
           rbind (write_kernel64 k (off + 16) 0) (\<lambda>k.
             start_driver_thread m
              (set_interface d \<lparr>user = index_from_interface m, provider = system_map_index,
                 handler = System_Service_PhysicalMemoryBlock, object = driver_data_block drv\<rparr>
              (set_interface c \<lparr>user = index_from_interface m, provider = system_map_index,
                 handler = System_Service_PhysicalMemoryBlock, object = driver_code_block drv\<rparr> k)))))))"
proof -
  note o1 = obtain_interface_first [OF assms]
  note o2 = obtain_interface_first [OF o1(2)]
  note o3 = obtain_interface_first [OF o2(2)]
  show ?thesis
    using o1(1) o2(1) o3(1) by (simp add: initialise_driver_def Let_def)
qed

lemma take_interfaces_inv:
  assumes "table_inv k (m # c # d # f # fs)"
  shows "table_inv (k\<lparr>kernel_free_interface := of_nat f\<rparr>) (f # fs)"
  using obtain_interface_first(2) [OF obtain_interface_first(2) [OF obtain_interface_first(2) [OF assms]]] by simp

text \<open>The state when the thread of a driver is created: the table of blocks at \<^verbatim>\<open>off\<close>, the
  interfaces \<^verbatim>\<open>m\<close>, \<^verbatim>\<open>c\<close> and \<^verbatim>\<open>d\<close> filled.\<close>

definition driver_entry :: "nat \<Rightarrow> u64 \<Rightarrow> Interface" where
  "driver_entry m blk = \<lparr>user = index_from_interface m, provider = system_map_index,
     handler = System_Service_PhysicalMemoryBlock, object = blk\<rparr>"

definition driver_map_entry :: "nat \<Rightarrow> u64 \<Rightarrow> Interface" where
  "driver_map_entry m off = \<lparr>user = index_from_interface m, provider = system_map_index, handler = System_Service_Map,
     object = mk_map_value (ucast (heap_offset_lsr4 (start_address + off))) (ucast (index_from_interface m))
       INITIAL_VMBs_PER_DRIVER\<rparr>"

definition driver_built :: "nat \<Rightarrow> nat \<Rightarrow> nat \<Rightarrow> nat \<Rightarrow> u64 \<Rightarrow> u32 \<Rightarrow> driver_info \<Rightarrow> kernel \<Rightarrow> kernel" where
  "driver_built m c d f off h drv k =
    k\<lparr>kernel_free_interface := of_nat f, kernel_heap_bottom := h,
      heap_words := (heap_words k)(off := driver_code_vmb drv c (heap_words k off),
        off + 8 := driver_data_vmb drv d (heap_words k (off + 8)), off + 16 := 0),
      interfaces := (interfaces k)(m := driver_map_entry m off, c := driver_entry m (driver_code_block drv),
        d := driver_entry m (driver_data_block drv))\<rparr>"

lemma initialise_driver_builds:
  assumes "table_inv k (m # c # d # f # fs)" and "room_for_driver k xs"
    and "drv_start (drivers k i) AND 0xfff = 0" and "drv_end (drivers k i) AND 0xfff = 0"
  obtains off h where "unat off + 96 = unat (kernel_heap_bottom k)" and "unat h = unat off"
    and "kernel_word_ok k off" and "kernel_word_ok k (off + 8)" and "kernel_word_ok k (off + 16)"
    and "initialise_driver i k = start_driver_thread m (driver_built m c d f off h (drivers k i) k)"
proof -
  let ?k = "k\<lparr>kernel_free_interface := of_nat f\<rparr>"
  have room: "608 \<le> unat (kernel_heap_bottom k)" using assms(2) by (simp add: room_for_driver_def)
  obtain vmb k4 where a: "allocate_heap (INITIAL_VMBs_PER_DRIVER * 8) ?k = (vmb, k4)" by fastforce
  have r96: "unat (round_up_32 (INITIAL_VMBs_PER_DRIVER * 8)) = 96"
    by (simp add: round_up_32_unat INITIAL_VMBs_PER_DRIVER_def)
  define off where "off = vmb - start_address"
  have b: "unat off + 96 = unat (kernel_heap_bottom k)" "unat (kernel_heap_bottom k4) = unat off"
      "k4 = ?k\<lparr>kernel_heap_bottom := kernel_heap_bottom k4\<rparr>"
    using allocate_heap_under_block [of "[]" "INITIAL_VMBs_PER_DRIVER * 8" ?k vmb k4] a room
    by (simp_all add: allocate_heap_def seen_bottom_def r96 off_def)
  have "off = ucast (kernel_heap_bottom k) - 96"
    using b(1) room by (simp add: word_unat_eq_iff unat_sub word_le_nat_alt)
  then have ok: "kernel_word_ok k off" "kernel_word_ok k (off + 8)" "kernel_word_ok k (off + 16)"
    using assms(2) by (auto simp: room_for_driver_def heap_slot_def dest: spec [of _ 0] spec [of _ 1] spec [of _ 2])
  obtain h where h: "k4 = ?k\<lparr>kernel_heap_bottom := h\<rparr>" "unat h = unat off" using b(2,3) by metis
  have v: "start_address + off = vmb" by (simp add: off_def)
  have "initialise_driver i k = start_driver_thread m (driver_built m c d f off h (drivers k i) k)"
    using assms(3,4) a ok
    by (simp add: take_interfaces [OF assms(1)] Let_def h(1) set_interface_def update_kernel64_ok write_kernel64_ok
        off_def [symmetric] driver_built_def driver_entry_def driver_map_entry_def v)
  then show thesis using that b(1) h(2) ok by blast
qed

lemma driver_map_blocks:
  assumes "interfaces k' m = driver_map_entry m off" and "current_map (threads k' t) = of_nat m"
    and "m < unat (kernel_last_interface k')" and "2 < m" and "kernel_heap_top k' = 0x200000"
    and "vmb_table k' off vs" and "unat off \<le> 0x200000" and "16 dvd unat off"
    and "unat (kernel_heap_bottom k') \<le> unat off"
  shows "map_blocks k' t vs"
proof -
  have "m < 2 ^ 32" using assms(3) unat_lt_u32 [of "kernel_last_interface k'"] by linarith
  then have m: "unat (of_nat m :: u32) = m" by (rule unat_of_nat_u32)
  have "unat (kernel_heap_top k' - kernel_heap_bottom k') = 0x200000 - unat (kernel_heap_bottom k')"
    using assms(5,7,9) by (simp add: unat_sub word_le_nat_alt)
  then have "unat (heap_offset_lsr4 (start_address + off)) \<le> unat (drop_bit 4 (kernel_heap_top k' - kernel_heap_bottom k'))"
    using vmb_pointer(2) [OF assms(7,8)] assms(9) by (simp add: drop_bit_eq_div unat_div div_le_mono)
  then have "(ucast (heap_offset_lsr4 (start_address + off)) :: u64)
      \<le> ucast (drop_bit 4 (kernel_heap_top k' - kernel_heap_bottom k'))"
    by (simp only: word_le_nat_alt unat_ucast_u32_u64)
  moreover have "of_nat m \<notin> {system_map_index, memory_allocator_map_index}"
    using m assms(4) by (auto simp: system_map_index_def memory_allocator_map_index_def dest!: arg_cong [of _ _ unat])
  moreover have "take_bit 32 (ucast (x :: u32)) = (ucast x :: u64)" for x
    by (intro bit_eqI) (auto simp: bit_simps dest: bit_imp_le_length)
  ultimately show ?thesis
    using assms m vmb_pointer(1) [OF assms(7,8)] by (simp add: map_blocks_def driver_map_entry_def)
qed


text \<open>A driver of two code pages and one data page at 512 KB.\<close>

definition sample_driver_info :: driver_info where
  "sample_driver_info = \<lparr>code_pages = 2, data_pages = 1, drv_start = 0x80000, drv_end = 0x83000\<rparr>"

definition sample_boot :: kernel where
  "sample_boot = new_memory_for_interfaces 8 (sample_kernel\<lparr>kernel_last_interface := 2, drivers := (\<lambda>_. sample_driver_info)\<rparr>)"

lemma new_memory_for_interfaces_frame:
  "new_memory_for_interfaces n k = k\<lparr>interfaces := interfaces (new_memory_for_interfaces n k),
     kernel_last_interface := of_nat n, kernel_free_interface := of_nat (unat (kernel_last_interface k) + 1)\<rparr>"
proof -
  have "\<exists>t. fold init_free_entry is k = k\<lparr>interfaces := t\<rparr>" for "is" k
  proof (induction "is" arbitrary: k)
    case Nil
    then show ?case by (auto intro: exI [of _ "interfaces k"])
  next
    case (Cons i "is")
    obtain t where "fold init_free_entry is (init_free_entry i k) = (init_free_entry i k)\<lparr>interfaces := t\<rparr>"
      using Cons.IH [of "init_free_entry i k"] by blast
    moreover have "(init_free_entry i k)\<lparr>interfaces := t\<rparr> = k\<lparr>interfaces := t\<rparr>"
      by (simp add: init_free_entry_def set_interface_def)
    ultimately show ?case by auto
  qed
  then obtain t where "fold init_free_entry [unat (kernel_last_interface k) + 1..<n] k = k\<lparr>interfaces := t\<rparr>" by blast
  then show ?thesis by (simp add: new_memory_for_interfaces_def Let_def set_interface_def)
qed

lemma sample_boot_facts:
  "table_inv sample_boot [3, 4, 5, 6, 7]" "queue sample_boot Runnable_list [T1, T2, T3]"
  "room_for_driver sample_boot [T1, T2, T3]" "drivers sample_boot i = sample_driver_info"
  "kernel_last_interface sample_boot = 8"
proof -
  let ?k = "sample_kernel\<lparr>kernel_last_interface := 2, drivers := (\<lambda>_. sample_driver_info)\<rparr>"
  have "[unat (2 :: u32) + 1..<8] = [3, 4, 5, 6, 7]" by code_simp
  then show "table_inv sample_boot [3, 4, 5, 6, 7]"
    using new_memory_for_interfaces_inv [of ?k 8] by (simp add: sample_boot_def)
  have f: "threads sample_boot = sample_thread" "runnable sample_boot = T1" "kernel_tt_l3 sample_boot = (\<lambda>_. 3)"
    "kernel_heap_top sample_boot = 0x200000" "kernel_heap_bottom sample_boot = 0x1fe000"
    "drivers sample_boot = (\<lambda>_. sample_driver_info)" "kernel_last_interface sample_boot = 8"
    unfolding sample_boot_def by (subst new_memory_for_interfaces_frame, simp)+
  show "queue sample_boot Runnable_list [T1, T2, T3]"
    using sample_ring f by (simp add: queue_def deref_list_def del: ring.simps)
  have "bit (3 :: u64) 0" "\<not> bit (3 :: u64) 7" by simp_all
  moreover have "(\<forall>j<3. P j) \<longleftrightarrow> P 0 \<and> P 1 \<and> P (2 :: nat)" for P
    by (auto simp: numeral_eq_Suc less_Suc_eq One_nat_def)
  ultimately show "room_for_driver sample_boot [T1, T2, T3]"
    by (simp add: room_for_driver_def f kernel_word_ok_def heap_slot_def T1_def T2_def T3_def start_address_def)
  show "drivers sample_boot i = sample_driver_info" "kernel_last_interface sample_boot = 8" by (simp_all add: f)
qed


section \<open>The first thread\<close>



end
