(* ===== verification/Client.thy ===== *)
theory Client
  imports Kernel_Properties
begin

text \<open>
  The code drivers call the kernel with: locks and atomic bits (\<^verbatim>\<open>include/exclusive.h\<close>,
  \<^verbatim>\<open>include/atomic.h\<close>), the gate functions (\<^verbatim>\<open>include/drivers.h\<close>) and the registers of a virtual
  machine (\<^verbatim>\<open>include/isambard_client.h\<close>).

  A lock is taken and released without the kernel when nobody waits: an exclusive load and store of the lock
  word.  \<^verbatim>\<open>others\<close> are the values that another agent leaves in the word before each store that fails.  Only
  when the word is held, or a thread waits, does the client execute a system call, so the fast paths
  and the kernel's handlers together implement the lock.  A load or store at an address not mapped yet
  enters the fault handler and is repeated.
\<close>

section \<open>Exclusive access\<close>

text \<open>A fault on the lock word maps it or stops.\<close>

definition touch :: "u64 \<Rightarrow> u64 \<Rightarrow> kernel \<Rightarrow> kernel result" where
  "touch th va k =
    (case translate k va of
       Some _ \<Rightarrow> Inr k
     | None \<Rightarrow> rbind (find_and_map_memory th va k) (\<lambda>(mapped, k). if mapped then Inr k else Inl (BSOD 1242)))"

fun clearbit :: "u64 list \<Rightarrow> nat \<Rightarrow> u64 \<Rightarrow> u64" where
  "clearbit [] b v = v AND NOT (push_bit b 1)"
| "clearbit (other # others) b v = clearbit others b other"

fun setbit :: "u64 list \<Rightarrow> nat \<Rightarrow> u64 \<Rightarrow> u64" where
  "setbit [] b v = v OR push_bit b 1"
| "setbit (other # others) b v = setbit others b other"

section \<open>Locks\<close>

fun claim_lock_loop :: "u64 list \<Rightarrow> u64 \<Rightarrow> kernel \<Rightarrow> (thread_switch \<times> kernel) result" where
  "claim_lock_loop others th k =
    rbind (read_user64 k (reg k th 17)) (\<lambda>x16.
      let k = set_reg th 16 x16 k in
      if x16 \<noteq> 0 then handle_svc th ISAMBARD_LOCK_WAIT k
      else
        (case others of
           v # vs \<Rightarrow> rbind (write_user64 k (reg k th 17) v) (\<lambda>k. claim_lock_loop vs th (set_reg th 16 1 k))
         | [] \<Rightarrow> rbind (write_user64 k (reg k th 17) (reg k th 18)) (\<lambda>k. Inr (stay th, set_reg th 16 0 k))))"

declare claim_lock_loop.simps [simp del]

definition claim_lock_under :: "u64 list \<Rightarrow> u64 \<Rightarrow> u64 \<Rightarrow> kernel \<Rightarrow> (thread_switch \<times> kernel) result" where
  "claim_lock_under others th lock k =
    rbind (touch th lock (set_reg th 17 lock k)) (claim_lock_loop others th)"

definition claim_lock :: "u64 \<Rightarrow> u64 \<Rightarrow> kernel \<Rightarrow> (thread_switch \<times> kernel) result" where
  "claim_lock th lock k = claim_lock_under [] th lock k"

fun release_lock_loop :: "u64 list \<Rightarrow> u64 \<Rightarrow> kernel \<Rightarrow> (thread_switch \<times> kernel) result" where
  "release_lock_loop others th k =
    rbind (read_user64 k (reg k th 17)) (\<lambda>x16.
      let k = set_reg th 16 x16 k in
      if x16 \<noteq> reg k th 18 then handle_svc th ISAMBARD_LOCK_RELEASE k
      else
        (case others of
           v # vs \<Rightarrow> rbind (write_user64 k (reg k th 17) v) (\<lambda>k. release_lock_loop vs th (set_reg th 16 1 k))
         | [] \<Rightarrow> rbind (write_user64 k (reg k th 17) 0) (\<lambda>k. Inr (stay th, set_reg th 16 0 k))))"

declare release_lock_loop.simps [simp del]

definition release_lock_under :: "u64 list \<Rightarrow> u64 \<Rightarrow> u64 \<Rightarrow> kernel \<Rightarrow> (thread_switch \<times> kernel) result" where
  "release_lock_under others th lock k =
    rbind (touch th lock (set_reg th 17 lock k)) (release_lock_loop others th)"

definition release_lock :: "u64 \<Rightarrow> u64 \<Rightarrow> kernel \<Rightarrow> (thread_switch \<times> kernel) result" where
  "release_lock th lock k = release_lock_under [] th lock k"

text \<open>The spin lock of the system driver: it retries until the word is free.  The list holds the values the word
  has at the attempts, as other agents change it; with no attempt left the loop has not ended.\<close>

fun spin_claim_lock :: "(u64 \<times> bool) list \<Rightarrow> u64 \<Rightarrow> u64 option" where
  "spin_claim_lock [] me = None"
| "spin_claim_lock ((v, stored) # attempts) me = (if v = 0 \<and> stored then Some me else spin_claim_lock attempts me)"

definition spin_release_lock :: "u64 \<Rightarrow> u64" where
  "spin_release_lock lock = 0"

section \<open>Gates\<close>

definition gate_function :: "u64 \<Rightarrow> u32 \<Rightarrow> u64 \<Rightarrow> kernel \<Rightarrow> (thread_switch \<times> kernel) result" where
  "gate_function th thread timeout k =
    handle_svc th ISAMBARD_GATE (set_reg th 1 timeout (set_reg th 0 (ucast thread) k))"

definition wake_thread :: "u64 \<Rightarrow> u32 \<Rightarrow> kernel \<Rightarrow> (thread_switch \<times> kernel) result" where
  "wake_thread th thread k = gate_function th thread 0 k"

definition wait_until_woken :: "u64 \<Rightarrow> kernel \<Rightarrow> (thread_switch \<times> kernel) result" where
  "wait_until_woken th k = gate_function th 0 0 k"

definition sleep_unless_woken :: "u64 \<Rightarrow> u64 \<Rightarrow> kernel \<Rightarrow> (thread_switch \<times> kernel) result" where
  "sleep_unless_woken th timeout k = gate_function th 0 timeout k"

definition sleep_ms :: "u64 \<Rightarrow> u64 \<Rightarrow> kernel \<Rightarrow> (thread_switch \<times> kernel) result" where
  "sleep_ms th timeout k =
    (if timeout \<le> 0 then handle_svc th ISAMBARD_YIELD k else gate_function th 0 timeout k)"

section \<open>Registers of a virtual machine\<close>

datatype vm_system_register = MAIR_EL1 | SCTLR_EL1 | TCR_EL1 | TTBR0_EL1 | TTBR1_EL1 | VBAR_EL1 | ACTLR_EL1
  | FPEXC32_EL2 | ESR_EL1 | FAR_EL1 | VTTBR_EL2 | HCR_EL2 | HSTR_EL2 | VMPIDR_EL2 | VPIDR_EL2 | VTCR_EL2
  | DACR32_EL2 | CONTEXTIDR_EL1

definition vm_registers :: "vm_system_register list" where
  "vm_registers = [MAIR_EL1, SCTLR_EL1, TCR_EL1, TTBR0_EL1, TTBR1_EL1, VBAR_EL1, ACTLR_EL1, FPEXC32_EL2, ESR_EL1,
     FAR_EL1, VTTBR_EL2, HCR_EL2, HSTR_EL2, VMPIDR_EL2, VPIDR_EL2, VTCR_EL2, DACR32_EL2, CONTEXTIDR_EL1]"

definition vm_register_index :: "vm_system_register \<Rightarrow> nat" where
  "vm_register_index r = length (takeWhile (\<lambda>x. x \<noteq> r) vm_registers)"

definition change_vm_system_register ::
    "u64 \<Rightarrow> u32 \<Rightarrow> vm_system_register \<Rightarrow> u64 \<Rightarrow> u64 \<Rightarrow> kernel \<Rightarrow> (u64 \<times> kernel) result" where
  "change_vm_system_register th vm r xor_bits and_bits k =
    rbind (handle_svc th ISAMBARD_CHANGE_VM_SYSTEM_REGISTER
      (set_reg th 3 and_bits (set_reg th 2 xor_bits
        (set_reg th 1 (of_nat (vm_register_index r)) (set_reg th 0 (ucast vm) k))))) (\<lambda>(sw, k).
      Inr (reg k th 0, k))"

definition set_vm_system_register :: "u64 \<Rightarrow> u32 \<Rightarrow> vm_system_register \<Rightarrow> u64 \<Rightarrow> kernel \<Rightarrow> kernel result" where
  "set_vm_system_register th vm r v k =
    rbind (change_vm_system_register th vm r v 0 k) (\<lambda>(_, k). Inr k)"

definition get_vm_system_register :: "u64 \<Rightarrow> u32 \<Rightarrow> vm_system_register \<Rightarrow> kernel \<Rightarrow> (u64 \<times> kernel) result" where
  "get_vm_system_register th vm r k = change_vm_system_register th vm r 0 0xffffffff k"

section \<open>Bits\<close>

lemma setbit_last: "setbit others b v = last (v # others) OR push_bit b 1"
  by (induction others arbitrary: v) auto

lemma clearbit_last: "clearbit others b v = last (v # others) AND NOT (push_bit b 1)"
  by (induction others arbitrary: v) auto

section \<open>Taking and releasing without the kernel\<close>

lemma set_reg_16_17:
  "translate (set_reg t i v k) va = translate k va" "phys_mem (set_reg t i v k) = phys_mem k"
  by (simp_all add: set_reg_def)

lemma claim_free_lock:
  assumes "lock_free k lock" and "reg k th 18 = ucast (thread_code th)"
  shows "\<exists>k'. claim_lock th lock k = Inr (stay th, k') \<and> lock_rep k' lock th [] \<and> reg k' th 18 = reg k th 18
     \<and> reg k' th 17 = lock"
proof -
  obtain pa e where t: "translate k lock = Some (pa, e)" "writable_by_el0 e" "phys_mem k pa = 0"
    using assms(1) by (auto simp: lock_free_def)
  have w: "writable_by_el1 e" using t(2) by (rule writable_by_el0_imp_el1)
  let ?k = "set_reg th 16 0 ((set_reg th 16 0 (set_reg th 17 lock k))\<lparr>phys_mem := (phys_mem k)(pa := ucast (thread_code th))\<rparr>)"
  have "claim_lock th lock k = Inr (stay th, ?k)"
    using t w assms(2)
    by (simp add: claim_lock_def claim_lock_under_def touch_def claim_lock_loop.simps [of "[]"] read_user64_def
        write_user64_def set_reg_16_17 Let_def)
  moreover have "lock_rep ?k lock th []"
    using t by (auto simp: lock_rep_def set_reg_16_17 lock_word_def)
  moreover have "reg ?k th 18 = reg k th 18" "reg ?k th 17 = lock" by (simp_all add: set_reg_def upd_thread_def)
  ultimately show ?thesis by blast
qed

lemma claim_held_lock:
  assumes "lock_rep k lock owner []" and "thread_code owner \<noteq> 0"
  shows "claim_lock u lock k =
    handle_svc u ISAMBARD_LOCK_WAIT (set_reg u 16 (ucast (thread_code owner)) (set_reg u 17 lock k))"
proof -
  obtain pa e where t: "translate k lock = Some (pa, e)" "phys_mem k pa = ucast (thread_code owner)"
    using assms(1) by (auto simp: lock_rep_def lock_word_def)
  have "(ucast (thread_code owner) :: u64) \<noteq> 0" using assms(2) by (metis ucast_0 ucast_down_up_u32)
  then show ?thesis
    using t by (simp add: claim_lock_def claim_lock_under_def touch_def claim_lock_loop.simps [of "[]"] read_user64_def
        set_reg_16_17 Let_def)
qed

lemma release_own_lock:
  assumes "lock_rep k lock th []" and "reg k th 18 = ucast (thread_code th)"
  shows "\<exists>k'. release_lock th lock k = Inr (stay th, k') \<and> lock_free k' lock"
proof -
  obtain pa e where t: "translate k lock = Some (pa, e)" "writable_by_el0 e" "phys_mem k pa = ucast (thread_code th)"
    using assms(1) by (auto simp: lock_rep_def lock_word_def)
  have w: "writable_by_el1 e" using t(2) by (rule writable_by_el0_imp_el1)
  let ?k = "set_reg th 16 0 ((set_reg th 16 (ucast (thread_code th)) (set_reg th 17 lock k))\<lparr>phys_mem := (phys_mem k)(pa := 0)\<rparr>)"
  have "release_lock th lock k = Inr (stay th, ?k)"
    using t w assms(2)
    by (simp add: release_lock_def release_lock_under_def touch_def release_lock_loop.simps [of "[]"] read_user64_def
        write_user64_def set_reg_16_17 Let_def)
  moreover have "lock_free ?k lock" using t by (auto simp: lock_free_def set_reg_16_17)
  ultimately show ?thesis by blast
qed

text \<open>C23. A lock that nobody holds is taken and given back without the kernel: the claim makes the
  thread the owner with nobody waiting, while it is owned every other claim enters the kernel's wait
  handler with the lock in the register the handler expects, and the owner's release leaves it free.\<close>

theorem lock_without_the_kernel:
  assumes "lock_free k lock" and "reg k th 18 = ucast (thread_code th)" and "heap_thread k th"
  shows "\<exists>k1 k2. claim_lock th lock k = Inr (stay th, k1) \<and> lock_rep k1 lock th []
     \<and> (\<forall>u. claim_lock u lock k1 =
          handle_svc u ISAMBARD_LOCK_WAIT (set_reg u 16 (ucast (thread_code th)) (set_reg u 17 lock k1)))
     \<and> release_lock th lock k1 = Inr (stay th, k2) \<and> lock_free k2 lock"
proof -
  obtain k1 where k1: "claim_lock th lock k = Inr (stay th, k1)" "lock_rep k1 lock th []" "reg k1 th 18 = reg k th 18"
    using claim_free_lock [OF assms(1,2)] by blast
  moreover obtain k2 where "release_lock th lock k1 = Inr (stay th, k2)" "lock_free k2 lock"
    using release_own_lock [OF k1(2)] k1(3) assms(2) by auto
  ultimately show ?thesis using claim_held_lock [OF k1(2)] heap_thread_facts(1) [OF assms(3)] by blast
qed

theorem lock_without_the_kernel_witness:
  "\<exists>k1 k2. claim_lock T1 sample_lock (sample_kernel\<lparr>phys_mem := (\<lambda>_. 0)\<rparr>) = Inr (stay T1, k1)
     \<and> lock_rep k1 sample_lock T1 [] \<and> release_lock T1 sample_lock k1 = Inr (stay T1, k2)"
proof -
  let ?k = "sample_kernel\<lparr>phys_mem := (\<lambda>_. 0)\<rparr>"
  have v: "unat sample_lock < 2 ^ 30" by (simp add: sample_lock_def)
  have "lock_free ?k sample_lock"
    using physical_block_facts(3) [of 0] sample_translate [OF v] by (simp add: lock_free_def)
  moreover have "heap_thread ?k T1"
    using sample_heap_threads(1) by (simp add: heap_thread_def could_be_in_heap_def)
  ultimately show ?thesis using lock_without_the_kernel [of ?k sample_lock T1] by auto
qed

end
