(* ===== verification/Interface_Compiler.thy ===== *)
theory Interface_Compiler
  imports System_Services
begin

text \<open>
  Names and call codes: the checksum that drivers (\<^verbatim>\<open>include/drivers.h\<close>), the interface compiler
  (\<^verbatim>\<open>tools/interfaces.c\<close>) and the RISC OS driver each compute, and the compiler's reader of interface
  files.

  The checksums are shown to be one function, a bit-serial shift register with feedback; a reader that
  succeeds has found matching pairs of interface and end lines, and the call that the kernel
  intercepts has the code that the compiler derives from the interface file.
\<close>

section \<open>Checksums\<close>

definition Polynomial :: u32 where "Polynomial = 0xEDB88320"

definition crc_shift :: "u32 \<Rightarrow> u32" where
  "crc_shift crc = drop_bit 1 crc XOR (- (crc AND 1) AND Polynomial)"

definition crc_byte :: "u32 \<Rightarrow> u8 \<Rightarrow> u32" where
  "crc_byte crc b = (crc_shift ^^ 8) (crc XOR ucast b)"

definition crc32 :: "u8 list \<Rightarrow> u32 \<Rightarrow> u32" where
  "crc32 data previousCrc32 = NOT (foldl crc_byte (NOT previousCrc32) data)"

text \<open>The driver's version reads up to the terminating zero byte; without one it runs out of the string.\<close>

fun name_code_loop :: "u8 list \<Rightarrow> u32 \<Rightarrow> u32 option" where
  "name_code_loop [] crc = None"
| "name_code_loop (b # bs) crc = (if b = 0 then Some crc else name_code_loop bs (crc_byte crc b))"

definition name_code :: "u8 list \<Rightarrow> u64 option" where
  "name_code name = map_option (\<lambda>crc. ucast (NOT crc)) (name_code_loop name 0xFFFFFFFF)"

fun software_crc32_loop :: "nat \<Rightarrow> nat \<Rightarrow> (nat \<Rightarrow> u8) \<Rightarrow> u32 \<Rightarrow> u32" where
  "software_crc32_loop 0 c p crc = crc"
| "software_crc32_loop (Suc n) c p crc = software_crc32_loop n (c + 1) p (crc_byte crc (p c))"

definition software_crc32 :: "(nat \<Rightarrow> u8) \<Rightarrow> u32 \<Rightarrow> u32" where
  "software_crc32 p len = NOT (software_crc32_loop (unat len) 0 p (NOT 0))"

definition bytes_of :: "string \<Rightarrow> u8 list" where
  "bytes_of s = map of_char s"

section \<open>Reading an interface file\<close>

datatype tool_error = Exit nat | Overflow

record parsed =
  p_lines :: "string list"
  p_interfaces :: "nat list"
  p_ends :: "nat list"

definition newline :: char where "newline = CHR 0x0A"

text \<open>\<^verbatim>\<open>strtok( file, "\n" )\<close>: the maximal non-empty pieces between line ends, up to the end of the string.\<close>

fun strtok_lines :: "string \<Rightarrow> string \<Rightarrow> string list" where
  "strtok_lines [] piece = (if piece = [] then [] else [piece])"
| "strtok_lines (c # cs) piece =
    (if c = newline then (if piece = [] then strtok_lines cs [] else piece # strtok_lines cs [])
     else strtok_lines cs (piece @ [c]))"

definition strip :: "string \<Rightarrow> string" where
  "strip l = dropWhile (\<lambda>c. c = CHR '' '' \<or> c = CHR 0x09) l"

definition is_comment :: "string \<Rightarrow> bool" where
  "is_comment l \<longleftrightarrow> take 1 l = ''#'' \<or> take 2 l = ''//''"

definition is_interface :: "string \<Rightarrow> bool" where
  "is_interface l \<longleftrightarrow> take 10 l = ''interface ''"

definition parse_line :: "string \<Rightarrow> parsed \<Rightarrow> tool_error + parsed" where
  "parse_line raw s =
    (if length (p_lines s) \<ge> 1000 then Inl Overflow
     else
       (let l = strip raw; n = length (p_lines s) in
        if l = [] \<or> is_comment l then Inr s
        else if is_interface l then
          (if length (p_interfaces s) \<ge> 100 then Inl Overflow
           else let s = s\<lparr>p_interfaces := p_interfaces s @ [n]\<rparr> in
             if length (p_interfaces s) > length (p_ends s) + 1 then Inl (Exit 1)
             else Inr (s\<lparr>p_lines := p_lines s @ [l]\<rparr>))
        else if l = ''end'' then
          (if length (p_ends s) \<ge> 100 then Inl Overflow
           else let s = s\<lparr>p_ends := p_ends s @ [n]\<rparr> in
             if length (p_interfaces s) \<noteq> length (p_ends s) then Inl (Exit 1)
             else Inr (s\<lparr>p_lines := p_lines s @ [l]\<rparr>))
        else Inr (s\<lparr>p_lines := p_lines s @ [l]\<rparr>)))"

fun parse_lines :: "string list \<Rightarrow> parsed \<Rightarrow> tool_error + parsed" where
  "parse_lines [] s = (if length (p_lines s) \<ge> 1000 then Inl Overflow else Inr s)"
| "parse_lines (l # ls) s = (case parse_line l s of Inl e \<Rightarrow> Inl e | Inr s \<Rightarrow> parse_lines ls s)"

definition parse_file :: "string \<Rightarrow> tool_error + parsed" where
  "parse_file file =
    (case parse_lines (strtok_lines (takeWhile (\<lambda>c. c \<noteq> CHR 0x00) file) []) \<lparr>p_lines = [], p_interfaces = [], p_ends = []\<rparr> of
       Inl e \<Rightarrow> Inl e
     | Inr s \<Rightarrow> if length (p_ends s) \<noteq> length (p_interfaces s) then Inl (Exit 1) else Inr s)"

text \<open>The code of a call: the checksum of the interface's name, two underscores and the routine's line; and
  the number of parameters of a list of them.\<close>

definition interface_crc :: "string \<Rightarrow> u32" where
  "interface_crc interface_line = crc32 (bytes_of ''__'') (crc32 (bytes_of (drop 10 interface_line)) 0)"

definition routine_crc :: "string \<Rightarrow> string \<Rightarrow> u32" where
  "routine_crc interface_line routine = crc32 (bytes_of routine) (interface_crc interface_line)"

definition parameters_count :: "string option \<Rightarrow> nat" where
  "parameters_count parameters =
    (case parameters of None \<Rightarrow> 0 | Some p \<Rightarrow> 1 + length (filter (\<lambda>c. c = CHR '','') (tl p)))"

section \<open>One checksum\<close>

definition lfsr :: "u32 \<Rightarrow> bool \<Rightarrow> u32" where
  "lfsr r b = drop_bit 1 r XOR (if bit r 0 \<noteq> b then Polynomial else 0)"

definition byte_bits :: "u8 \<Rightarrow> bool list" where
  "byte_bits b = map (bit b) [0..<8]"

lemma crc_shift_lfsr: "crc_shift r = lfsr r False"
proof -
  have "r AND 1 = (if bit r 0 then 1 else 0)" by (simp add: and_one_eq mod_2_eq_odd bit_0 flip: One_nat_def)
  then show ?thesis by (simp add: crc_shift_def lfsr_def)
qed

lemma lfsr_xor: "lfsr (r XOR x) False = lfsr r (bit x 0) XOR drop_bit 1 x"
  by (auto simp: lfsr_def drop_bit_xor bit_xor_iff xor.assoc xor.commute xor.left_commute)

lemma crc_shift_lfsr_iterate:
  "(crc_shift ^^ n) (r XOR x) = foldl lfsr r (map (bit x) [0..<n]) XOR drop_bit n x"
proof (induction n)
  case (Suc n)
  let ?g = "foldl lfsr r (map (bit x) [0..<n])"
  have "(crc_shift ^^ Suc n) (r XOR x) = lfsr (?g XOR drop_bit n x) False"
    unfolding funpow.simps comp_def Suc.IH crc_shift_lfsr by simp
  also have "\<dots> = lfsr ?g (bit x n) XOR drop_bit (Suc n) x"
    unfolding lfsr_xor drop_bit_drop_bit by (simp add: bit_drop_bit_eq)
  finally show ?case by simp
qed simp

lemma crc_byte_lfsr: "crc_byte r b = foldl lfsr r (byte_bits b)"
proof -
  have "drop_bit 8 (ucast b :: u32) = 0" by (intro bit_eqI) (auto simp: bit_simps dest: bit_imp_le_length)
  moreover have "map (bit (ucast b :: u32)) [0..<8] = byte_bits b" by (auto simp: byte_bits_def bit_simps)
  ultimately show ?thesis by (simp add: crc_byte_def crc_shift_lfsr_iterate)
qed

lemma crc32_lfsr: "crc32 data p = NOT (foldl lfsr (NOT p) (concat (map byte_bits data)))"
proof -
  have "foldl crc_byte r data = foldl lfsr r (concat (map byte_bits data))" for r
    by (induction data arbitrary: r) (simp_all add: crc_byte_lfsr)
  then show ?thesis by (simp add: crc32_def)
qed

lemma crc32_append: "crc32 (xs @ ys) p = crc32 ys (crc32 xs p)"
  by (simp add: crc32_def)

lemma name_code_loop_foldl:
  "0 \<notin> set data \<Longrightarrow> name_code_loop (data @ 0 # rest) crc = Some (foldl crc_byte crc data)"
  by (induction data arbitrary: crc) auto

lemma software_crc32_loop_foldl: "software_crc32_loop n c p crc = foldl crc_byte crc (map p [c..<c + n])"
proof (induction n arbitrary: c crc)
  case (Suc n)
  have "[c..<c + Suc n] = c # [c + 1..<c + 1 + n]" by (simp add: upt_conv_Cons One_nat_def)
  then show ?case using Suc by simp
qed simp

text \<open>For evaluation: the same steps on integers.\<close>

definition crc_shift_int :: "int \<Rightarrow> int" where
  "crc_shift_int x = (if even x then x div 2 else (x div 2) XOR 0xEDB88320)"

definition crc_byte_int :: "int \<Rightarrow> int \<Rightarrow> int" where
  "crc_byte_int c b = crc_shift_int (crc_shift_int (crc_shift_int (crc_shift_int (crc_shift_int (crc_shift_int
     (crc_shift_int (crc_shift_int (c XOR b))))))))"

lemma uint_crc_shift: "uint (crc_shift c) = crc_shift_int (uint c)"
proof -
  have "uint (drop_bit 1 c) = uint c div 2" by (simp add: drop_bit_eq_div uint_div flip: One_nat_def)
  moreover have "bit c 0 \<longleftrightarrow> odd (uint c)" using bit_unsigned_iff [of c 0, where ?'a = int] by (simp add: bit_0)
  ultimately show ?thesis
    by (simp add: crc_shift_lfsr lfsr_def crc_shift_int_def unsigned_xor_eq Polynomial_def)
qed

lemma uint_crc_bytes: "uint (foldl crc_byte c data) = foldl crc_byte_int (uint c) (map uint data)"
proof (induction data arbitrary: c)
  case (Cons b data)
  have "uint b < 2 ^ 32" using unsigned_less [of b, where ?'a = int] by simp
  then have "uint (ucast b :: u32) = uint b" by (simp add: unsigned_ucast_eq take_bit_int_eq_self)
  moreover have "(f ^^ 8) x = f (f (f (f (f (f (f (f x)))))))" for f :: "u32 \<Rightarrow> u32" and x
    by (simp add: numeral_eq_Suc)
  ultimately have "uint (crc_byte c b) = crc_byte_int (uint c) (uint b)"
    by (simp add: crc_byte_def crc_byte_int_def uint_crc_shift unsigned_xor_eq)
  then show ?case using Cons by simp
qed simp

lemma uint_not_u32: "uint (NOT (x :: u32)) = 0xffffffff - uint x"
proof -
  have "uint x < 2 ^ 32" using unsigned_less [of x, where ?'a = int] by simp
  then show ?thesis by (simp add: unsigned_not_eq take_bit_not_eq_mask_diff mask_eq_exp_minus_1 take_bit_int_eq_self)
qed

lemma crc32_evaluate:
  assumes "c = 0xffffffff - uint p" and "map uint (bytes_of s) = bs" and "foldl crc_byte_int c bs = 0xffffffff - uint v"
  shows "crc32 (bytes_of s) p = v"
proof -
  have "uint (foldl crc_byte (NOT p) (bytes_of s)) = uint (NOT v)"
    using assms by (simp add: uint_crc_bytes uint_not_u32)
  then show ?thesis by (simp add: crc32_def word_uint_eq_iff [symmetric])
qed

lemmas evaluate_crc = crc_byte_int_def crc_shift_int_def

text \<open>C25. All programs agree on names: the checksum of the interface compiler, of the drivers and of the
  RISC OS driver is one function, the remainder in a bit-serial shift register, least significant
  bit first; and the compiler may feed it piece by piece.\<close>

theorem checksums_agree:
  assumes "0 \<notin> set data" and "length data < 2 ^ 32"
  shows "crc32 data p = NOT (foldl lfsr (NOT p) (concat (map byte_bits data)))
     \<and> name_code (data @ 0 # rest) = Some (ucast (crc32 data 0))
     \<and> software_crc32 (\<lambda>i. data ! i) (of_nat (length data)) = crc32 data 0
     \<and> crc32 (data @ data2) p = crc32 data2 (crc32 data p)"
proof -
  have m: "map ((!) data) [0..<length data] = data" by (simp add: map_nth)
  have "name_code (data @ 0 # rest) = Some (ucast (crc32 data 0))"
  proof -
    have "(0xFFFFFFFF :: u32) = NOT 0" by simp
    then show ?thesis using assms(1) unfolding name_code_def crc32_def by (simp only: name_code_loop_foldl option.map simp_thms)
  qed
  moreover have "software_crc32 (\<lambda>i. data ! i) (of_nat (length data)) = crc32 data 0"
    using unat_of_nat_u32 [OF assms(2)] m by (simp add: software_crc32_def software_crc32_loop_foldl crc32_def)
  ultimately show ?thesis using crc32_lfsr crc32_append by blast
qed

theorem checksums_agree_witness:
  "name_code (bytes_of ''123456789'' @ [0]) = Some 0xCBF43926
   \<and> software_crc32 (\<lambda>i. bytes_of ''123456789'' ! i) 9 = 0xCBF43926"
proof -
  have c: "crc32 (bytes_of ''123456789'') 0 = 0xCBF43926"
    by (rule crc32_evaluate [of "0xffffffff" _ _ "[0x31, 0x32, 0x33, 0x34, 0x35, 0x36, 0x37, 0x38, 0x39]"]) (simp_all add: bytes_of_def evaluate_crc)
  have z: "0 \<notin> set (bytes_of ''123456789'')" "length (bytes_of ''123456789'') = 9" by (simp_all add: bytes_of_def)
  show ?thesis
    using checksums_agree [of "bytes_of ''123456789''" 0 "[]" "[]"] z c by simp
qed

text \<open>The kernel intercepts the call it means to: the code it compares with is the code that the
  interface compiler derives from the line of the routine in the interface file.\<close>

theorem physical_address_call_code:
  "ucast (routine_crc ''interface DRIVER_SYSTEM'' ''physical_address_of IN va: NUMBER OUT pa: NUMBER'')
     = DRIVER_SYSTEM_physical_address_of"
proof -
  have "routine_crc ''interface DRIVER_SYSTEM'' ''physical_address_of IN va: NUMBER OUT pa: NUMBER'' = 0x4a274f85"
  proof -
    have "crc32 (bytes_of ''DRIVER_SYSTEM'') 0 = 0x65e3f44a"
      by (rule crc32_evaluate [of "0xffffffff" _ _ "[0x44, 0x52, 0x49, 0x56, 0x45, 0x52, 0x5f, 0x53, 0x59, 0x53, 0x54, 0x45, 0x4d]"]) (simp_all add: bytes_of_def evaluate_crc)
    moreover have "crc32 (bytes_of ''__'') 0x65e3f44a = 0x3768eb68"
      by (rule crc32_evaluate [of "0x9a1c0bb5" _ _ "[0x5f, 0x5f]"]) (simp_all add: bytes_of_def evaluate_crc)
    ultimately have i: "interface_crc ''interface DRIVER_SYSTEM'' = 0x3768eb68" by (simp add: interface_crc_def)
    show "routine_crc ''interface DRIVER_SYSTEM'' ''physical_address_of IN va: NUMBER OUT pa: NUMBER'' = 0x4a274f85"
      unfolding routine_crc_def i
      by (rule crc32_evaluate [of "0xc8971497" _ _ "[0x70, 0x68, 0x79, 0x73, 0x69, 0x63, 0x61, 0x6c, 0x5f, 0x61, 0x64, 0x64, 0x72, 0x65, 0x73, 0x73, 0x5f, 0x6f, 0x66, 0x20, 0x49, 0x4e, 0x20, 0x76, 0x61, 0x3a, 0x20, 0x4e, 0x55, 0x4d, 0x42, 0x45, 0x52, 0x20, 0x4f, 0x55, 0x54, 0x20, 0x70, 0x61, 0x3a, 0x20, 0x4e, 0x55, 0x4d, 0x42, 0x45, 0x52]"]) (simp_all add: bytes_of_def evaluate_crc)
  qed
  then show ?thesis by (simp add: DRIVER_SYSTEM_physical_address_of_def)
qed

section \<open>Interfaces and their ends match\<close>

text \<open>The reader's state between two lines: the ends found so far close the interfaces in order, and at most
  the last interface is open.\<close>

definition well_read :: "parsed \<Rightarrow> bool" where
  "well_read s \<longleftrightarrow>
     length (p_ends s) \<le> length (p_interfaces s) \<and> length (p_interfaces s) \<le> length (p_ends s) + 1
     \<and> (\<forall>i<length (p_ends s). p_interfaces s ! i < p_ends s ! i)
     \<and> (\<forall>i. i + 1 < length (p_interfaces s) \<longrightarrow> p_ends s ! i < p_interfaces s ! (i + 1))
     \<and> (\<forall>i<length (p_interfaces s). p_interfaces s ! i < length (p_lines s) \<and> is_interface (p_lines s ! (p_interfaces s ! i)))
     \<and> (\<forall>i<length (p_ends s). p_ends s ! i < length (p_lines s) \<and> p_lines s ! (p_ends s ! i) = ''end'')"

lemma well_read_line:
  assumes "well_read s" and "parse_line l s = Inr s'"
  shows "well_read s'"
proof -
  let ?n = "length (p_lines s)" and ?l = "strip l"
  have b: "length (p_ends s) \<le> length (p_interfaces s)" "length (p_interfaces s) \<le> length (p_ends s) + 1"
    using assms(1) by (simp_all add: well_read_def)
  note pl = assms(2) [unfolded parse_line_def Let_def]
  show ?thesis
  proof (cases "?l = [] \<or> is_comment ?l")
    case True
    then have "s' = s" using pl by (simp split: if_splits)
    then show ?thesis using assms(1) by simp
  next
    case False
    consider "is_interface ?l" | "\<not> is_interface ?l" "?l = ''end''" | "\<not> is_interface ?l" "?l \<noteq> ''end''" by blast
    then show ?thesis
    proof cases
      case 1
      then have "length (p_interfaces s) = length (p_ends s)"
          "s' = s\<lparr>p_interfaces := p_interfaces s @ [?n], p_lines := p_lines s @ [?l]\<rparr>"
        using False b pl by (simp_all split: if_splits)
      then show ?thesis using 1 assms(1) by (auto simp: well_read_def nth_append less_Suc_eq)
    next
      case 2
      then have "length (p_interfaces s) = length (p_ends s) + 1"
          "s' = s\<lparr>p_ends := p_ends s @ [?n], p_lines := p_lines s @ [?l]\<rparr>"
        using False b pl by (simp_all split: if_splits)
      then show ?thesis using 2 assms(1) by (auto simp: well_read_def nth_append less_Suc_eq)
    next
      case 3
      then have "s' = s\<lparr>p_lines := p_lines s @ [?l]\<rparr>" using False pl by (simp split: if_splits)
      then show ?thesis using assms(1) by (auto simp: well_read_def nth_append)
    qed
  qed
qed

lemma well_read_lines: "well_read s \<Longrightarrow> parse_lines ls s = Inr s' \<Longrightarrow> well_read s'"
  by (induction ls arbitrary: s) (auto split: sum.splits if_splits dest: well_read_line)

text \<open>A file that the compiler accepts consists of well-formed interfaces: as many ends as
  interfaces, each interface line before its end line and each end before the next interface.\<close>

theorem accepted_files_are_balanced:
  assumes "parse_file file = Inr s"
  shows "length (p_ends s) = length (p_interfaces s)
     \<and> (\<forall>i<length (p_interfaces s). p_interfaces s ! i < p_ends s ! i \<and> p_ends s ! i < length (p_lines s)
          \<and> is_interface (p_lines s ! (p_interfaces s ! i)) \<and> p_lines s ! (p_ends s ! i) = ''end'')
     \<and> (\<forall>i. i + 1 < length (p_interfaces s) \<longrightarrow> p_ends s ! i < p_interfaces s ! (i + 1))"
proof -
  have "well_read \<lparr>p_lines = [], p_interfaces = [], p_ends = []\<rparr>" by (simp add: well_read_def)
  then have "well_read s" and "length (p_ends s) = length (p_interfaces s)"
    using assms well_read_lines by (auto simp: parse_file_def split: sum.splits if_splits)
  then show ?thesis by (simp add: well_read_def)
qed

theorem accepted_files_are_balanced_witness:
  "\<exists>s. parse_file ''interface A
  x IN n: NUMBER
end
'' = Inr s \<and> length (p_ends s) = 1 \<and> p_interfaces s ! 0 < p_ends s ! 0"
proof -
  let ?s = "\<lparr>p_lines = [''interface A'', ''x IN n: NUMBER'', ''end''], p_interfaces = [0], p_ends = [2]\<rparr>"
  have t: "strtok_lines (takeWhile (\<lambda>c. c \<noteq> CHR 0x00) ''interface A
  x IN n: NUMBER
end
'') [] = [''interface A'', ''  x IN n: NUMBER'', ''end'']"
    by (simp add: newline_def)
  have l: "strip ''interface A'' = ''interface A''" "strip ''  x IN n: NUMBER'' = ''x IN n: NUMBER''" "strip ''end'' = ''end''"
    "is_interface ''interface A''" "\<not> is_interface ''x IN n: NUMBER''" "\<not> is_interface ''end''"
    "\<not> is_comment ''interface A''" "\<not> is_comment ''x IN n: NUMBER''" "\<not> is_comment ''end''"
    by (simp_all add: strip_def is_interface_def is_comment_def)
  have p: "parse_file ''interface A
  x IN n: NUMBER
end
'' = Inr ?s"
    unfolding parse_file_def t by (simp add: parse_line_def l Let_def)
  show ?thesis using accepted_files_are_balanced [OF p] p by simp
qed

end
