(* ===== verification/Riscos_VM.thy ===== *)
theory Riscos_VM
  imports Client Interface_Compiler
begin

text \<open>
  The virtual machine monitor for RISC OS (\<^verbatim>\<open>drivers/riscos.c\<close>): the handler of the guest's traps with the
  emulated interrupt controller, system coprocessor, timer, EMMC controller and mailbox, and the guest's
  stage 2 translation table.

  The registers of the partner thread and of its virtual machine are components of the state; a system call
  that reads or writes them has the effect the kernel gives it, including the passage through 32-bit
  variables.  The two system calls with which the driver signals a virtual interrupt have no number
  the kernel knows, so they stop it at line 656.  Every device access holds its lock from beginning to
  end and is one step.  Calls of the display are left out.  The driver defines \<^verbatim>\<open>QEMU\<close> for itself.
\<close>

section \<open>State\<close>

datatype emmc_register = ARG2 | BLKSIZECNT | ARG1 | CMDTM | RESP0 | RESP1 | RESP2 | RESP3 | DATA | STATUS | CONTROL0
  | CONTROL1 | INTERRUPT | IRPT_MASK | IRPT_EN | CONTROL2 | FORCE_IRPT | BOOT_TIMEOUT | DBG_SEL | EXRDFIFO_CFG
  | EXRDFIFO_EN | TUNE_STEP | TUNE_STEPS_STD | TUNE_STEPS_DDR | SPI_INT_SPT | SLOTISR_VER

record irq_details =
  irq_basic_pending :: u32
  irq_pending1 :: u32
  irq_pending2 :: u32
  fiq_control :: u32
  enabled_irqs1 :: u32
  enabled_irqs2 :: u32
  enabled_basic_irqs :: u32

record system_timer =
  control_status :: u32
  counter :: u64
  compare :: "nat \<Rightarrow> u32"
  locked_high :: u32

text \<open>The variables \<^verbatim>\<open>v\<close> of the macro \<^verbatim>\<open>READ_WRITE\<close>, one for each of its uses.\<close>

record cp15_state =
  cp_SCTLR :: u64
  cp_DACR :: u64
  cp_TTBCR :: u64
  cp_TTBR0 :: u64
  cp_ACTLR :: u64

record riscos =
  partner_regs :: "nat \<Rightarrow> u64"
  vm_sysregs :: "vm_system_register \<Rightarrow> u64"
  irqs :: irq_details
  irq_active :: bool
  timer :: system_timer
  cp15 :: cp15_state
  debug_ttbr0 :: u32
  acks :: u32
  aarch64_counter :: u32
  guest_memory :: "nat \<Rightarrow> u32"
  bsc0 :: "nat \<Rightarrow> u32"
  bsc0_writes :: "(nat \<times> u32) list"
  emmc_state :: "emmc_register \<Rightarrow> u32"
  sdcard_woken :: bool
  mailbox_request :: u32
  waiting_for_event :: bool
  waiting_for_interrupt :: bool

text \<open>The state before the guest runs.\<close>

definition riscos_start :: riscos where
  "riscos_start = \<lparr>partner_regs = (\<lambda>_. 0), vm_sysregs = (\<lambda>_. 0),
     irqs = \<lparr>irq_basic_pending = 0, irq_pending1 = 0, irq_pending2 = 0, fiq_control = 0, enabled_irqs1 = 0,
       enabled_irqs2 = 0, enabled_basic_irqs = 0\<rparr>,
     irq_active = False, timer = \<lparr>control_status = 0, counter = 0, compare = (\<lambda>_. 0), locked_high = 0\<rparr>,
     cp15 = \<lparr>cp_SCTLR = 0, cp_DACR = 0, cp_TTBCR = 0, cp_TTBR0 = 0, cp_ACTLR = 7\<rparr>,
     debug_ttbr0 = 0, acks = 0, aarch64_counter = 0, guest_memory = (\<lambda>_. 0), bsc0 = (\<lambda>_. 0), bsc0_writes = [],
     emmc_state = (\<lambda>_. 0)(CONTROL1 := 7), sdcard_woken = False, mailbox_request = 0xffffffff,
     waiting_for_event = False, waiting_for_interrupt = False\<rparr>"

definition get_partner_register :: "nat \<Rightarrow> riscos \<Rightarrow> u64" where
  "get_partner_register i s = partner_regs s i"

definition set_partner_register :: "nat \<Rightarrow> u64 \<Rightarrow> riscos \<Rightarrow> riscos" where
  "set_partner_register i v s = s\<lparr>partner_regs := (partner_regs s)(i := v)\<rparr>"

text \<open>The kernel's change of a system register of the virtual machine.\<close>

definition change_vm_register :: "vm_system_register \<Rightarrow> u64 \<Rightarrow> u64 \<Rightarrow> riscos \<Rightarrow> u64 \<times> riscos" where
  "change_vm_register r xor_bits and_bits s =
    (let old_value = ucast (vm_sysregs s r) :: u32;
         new_value = ucast xor_bits :: u32;
         new_value = (if and_bits \<noteq> 0 then ucast (ucast new_value XOR (ucast old_value AND and_bits)) else new_value);
         s = (if xor_bits \<noteq> 0 \<or> and_bits \<noteq> NOT 0
              then s\<lparr>vm_sysregs := (vm_sysregs s)(r := ucast new_value)\<rparr> else s)
     in (ucast old_value, s))"

definition set_vm_register :: "vm_system_register \<Rightarrow> u64 \<Rightarrow> riscos \<Rightarrow> riscos" where
  "set_vm_register r v s = snd (change_vm_register r v 0 s)"

definition get_vm_register :: "vm_system_register \<Rightarrow> riscos \<Rightarrow> u64 \<times> riscos" where
  "get_vm_register r s = change_vm_register r 0 0xffffffff s"

section \<open>The interrupt controller\<close>

definition upd_irqs :: "(irq_details \<Rightarrow> irq_details) \<Rightarrow> riscos \<Rightarrow> riscos" where
  "upd_irqs f s = s\<lparr>irqs := f (irqs s)\<rparr>"

definition irq_now :: "irq_details \<Rightarrow> bool" where
  "irq_now d \<longleftrightarrow> (irq_pending1 d AND enabled_irqs1 d) \<noteq> 0 \<or> (irq_pending2 d AND enabled_irqs2 d) \<noteq> 0
     \<or> (irq_basic_pending d AND enabled_basic_irqs d) \<noteq> 0"

definition update_virtual_irq :: "riscos \<Rightarrow> riscos result" where
  "update_virtual_irq s =
    (if irq_now (irqs s) \<and> \<not> irq_active s then Inl (BSOD 656)
     else if \<not> irq_now (irqs s) \<and> irq_active s then Inl (BSOD 656)
     else Inr (s\<lparr>irq_active := irq_now (irqs s)\<rparr>))"

definition trigger_irq :: "nat \<Rightarrow> riscos \<Rightarrow> riscos result" where
  "trigger_irq n s =
    update_virtual_irq
      (if n < 32 then upd_irqs (\<lambda>d. d\<lparr>irq_pending1 := irq_pending1 d OR push_bit n 1\<rparr>) s
       else if n < 64 then upd_irqs (\<lambda>d. d\<lparr>irq_pending2 := irq_pending2 d OR push_bit (n - 32) 1\<rparr>) s
       else if n < 72 then upd_irqs (\<lambda>d. d\<lparr>irq_basic_pending := irq_basic_pending d OR push_bit (n - 64) 1\<rparr>) s
       else s)"

definition irq_pending :: "nat \<Rightarrow> irq_details \<Rightarrow> bool" where
  "irq_pending n d =
    (if n < 32 then 0 \<noteq> (irq_pending1 d AND enabled_irqs1 d AND push_bit n 1)
     else if n < 64 then 0 \<noteq> (irq_pending2 d AND enabled_irqs2 d AND push_bit (n - 32) 1)
     else if n < 72 then 0 \<noteq> (irq_basic_pending d AND enabled_basic_irqs d AND push_bit (n - 64) 1)
     else False)"

definition clear_irq :: "nat \<Rightarrow> riscos \<Rightarrow> riscos result" where
  "clear_irq n s =
    update_virtual_irq
      (if n < 32 then upd_irqs (\<lambda>d. d\<lparr>irq_pending1 := irq_pending1 d AND NOT (push_bit n 1)\<rparr>) s
       else if n < 64 then upd_irqs (\<lambda>d. d\<lparr>irq_pending2 := irq_pending2 d AND NOT (push_bit (n - 32) 1)\<rparr>) s
       else if n < 72 then upd_irqs (\<lambda>d. d\<lparr>irq_basic_pending := irq_basic_pending d AND NOT (push_bit (n - 64) 1)\<rparr>) s
       else s)"

text \<open>The basic pending register.  The last two conditions are written without parentheses, so that the
  comparison with zero comes first.\<close>

definition c_bool :: "bool \<Rightarrow> u32" where
  "c_bool b = (if b then 1 else 0)"

definition basic_pending :: "irq_details \<Rightarrow> u32" where
  "basic_pending d =
    (let pending = irq_basic_pending d AND enabled_basic_irqs d AND 0xff;
         pending = (if irq_pending 62 d then pending OR push_bit 20 1 else pending);
         pending = (if irq_pending 57 d then pending OR push_bit 19 1 else pending);
         pending = (if irq_pending 56 d then pending OR push_bit 18 1 else pending);
         pending = (if irq_pending 55 d then pending OR push_bit 17 1 else pending);
         pending = (if irq_pending 54 d then pending OR push_bit 16 1 else pending);
         pending = (if irq_pending 53 d then pending OR push_bit 15 1 else pending);
         pending = (if irq_pending 19 d then pending OR push_bit 14 1 else pending);
         pending = (if irq_pending 18 d then pending OR push_bit 13 1 else pending);
         pending = (if irq_pending 10 d then pending OR push_bit 12 1 else pending);
         pending = (if irq_pending 9 d then pending OR push_bit 11 1 else pending);
         pending = (if irq_pending 7 d then pending OR push_bit 10 1 else pending);
         pending = (if irq_pending1 d AND c_bool (enabled_irqs1 d \<noteq> 0) \<noteq> 0 then pending OR push_bit 9 1 else pending)
     in if irq_pending2 d AND c_bool (enabled_irqs2 d \<noteq> 0) \<noteq> 0 then pending OR push_bit 8 1 else pending)"

definition read_or :: "bool \<Rightarrow> nat \<Rightarrow> u32 \<Rightarrow> (u64 \<Rightarrow> riscos \<Rightarrow> riscos) \<Rightarrow> riscos \<Rightarrow> riscos" where
  "read_or is_write register_index v write s =
    (if is_write then write (get_partner_register register_index s) s
     else set_partner_register register_index (ucast v) s)"

definition bcm_2835_irq_registers_access :: "bool \<Rightarrow> nat \<Rightarrow> u64 \<Rightarrow> riscos \<Rightarrow> riscos result" where
  "bcm_2835_irq_registers_access is_write register_index offset s =
    rbind
      (if offset = 0x200 then Inr (if is_write then s else set_partner_register register_index (ucast (basic_pending (irqs s))) s)
       else if offset = 0x204 then
         Inr (if is_write then s
              else set_partner_register register_index (ucast (irq_pending1 (irqs s) AND enabled_irqs1 (irqs s))) s)
       else if offset = 0x208 then
         Inr (if is_write then s
              else set_partner_register register_index (ucast (irq_pending2 (irqs s) AND enabled_irqs2 (irqs s))) s)
       else if offset = 0x20c then
         (if is_write then Inl (BRK 270) else Inr (set_partner_register register_index (ucast (fiq_control (irqs s))) s))
       else if offset = 0x210 then
         Inr (read_or is_write register_index (enabled_irqs1 (irqs s))
           (\<lambda>v. upd_irqs (\<lambda>d. d\<lparr>enabled_irqs1 := enabled_irqs1 d OR ucast v\<rparr>)) s)
       else if offset = 0x214 then
         Inr (read_or is_write register_index (enabled_irqs2 (irqs s))
           (\<lambda>v. upd_irqs (\<lambda>d. d\<lparr>enabled_irqs2 := enabled_irqs2 d OR ucast v\<rparr>)) s)
       else if offset = 0x218 then
         Inr (read_or is_write register_index (enabled_basic_irqs (irqs s))
           (\<lambda>v. upd_irqs (\<lambda>d. d\<lparr>enabled_basic_irqs := enabled_basic_irqs d OR ucast v\<rparr>)) s)
       else if offset = 0x21c then
         Inr (read_or is_write register_index (enabled_irqs1 (irqs s))
           (\<lambda>v. upd_irqs (\<lambda>d. d\<lparr>enabled_irqs1 := enabled_irqs1 d AND NOT (ucast v)\<rparr>)) s)
       else if offset = 0x220 then
         Inr (read_or is_write register_index (enabled_irqs2 (irqs s))
           (\<lambda>v. upd_irqs (\<lambda>d. d\<lparr>enabled_irqs2 := enabled_irqs2 d AND NOT (ucast v)\<rparr>)) s)
       else if offset = 0x224 then
         Inr (read_or is_write register_index (enabled_basic_irqs (irqs s))
           (\<lambda>v. upd_irqs (\<lambda>d. d\<lparr>enabled_basic_irqs := enabled_basic_irqs d AND NOT (ucast v)\<rparr>)) s)
       else Inl (BRK 331))
      (\<lambda>s. if is_write then update_virtual_irq s else Inr s)"

section \<open>Coprocessors and calls\<close>

definition cp_is_read :: "u32 \<Rightarrow> bool" where "cp_is_read syndrome = bit syndrome 0"
definition cp_CRm :: "u32 \<Rightarrow> u32" where "cp_CRm syndrome = take_bit 4 (drop_bit 1 syndrome)"
definition cp_Rt :: "u32 \<Rightarrow> nat" where "cp_Rt syndrome = unat (take_bit 5 (drop_bit 5 syndrome))"
definition cp_CRn :: "u32 \<Rightarrow> u32" where "cp_CRn syndrome = take_bit 4 (drop_bit 10 syndrome)"
definition cp_Opc1 :: "u32 \<Rightarrow> u32" where "cp_Opc1 syndrome = take_bit 3 (drop_bit 14 syndrome)"
definition cp_Opc2 :: "u32 \<Rightarrow> u32" where "cp_Opc2 syndrome = take_bit 3 (drop_bit 17 syndrome)"

text \<open>The registers of the macro \<^verbatim>\<open>READ_ONLY\<close> with their values, and those of \<^verbatim>\<open>WRITE_ONLY\<close>, which are cache,
  barrier and table operations.\<close>

definition cp15_read_only :: "(u32 \<times> u64) list" where
  "cp15_read_only = [(0x00000, 0x410FD034), (0xa0000, 0x80000f00), (0x20000, 0x84448004), (0x24000, 0x0A200023),
     (0x00002, 0x00000111), (0x20002, 0x00000001), (0x40002, 0x00000002), (0x80002, 0x01100103), (0xa0002, 0x10020302),
     (0xc0002, 0x01222000), (0xe0002, 0x00000000), (0x00004, 0x00100011), (0x20004, 0x12002111), (0x40004, 0x11221011),
     (0x60004, 0x01102131), (0x80004, 0x00000141), (0xa0004, 0x00000000), (0x46400, 0x00000000)]"

definition cp15_write_only :: "u32 list" where
  "cp15_write_only = [0x01c0a, 0x0200e, 0xc1c0a, 0x2200a, 0x2200c, 0x81c14, 0x81c0a, 0x01c0e, 0xa1c14, 0x01c1c, 0x41c14]"

definition read_write :: "u32 \<Rightarrow> u64 \<Rightarrow> (u64 \<Rightarrow> riscos \<Rightarrow> riscos) \<Rightarrow> riscos \<Rightarrow> riscos" where
  "read_write syndrome v write s =
    (if cp_is_read syndrome then set_partner_register (cp_Rt syndrome) v s
     else write (get_partner_register (cp_Rt syndrome) s) s)"

definition fault_register :: "vm_system_register \<Rightarrow> u32 \<Rightarrow> riscos \<Rightarrow> riscos" where
  "fault_register r syndrome s =
    (if cp_is_read syndrome then
       (let (v, s) = get_vm_register r s in set_partner_register (cp_Rt syndrome) v s)
     else set_vm_register r (get_partner_register (cp_Rt syndrome) s) s)"

definition cp15_access :: "u32 \<Rightarrow> riscos \<Rightarrow> riscos result" where
  "cp15_access syndrome s =
    (let code = syndrome AND 0xffc1e in
     case map_of cp15_read_only code of
       Some n \<Rightarrow> if cp_is_read syndrome then Inr (set_partner_register (cp_Rt syndrome) n s) else Inl (BRK 1)
     | None \<Rightarrow>
        if code \<in> set cp15_write_only then (if cp_is_read syndrome then Inl (BRK 1) else Inr s)
        else if code = 0x08000 then Inl (BRK 66)
        else if code = 0x00400 then
          Inr (read_write syndrome (cp_SCTLR (cp15 s))
            (\<lambda>v s. set_vm_register SCTLR_EL1 v (s\<lparr>cp15 := (cp15 s)\<lparr>cp_SCTLR := v\<rparr>\<rparr>)) s)
        else if code = 0x00c00 then
          Inr (read_write syndrome (cp_DACR (cp15 s))
            (\<lambda>v s. set_vm_register DACR32_EL2 v (s\<lparr>cp15 := (cp15 s)\<lparr>cp_DACR := v\<rparr>\<rparr>)) s)
        else if code = 0x40800 then
          Inr (read_write syndrome (cp_TTBCR (cp15 s))
            (\<lambda>v s. set_vm_register TCR_EL1 v (s\<lparr>cp15 := (cp15 s)\<lparr>cp_TTBCR := v\<rparr>\<rparr>)) s)
        else if code = 0x00800 then
          Inr (read_write syndrome (cp_TTBR0 (cp15 s))
            (\<lambda>v s. (set_vm_register TTBR0_EL1 v (s\<lparr>cp15 := (cp15 s)\<lparr>cp_TTBR0 := v\<rparr>\<rparr>))\<lparr>debug_ttbr0 := ucast v\<rparr>) s)
        else if code = 0x20400 then
          Inr (read_write syndrome (cp_ACTLR (cp15 s)) (\<lambda>v s. s\<lparr>cp15 := (cp15 s)\<lparr>cp_ACTLR := v\<rparr>\<rparr>) s)
        else if code = 0x01800 then Inr (fault_register FAR_EL1 syndrome s)
        else if code = 0x01400 then Inr (fault_register ESR_EL1 syndrome s)
        else if code = 0x21c14 then Inr s
        else Inl (BRK 65))"

definition cp14_access :: "u32 \<Rightarrow> riscos \<Rightarrow> riscos result" where
  "cp14_access syndrome s =
    (if cp_Opc1 syndrome \<noteq> 0 then Inl (BRK 485)
     else if cp_CRn syndrome \<noteq> 0 then Inl (BRK 482)
     else if cp_Opc2 syndrome \<noteq> 0 then Inl (BRK 479)
     else if cp_CRm syndrome \<noteq> 0 then Inl (BRK 476)
     else Inr s)"

text \<open>The delay loop of call 15 counts to the next multiple of 0x1000000.\<close>

lemma low_bits_count:
  assumes "c + 1 AND 0xffffff \<noteq> (0 :: u32)"
  shows "2 ^ 24 - unat (c + 1) mod 2 ^ 24 < 2 ^ 24 - unat c mod 2 ^ 24"
proof -
  have low: "(x :: u32) AND 0xffffff = take_bit 24 x" for x by (simp add: take_bit_eq_mask mask_numeral)
  have m: "unat (take_bit 24 x) = unat x mod 2 ^ 24" for x :: u32 by (simp add: take_bit_eq_mod unat_mod)
  have "unat (c + 1) mod 2 ^ 24 = (unat c + 1) mod 2 ^ 24"
    by (simp add: unat_word_ariths(1) mod_mod_cancel One_nat_def)
  moreover have "unat (c + 1) mod 2 ^ 24 \<noteq> 0"
    using assms low m by (metis unat_eq_zero)
  ultimately have "unat (c + 1) mod 2 ^ 24 = unat c mod 2 ^ 24 + 1"
    by (metis One_nat_def Suc_eq_plus1 mod_Suc)
  then show ?thesis by simp
qed

function count_up :: "u32 \<Rightarrow> u32" where
  "count_up c = (let c = c + 1 in if c AND 0xffffff \<noteq> 0 then count_up c else c)"
  by pat_completeness auto
termination
  by (relation "measure (\<lambda>c. 2 ^ 24 - unat c mod 2 ^ 24)") (use low_bits_count in \<open>auto simp del: diff_less_mono2\<close>)

declare count_up.simps [simp del]

definition hvc32 :: "u32 \<Rightarrow> riscos \<Rightarrow> riscos" where
  "hvc32 syndrome s =
    (if syndrome AND 15 = 14 then
       (snd (change_vm_register HCR_EL2 0 (NOT (push_bit 7 1)) s))\<lparr>acks := acks s + 1\<rparr>
     else if syndrome AND 15 = 15 then s\<lparr>aarch64_counter := count_up (aarch64_counter s)\<rparr>
     else s)"

section \<open>The mailbox\<close>

text \<open>The guest's memory is 64 MB; the monitor reads and writes it as 32-bit words.\<close>

definition guest_words :: nat where "guest_words = 0x1000000"

definition word_at :: "nat \<Rightarrow> riscos \<Rightarrow> u32 result" where
  "word_at i s = (if i < guest_words then Inr (guest_memory s i) else Inl FAULT)"

definition put_word :: "nat \<Rightarrow> u32 \<Rightarrow> riscos \<Rightarrow> riscos result" where
  "put_word i v s = (if i < guest_words then Inr (s\<lparr>guest_memory := (guest_memory s)(i := v)\<rparr>) else Inl FAULT)"

definition put_2_words :: "nat \<Rightarrow> u32 \<Rightarrow> u32 \<Rightarrow> riscos \<Rightarrow> riscos result" where
  "put_2_words i v w s = rbind (put_word i v s) (put_word (i + 1) w)"

definition answer_tag :: "u32 \<Rightarrow> nat \<Rightarrow> riscos \<Rightarrow> riscos result" where
  "answer_tag tag p s =
    (if tag = 0x00010001 then put_word (p + 3) 0 s
     else if tag = 0x00010002 then put_word (p + 3) 13 s
     else if tag = 0x00010003 then rbind (put_word (p + 2) 0x80000006 s) (put_2_words (p + 3) 0x2a2a2a2a 0x2a2a)
     else if tag = 0x00010004 then put_2_words (p + 3) 0x2a2a2a2a 0x2a2a2a2a s
     else if tag = 0x00010005 then put_2_words (p + 3) 0 0x4000000 s
     else if tag = 0x00010006 then put_2_words (p + 3) 0 0 s
     else if tag = 0x00060001 then put_word (p + 3) 0x10 s
     else if tag = 0x00040002 then Inr s
     else if tag = 0x00030002 then
       rbind (word_at (p + 3) s) (\<lambda>c.
         if c = 1 then put_word (p + 4) 250000 s
         else if c = 4 then put_word (p + 4) 250000000 s
         else Inl (BRK 584))
     else if tag = 0x00038002 then
       rbind (word_at (p + 3) s) (\<lambda>c. if c = 2 then Inr s else Inl (BRK 593))
     else if tag = 0x0004801f \<or> tag = 0x00048020 then
       rbind (word_at (p + 3) s) (\<lambda>_. put_word (p + 3) 0 s)
     else Inl (BRK 612))"

function tag_loop :: "nat \<Rightarrow> riscos \<Rightarrow> riscos result" where
  "tag_loop p s =
    (if guest_words \<le> p then Inl FAULT
     else if guest_memory s p = 0 then Inr s
     else
       rbind (word_at (p + 1) s) (\<lambda>len.
       rbind (put_word (p + 2) (len OR 0x80000000) s) (\<lambda>s.
       rbind (answer_tag (guest_memory s p) p s) (\<lambda>s.
       rbind (word_at (p + 1) s) (\<lambda>len. tag_loop (p + (3 + unat (len div 4))) s)))))"
  by pat_completeness auto
termination
  by (relation "measure (\<lambda>(p, s). guest_words - p)") auto

declare tag_loop.simps [simp del]

definition respond_to_tag_request :: "nat \<Rightarrow> riscos \<Rightarrow> riscos result" where
  "respond_to_tag_request p s = rbind (put_word (p + 1) 0x80000000 s) (tag_loop (p + 2))"

section \<open>The system timer\<close>

definition timer_passed :: "u32 \<Rightarrow> u32 \<Rightarrow> u32 \<Rightarrow> bool" where
  "timer_passed now ticks match =
    (let wraps = now + ticks < now in
     if wraps then match > now \<or> match < now + ticks
     else match > now \<and> match < now + ticks)"

definition upd_timer :: "(system_timer \<Rightarrow> system_timer) \<Rightarrow> riscos \<Rightarrow> riscos" where
  "upd_timer f s = s\<lparr>timer := f (timer s)\<rparr>"

definition set_compare :: "nat \<Rightarrow> u32 \<Rightarrow> system_timer \<Rightarrow> system_timer" where
  "set_compare n v t = t\<lparr>compare := (compare t)(n := v)\<rparr>"

definition bcm_2835_system_timer_access :: "bool \<Rightarrow> nat \<Rightarrow> u64 \<Rightarrow> riscos \<Rightarrow> riscos result" where
  "bcm_2835_system_timer_access is_write register_index offset s =
    (if offset = 0 then
       (if is_write then Inl HANG
        else Inr (set_partner_register register_index (ucast (control_status (timer s))) s))
     else if offset = 4 then
       (let ticks = counter (timer s);
            s = upd_timer (\<lambda>t. t\<lparr>locked_high := ucast (drop_bit 32 ticks)\<rparr>) s
        in Inr (set_partner_register register_index (ticks AND 0xffffffff) s))
     else if offset = 8 then
       Inr (set_partner_register register_index (ucast (locked_high (timer s))) s)
     else if 0xc \<le> offset \<and> offset \<le> 0x18 then
       (let n = unat (drop_bit 4 offset AND 3) in
        if is_write then
          (let v = ucast (get_partner_register register_index s) :: u32;
               c = counter (timer s);
               v = (if ucast v < c AND 0xffffffff then ucast (c + 2500) else v)
           in Inr (upd_timer (set_compare n v) s))
        else Inr (set_partner_register register_index (ucast (compare (timer s) n)) s))
     else Inl (BRK 675))"

section \<open>The serial controller and the EMMC controller\<close>

text \<open>BSC 1 is the board's device, mapped into the driver: \<^verbatim>\<open>bsc0\<close> is what its registers read as, and the
  stores to it are recorded in order.  The code after line 712 is never reached.\<close>

definition bsc_access :: "nat \<Rightarrow> bool \<Rightarrow> nat \<Rightarrow> u64 \<Rightarrow> riscos \<Rightarrow> riscos result" where
  "bsc_access device is_write register_index offset s =
    (if device \<ge> 3 then Inl (BRK 692)
     else if device = 1 then
       (let i = unat (offset div 4) in
        if is_write
        then Inr (s\<lparr>bsc0_writes := bsc0_writes s @ [(i, ucast (get_partner_register register_index s))]\<rparr>)
        else Inr (set_partner_register register_index (ucast (bsc0 s i)) s))
     else Inl (BRK 711))"

definition emmc_offsets :: "(u64 \<times> emmc_register) list" where
  "emmc_offsets = [(0x0, ARG2), (0x4, BLKSIZECNT), (0x8, ARG1), (0xc, CMDTM), (0x10, RESP0), (0x14, RESP1),
     (0x18, RESP2), (0x1c, RESP3), (0x20, DATA), (0x24, STATUS), (0x28, CONTROL0), (0x2c, CONTROL1),
     (0x30, INTERRUPT), (0x34, IRPT_MASK), (0x38, IRPT_EN), (0x3c, CONTROL2), (0x50, FORCE_IRPT),
     (0x70, BOOT_TIMEOUT), (0x74, DBG_SEL), (0x80, EXRDFIFO_CFG), (0x84, EXRDFIFO_EN), (0x88, TUNE_STEP),
     (0x8c, TUNE_STEPS_STD), (0x90, TUNE_STEPS_DDR), (0xf0, SPI_INT_SPT), (0xfc, SLOTISR_VER)]"

definition set_emmc :: "emmc_register \<Rightarrow> u32 \<Rightarrow> riscos \<Rightarrow> riscos" where
  "set_emmc r v s = s\<lparr>emmc_state := (emmc_state s)(r := v)\<rparr>"

definition emmc_interrupting :: "riscos \<Rightarrow> bool" where
  "emmc_interrupting s \<longleftrightarrow> emmc_state s INTERRUPT AND emmc_state s IRPT_MASK \<noteq> 0"

definition write_emmc :: "emmc_register \<Rightarrow> u32 \<Rightarrow> riscos \<Rightarrow> riscos result" where
  "write_emmc r v s =
    (case r of
       CMDTM \<Rightarrow>
         (let s = set_emmc CMDTM v s; s = set_emmc STATUS (emmc_state s STATUS OR 1) s
          in Inr (s\<lparr>sdcard_woken := True\<rparr>))
     | INTERRUPT \<Rightarrow>
         (let s = set_emmc INTERRUPT (emmc_state s INTERRUPT AND NOT v) s
          in if emmc_interrupting s then Inr s else clear_irq 62 s)
     | IRPT_MASK \<Rightarrow>
         (let s = set_emmc IRPT_MASK v s
          in if emmc_interrupting s then trigger_irq 62 s else Inr s)
     | _ \<Rightarrow> Inr (set_emmc r v s))"

definition bcm_2835_emmc_access :: "bool \<Rightarrow> nat \<Rightarrow> u64 \<Rightarrow> riscos \<Rightarrow> riscos result" where
  "bcm_2835_emmc_access is_write register_index offset s =
    (case map_of emmc_offsets offset of
       None \<Rightarrow> Inl (BRK 1117)
     | Some r \<Rightarrow>
         if is_write then write_emmc r (ucast (get_partner_register register_index s)) s
         else Inr (set_partner_register register_index (ucast (emmc_state s r)) s))"

text \<open>A round of the thread that plays the card: it waits until a command wakes it.\<close>

definition sdcard_round :: "riscos \<Rightarrow> riscos result" where
  "sdcard_round s =
    (if \<not> sdcard_woken s then Inr s
     else
       let s = s\<lparr>sdcard_woken := False\<rparr> in
       if drop_bit 24 (emmc_state s CMDTM) = 7 then
         (let s = set_emmc STATUS (emmc_state s STATUS AND NOT 1) s;
              s = set_emmc INTERRUPT (emmc_state s INTERRUPT OR 1) s
          in if emmc_interrupting s then trigger_irq 62 s else Inr s)
       else Inl (BRK 890))"

section \<open>Traps of the guest\<close>

definition in_page :: "u64 \<Rightarrow> u64 \<Rightarrow> bool" where
  "in_page low a \<longleftrightarrow> 0x20000000 OR low \<le> a \<and> a \<le> (0x20000000 OR low OR 0xfff)"

definition mailbox_write :: "nat \<Rightarrow> bool \<Rightarrow> riscos \<Rightarrow> riscos result" where
  "mailbox_write SRT WnR s =
    (let s = s\<lparr>mailbox_request := ucast (get_partner_register SRT s)\<rparr> in
     if \<not> WnR then Inl (BRK 1207)
     else if mailbox_request s AND 0xf = 8 then
       respond_to_tag_request (unat ((0x3ffffff0 AND mailbox_request s) div 4)) s
     else if mailbox_request s AND 0xf = 0 then Inr s
     else Inl (BRK 1205))"

definition stage2_data_abort :: "u64 \<Rightarrow> u64 \<Rightarrow> u64 \<Rightarrow> riscos \<Rightarrow> riscos result" where
  "stage2_data_abort syndrome fault_address intermediate_physical_address s =
    (let raw = ucast syndrome :: u32;
         WnR = bit raw 6;
         SRT = unat (take_bit 5 (drop_bit 16 raw));
         a = push_bit 8 intermediate_physical_address OR (fault_address AND 0xfff)
     in
     if \<not> bit raw 24 then Inl (BRK 1145)
     else if a = 0x20100020 then (if \<not> WnR then Inr (set_partner_register SRT 0x1000 s) else Inl (BRK 1162))
     else if 0x2000b200 \<le> a \<and> a \<le> 0x2000b2ff then bcm_2835_irq_registers_access WnR SRT (a AND 0xfff) s
     else if a = 0x2000b880 then
       (if \<not> WnR then Inr (set_partner_register SRT (ucast (mailbox_request s)) s) else Inl (BRK 1175))
     else if a = 0x2000b898 then (if \<not> WnR then Inr (set_partner_register SRT 0 s) else Inl (BRK 1183))
     else if a = 0x2000b8a0 then mailbox_write SRT WnR s
     else if a = 0x20200000 then Inr s
     else if in_page 0x205000 a then bsc_access 0 WnR SRT (a AND 0xfff) s
     else if in_page 0x804000 a then bsc_access 1 WnR SRT (a AND 0xfff) s
     else if in_page 0x805000 a then bsc_access 2 WnR SRT (a AND 0xfff) s
     else if in_page 0x003000 a then bcm_2835_system_timer_access WnR SRT (a AND 0xfff) s
     else if in_page 0x300000 a then bcm_2835_emmc_access WnR SRT (a AND 0xfff) s
     else Inl (BRK 1233))"

definition vm_handler :: "u64 \<Rightarrow> u64 \<Rightarrow> u64 \<Rightarrow> u64 \<Rightarrow> riscos \<Rightarrow> (u64 \<times> riscos) result" where
  "vm_handler pc syndrome fault_address intermediate_physical_address s =
    (let ec = unat (drop_bit 26 syndrome); syn = ucast syndrome :: u32 in
     if ec = 0b000001 then
       Inr (pc, if syndrome AND 1 = 0 then s\<lparr>waiting_for_interrupt := True\<rparr> else s\<lparr>waiting_for_event := True\<rparr>)
     else if ec = 0b000011 then rbind (cp15_access syn s) (\<lambda>s. Inr (pc + 4, s))
     else if ec = 0b000100 then Inl (BRK 489)
     else if ec = 0b000101 then rbind (cp14_access syn s) (\<lambda>s. Inr (pc + 4, s))
     else if ec = 0b000110 then Inl (BRK 490)
     else if ec = 0b000111 then Inl (BRK 491)
     else if ec = 0b001000 then Inl (BRK 492)
     else if ec = 0b001001 then Inl (BRK 493)
     else if ec = 0b001100 then Inl (BRK 494)
     else if ec = 0b001110 then Inl (BRK 495)
     else if ec = 0b010010 then Inr (pc, hvc32 syn s)
     else if ec = 0b010011 then Inl (BRK 525)
     else if ec = 0b100100 then
       rbind (stage2_data_abort syndrome fault_address intermediate_physical_address s) (\<lambda>s. Inr (pc + 4, s))
     else if ec < 64 then Inl (BRK ec)
     else Inr (pc, s))"

text \<open>What the ticker thread does to the virtual machine every two seconds, and what the main loop does when the
  guest has stopped in the handler: it waits to be woken if the guest waits.\<close>

definition ticker_round :: "riscos \<Rightarrow> riscos" where
  "ticker_round s = snd (change_vm_register HCR_EL2 (push_bit 7 1) (NOT (push_bit 7 1)) s)"

definition vm_must_wait :: "riscos \<Rightarrow> bool" where
  "vm_must_wait s \<longleftrightarrow> waiting_for_interrupt s \<or> waiting_for_event s"

definition vm_woken :: "riscos \<Rightarrow> riscos" where
  "vm_woken s =
    (if vm_must_wait s then s\<lparr>waiting_for_interrupt := False, waiting_for_event := False\<rparr> else s)"

section \<open>The guest's memory\<close>

definition guest_block :: "u64 \<Rightarrow> nat \<Rightarrow> vmsa_entry" where
  "guest_block vm_memory_base i =
    (let entry = Aarch64_VMSA_block_at (vm_memory_base + push_bit 21 (of_nat i));
         entry = Aarch64_VMSA_write_back_memory entry;
         entry = entry OR push_bit 10 1
     in Aarch64_VMSA_L2_rwx entry)"

definition guest_table :: "u64 \<Rightarrow> vmsa_entry list" where
  "guest_table vm_memory_base =
    (let tt = replicate 512 Aarch64_VMSA_invalid
     in fold (\<lambda>i tt. tt[i := guest_block vm_memory_base i]) [0..<32] tt)"

definition set_up_vm :: "u64 \<Rightarrow> riscos \<Rightarrow> riscos" where
  "set_up_vm el2_tt s =
    fold (\<lambda>(r, v). set_vm_register r v)
      [(HCR_EL2, 0b0001110000000000000011111110110000111011), (VTTBR_EL2, el2_tt),
       (HSTR_EL2, 0b1011111111101111 AND NOT (push_bit 2 1)), (VMPIDR_EL2, 0xc0000000), (VPIDR_EL2, 0x410fc075),
       (SCTLR_EL1, 0xd50070), (VTCR_EL2, 0x800080f22), (DACR32_EL2, NOT 0), (CONTEXTIDR_EL1, NOT 0)] s"

text \<open>The walk of the stage 2 table as the processor is set up: it starts at level 2 and covers one gigabyte, so an
  entry is a block of 2 MB.  The result is the address and whether the guest can read and write there.\<close>

definition stage2_walk :: "vmsa_entry list \<Rightarrow> u64 \<Rightarrow> u64 option" where
  "stage2_walk tt a =
    (if drop_bit 30 a \<noteq> 0 then None
     else let e = tt ! unat (drop_bit 21 a)
          in if entry_kind e = Block_entry \<and> bit e 10 \<and> bit e 6 \<and> bit e 7 then Some (output_address e 21 a) else None)"

section \<open>Facts about the parts\<close>

lemma fold_update_nth:
  "i < length tt \<Longrightarrow> fold (\<lambda>i tt. tt[i := f i]) [0..<n] tt ! i = (if i < n then f i else tt ! i)"
proof (induction n)
  case (Suc n)
  have len: "length (fold (\<lambda>i tt. tt[i := f i]) js tt) = length tt" for js
    by (induction js arbitrary: tt) auto
  show ?case using Suc len by (auto simp: nth_list_update less_Suc_eq)
qed simp

lemma guest_table_nth:
  "i < 512 \<Longrightarrow> guest_table b ! i = (if i < 32 then guest_block b i else Aarch64_VMSA_invalid)"
  by (simp add: guest_table_def Let_def fold_update_nth del: upt_Suc)

lemma bit_1024: "bit (1024 :: u64) n \<longleftrightarrow> n = 10" "bit (1024 :: int) n \<longleftrightarrow> n = 10" "bit (1024 :: nat) n \<longleftrightarrow> n = 10"
  using bit_exp_iff [where 'a = "64 word", of 10 n] bit_exp_iff [where 'a = int, of 10 n] bit_exp_iff [where 'a = nat, of 10 n]
  by auto

lemma ucast_through_u32: "ucast (ucast v :: u32) = take_bit 32 (v :: u64)"
  by (intro bit_eqI) (auto simp: bit_simps)

lemma guest_block_facts:
  "entry_kind (guest_block b i) = Block_entry" "bit (guest_block b i) 10"
  "bit (guest_block b i) 6" "bit (guest_block b i) 7"
  "entry_address (guest_block b i) = entry_address (b + push_bit 21 (of_nat i))"
proof -
  show "entry_address (guest_block b i) = entry_address (b + push_bit 21 (of_nat i))"
  proof (rule bit_eqI)
    fix n
    show "bit (entry_address (guest_block b i)) n \<longleftrightarrow> bit (entry_address (b + push_bit 21 (of_nat i))) n"
      by (auto simp: bit_entry_address guest_block_def Let_def vmsa_attributes vmsa_constructors vmsa_setters
          bit_set_field bit_simps bit_1024)
  qed
qed (simp_all add: guest_block_def Let_def vmsa_attributes vmsa_constructors vmsa_setters mmu_reads entry_kind_def
      bit_set_field bit_simps)

lemma guest_address:
  assumes "take_bit 21 b = 0" and "unat b + 2 ^ 30 \<le> 2 ^ 48" and "drop_bit 30 a = 0"
  shows "output_address (guest_block b (unat (drop_bit 21 a))) 21 a = b + a"
proof -
  have "unat a < 2 ^ 30" using assms(3) by (simp add: drop_bit_eq_div unat_div word_unat_eq_iff div_eq_0_iff)
  moreover have "push_bit 21 (of_nat (unat (drop_bit 21 a))) = a AND NOT (mask 21)"
    by (intro bit_eqI) (auto simp: bit_simps)
  ultimately show ?thesis
    using block_output_address [of 21 b 0 a "guest_block b (unat (drop_bit 21 a))"] assms guest_block_facts(5)
    by simp
qed

lemma set_vm_registers:
  "vm_sysregs (set_vm_register r v s) = (vm_sysregs s)(r := ucast (ucast v :: u32))"
  by (auto simp: set_vm_register_def change_vm_register_def Let_def)

lemma emmc_offset_cases:
  assumes "map_of emmc_offsets off = Some r"
  shows "off \<in> set (map fst emmc_offsets)"
  using map_of_SomeD [OF assms] by force

text \<open>A trap on an EMMC register reaches the controller with the register of the access.\<close>

definition trap_register :: "u64 \<Rightarrow> nat" where
  "trap_register syndrome = unat (take_bit 5 (drop_bit 16 (ucast syndrome :: u32)))"

lemma emmc_address:
  assumes "map_of emmc_offsets off = Some r" and "a = 0x20300000 + off"
  shows "a \<noteq> 0x20100020" "\<not> (0x2000b200 \<le> a \<and> a \<le> 0x2000b2ff)" "a \<noteq> 0x2000b880" "a \<noteq> 0x2000b898" "a \<noteq> 0x2000b8a0"
    "a \<noteq> 0x20200000" "\<not> in_page 0x205000 a" "\<not> in_page 0x804000 a" "\<not> in_page 0x805000 a" "\<not> in_page 0x003000 a"
    "in_page 0x300000 a" "a AND 0xfff = off"
  using emmc_offset_cases [OF assms(1)] assms(2) by (auto simp: emmc_offsets_def in_page_def)

lemma emmc_trap:
  assumes "drop_bit 26 syndrome = 0x24" and "bit syndrome 24"
    and off: "map_of emmc_offsets off = Some r" and a: "push_bit 8 ipa OR (fa AND 0xfff) = 0x20300000 + off"
  shows "vm_handler pc syndrome fa ipa s =
    rbind (bcm_2835_emmc_access (bit syndrome 6) (trap_register syndrome) off s) (\<lambda>s. Inr (pc + 4, s))"
proof -
  note e = emmc_address [OF off refl]
  have "stage2_data_abort syndrome fa ipa s = bcm_2835_emmc_access (bit syndrome 6) (trap_register syndrome) off s"
    using assms(2) unfolding stage2_data_abort_def Let_def a trap_register_def
    by (simp only: e if_False if_True not_True_eq_False bit_simps) (simp add: bit_simps)
  then show ?thesis using assms(1) by (simp add: vm_handler_def Let_def)
qed

text \<open>The enable bit of an interrupt.\<close>

definition irq_enabled :: "nat \<Rightarrow> irq_details \<Rightarrow> bool" where
  "irq_enabled n d =
    (if n < 32 then bit (enabled_irqs1 d) n
     else if n < 64 then bit (enabled_irqs2 d) (n - 32)
     else bit (enabled_basic_irqs d) (n - 64))"

lemma or_and_bit:
  fixes p e :: u32
  assumes "p AND e = 0" and "n < 32"
  shows "(p OR push_bit n 1) AND e = 0 \<longleftrightarrow> \<not> bit e n" "(p OR 2 ^ n) AND e = 0 \<longleftrightarrow> \<not> bit e n"
proof -
  have "(p OR push_bit n 1) AND e = (p AND e) OR (push_bit n 1 AND e)" by (rule bit.conj_disj_distrib2)
  moreover have "push_bit n 1 AND e = 0 \<longleftrightarrow> \<not> bit e n"
    using and_exp_eq_0_iff_not_bit [of e n] by (simp add: and.commute push_bit_eq_mult)
  ultimately show a: "(p OR push_bit n 1) AND e = 0 \<longleftrightarrow> \<not> bit e n" using assms(1) by simp
  then show "(p OR 2 ^ n) AND e = 0 \<longleftrightarrow> \<not> bit e n" by simp
qed

lemma plain_emmc_write:
  assumes "r \<notin> {CMDTM, INTERRUPT, IRPT_MASK}"
  shows "write_emmc r v s = Inr (set_emmc r v s)"
  using assms by (cases r) (simp_all add: write_emmc_def)

lemma circle_order:
  fixes n t m :: int
  assumes "0 \<le> n" "n < 2 ^ 32" "0 \<le> t" "t < 2 ^ 32" "0 \<le> m" "m < 2 ^ 32"
  defines "e \<equiv> if n + t < 2 ^ 32 then n + t else n + t - 2 ^ 32"
  defines "d \<equiv> if n \<le> m then m - n else m - n + 2 ^ 32"
  shows "(if e < n then n < m \<or> m < e else n < m \<and> m < e) \<longleftrightarrow> 0 < d \<and> d < t"
  using assms by auto

section \<open>Properties\<close>

text \<open>The registers of the emulated EMMC controller are registers: after the guest's store
  to one of them that starts no command, a load from the same address gives the low 32 bits of the value stored,
  whatever the two program counters and the two registers of the guest are; the store changes no other
  register of the controller and no interrupt, and both instructions are stepped over.\<close>

theorem emmc_registers_store:
  assumes "drop_bit 26 st = 0x24" and "bit st 24" and "bit st 6"
    and "drop_bit 26 ld = 0x24" and "bit ld 24" and "\<not> bit ld 6"
    and "map_of emmc_offsets off = Some r" and "r \<notin> {CMDTM, INTERRUPT, IRPT_MASK}"
    and "push_bit 8 ipa OR (fa AND 0xfff) = 0x20300000 + off"
  shows "\<exists>s1 s2. vm_handler pc1 st fa ipa s = Inr (pc1 + 4, s1)
     \<and> emmc_state s1 = (emmc_state s)(r := ucast (partner_regs s (trap_register st)))
     \<and> irqs s1 = irqs s \<and> irq_active s1 = irq_active s \<and> partner_regs s1 = partner_regs s
     \<and> vm_handler pc2 ld fa ipa s1 = Inr (pc2 + 4, s2)
     \<and> partner_regs s2 = (partner_regs s)(trap_register ld := take_bit 32 (partner_regs s (trap_register st)))
     \<and> emmc_state s2 = emmc_state s1"
proof -
  note traps = emmc_trap [OF assms(1,2,7,9)] emmc_trap [OF assms(4,5,7,9)]
  show ?thesis
    using assms(3,6,7) plain_emmc_write [OF assms(8)]
    by (simp add: traps bcm_2835_emmc_access_def set_emmc_def get_partner_register_def set_partner_register_def
        ucast_through_u32)
qed

theorem emmc_registers_store_witness:
  "\<exists>s1 s2. vm_handler 0x8000 0x93810040 0 0x203000 (set_partner_register 1 0x123456789 riscos_start) = Inr (0x8004, s1)
     \<and> vm_handler 0x8004 0x93820000 0 0x203000 s1 = Inr (0x8008, s2) \<and> partner_regs s2 2 = 0x23456789"
  using emmc_registers_store [of "0x93810040" "0x93820000" 0 ARG2 "0x203000" 0 "0x8000"
      "set_partner_register 1 0x123456789 riscos_start" "0x8004"]
  by (auto simp: emmc_offsets_def trap_register_def set_partner_register_def riscos_start_def)

text \<open>The test whether a timer has passed its match value is right across the wrap of the
  counter: it holds exactly when the match lies strictly between now and the number of ticks from now, counted
  on the circle of 32-bit values.\<close>

theorem timer_passed_is_modular:
  "timer_passed now ticks match \<longleftrightarrow> 0 < match - now \<and> match - now < ticks"
proof -
  let ?n = "uint now" and ?t = "uint ticks" and ?m = "uint match"
  have r: "0 \<le> ?n" "?n < 2 ^ 32" "0 \<le> ?t" "?t < 2 ^ 32" "0 \<le> ?m" "?m < 2 ^ 32"
    using uint_lt2p [of now] uint_lt2p [of ticks] uint_lt2p [of match] by simp_all
  have e: "uint (now + ticks) = (if ?n + ?t < 2 ^ 32 then ?n + ?t else ?n + ?t - 2 ^ 32)"
    using r by (auto simp: uint_plus_if')
  have d: "uint (match - now) = (if ?n \<le> ?m then ?m - ?n else ?m - ?n + 2 ^ 32)"
    using r by (simp add: uint_sub_if')
  show ?thesis
    using circle_order [OF r] unfolding timer_passed_def Let_def word_less_def uint_0_eq e d .
qed

text \<open>The guest cannot be interrupted by an emulated device: when a device raises an
  interrupt that the guest has enabled and none is active, the driver executes a system call the
  kernel does not have, which stops the machine; an interrupt that is not enabled is only recorded.\<close>

theorem enabled_interrupt_stops:
  assumes "n < 72" and "\<not> irq_now (irqs s)" and "\<not> irq_active s"
  shows "(irq_enabled n (irqs s) \<longrightarrow> trigger_irq n s = Inl (BSOD 656))
     \<and> (\<not> irq_enabled n (irqs s) \<longrightarrow> (\<exists>s'. trigger_irq n s = Inr s' \<and> \<not> irq_active s' \<and> \<not> irq_now (irqs s')
          \<and> partner_regs s' = partner_regs s \<and> vm_sysregs s' = vm_sysregs s))"
  using assms
  by (auto simp: trigger_irq_def update_virtual_irq_def irq_now_def irq_enabled_def upd_irqs_def or_and_bit)

theorem enabled_interrupt_stops_witness:
  "trigger_irq 62 (upd_irqs (\<lambda>d. d\<lparr>enabled_irqs2 := 0x40000000\<rparr>) riscos_start) = Inl (BSOD 656)"
  using enabled_interrupt_stops [of 62 "upd_irqs (\<lambda>d. d\<lparr>enabled_irqs2 := 0x40000000\<rparr>) riscos_start"]
  by (simp add: irq_enabled_def upd_irqs_def riscos_start_def irq_now_def)

text \<open>C24. The guest reaches its own memory and no other: with the table the driver builds for it, a
  guest physical address below 64 MB is that offset of the block of memory the driver allocated, and every
  other address is trapped; the registers of the virtual machine name the table.\<close>

theorem guest_memory_is_contained:
  assumes "take_bit 21 vm_memory_base = 0" and "unat vm_memory_base + 2 ^ 30 \<le> 2 ^ 48" and "drop_bit 32 el2_tt = 0"
  shows "(\<forall>a. stage2_walk (guest_table vm_memory_base) a = (if a < 0x4000000 then Some (vm_memory_base + a) else None))
     \<and> vm_sysregs (set_up_vm el2_tt s) VTTBR_EL2 = el2_tt \<and> bit (vm_sysregs (set_up_vm el2_tt s) HCR_EL2) 0"
proof (intro conjI allI)
  fix a
  show "stage2_walk (guest_table vm_memory_base) a = (if a < 0x4000000 then Some (vm_memory_base + a) else None)"
  proof (cases "drop_bit 30 a = 0")
    case True
    then have "unat a < 2 ^ 30" by (simp add: drop_bit_eq_div unat_div word_unat_eq_iff div_eq_0_iff)
    then have "unat (drop_bit 21 a) < 512" "unat (drop_bit 21 a) < 32 \<longleftrightarrow> a < 0x4000000"
      by (simp_all add: drop_bit_eq_div unat_div word_less_nat_alt div_less_iff_less_mult)
    moreover have "entry_kind Aarch64_VMSA_invalid = Invalid_entry"
      by (simp add: Aarch64_VMSA_invalid_def entry_kind_def)
    ultimately show ?thesis
      using True guest_address [OF assms(1,2)]
      by (simp add: stage2_walk_def guest_table_nth guest_block_facts Let_def)
  next
    case False
    then have "\<not> a < 0x4000000"
      by (auto simp: drop_bit_eq_div unat_div word_unat_eq_iff word_less_nat_alt)
    with False show ?thesis by (simp add: stage2_walk_def)
  qed
next
  have "take_bit 32 el2_tt = el2_tt" using bits_ident [of 32 el2_tt] assms(3) by simp
  then show "vm_sysregs (set_up_vm el2_tt s) VTTBR_EL2 = el2_tt"
    by (simp add: set_up_vm_def set_vm_registers ucast_through_u32)
  show "bit (vm_sysregs (set_up_vm el2_tt s) HCR_EL2) 0"
    by (simp add: set_up_vm_def set_vm_registers)
qed

theorem guest_memory_is_contained_witness:
  "stage2_walk (guest_table 0x8000000) 0x1234 = Some 0x8001234 \<and> stage2_walk (guest_table 0x8000000) 0x20300000 = None
     \<and> vm_sysregs (set_up_vm 0x7fff000 riscos_start) VTTBR_EL2 = 0x7fff000"
proof -
  have "take_bit 21 (0x8000000 :: u64) = 0" "drop_bit 32 (0x7fff000 :: u64) = 0" by simp_all
  from guest_memory_is_contained [OF this(1) _ this(2), of riscos_start] show ?thesis by simp
qed

end
