(* ===== verification/World_Switch.thy ===== *)
theory World_Switch
  imports Client
begin

text \<open>
  The assembler around the kernel: saving and loading the registers of threads at secure EL1
  (\<^verbatim>\<open>include/aarch64_c_vector_table.h\<close>) and the switch between the secure and the non-secure state at EL2 and EL3
  (\<^verbatim>\<open>el3_virtual_machines.c\<close>).

  The machine is the general registers, the exception registers of the three levels, the system registers a
  virtual machine has of its own, and the kernel's state.  System registers are numbered as the members
  of \<^verbatim>\<open>vm_state\<close>; the fourth of them, \<^verbatim>\<open>ttbr0_el1\<close>, is a component of the kernel's state.  The low and the high
  address of a thread context name the same memory.  A call of a C function leaves unspecified values in the registers
  it need not preserve; they are a parameter.
\<close>

section \<open>The machine\<close>

record machine =
  xr :: "nat \<Rightarrow> u64"
  m_pc :: u64
  m_pstate :: u64
  elr_el1 :: u64
  spsr_el1 :: u64
  elr_el2 :: u64
  spsr_el2 :: u64
  esr_el2 :: u64
  far_el2 :: u64
  hpfar_el2 :: u64
  elr_el3 :: u64
  spsr_el3 :: u64
  scr_el3 :: u64
  system_registers :: "nat \<Rightarrow> u64"
  secure_registers :: "nat \<Rightarrow> u64"
  kern :: kernel

definition get_system_register :: "nat \<Rightarrow> machine \<Rightarrow> u64" where
  "get_system_register i m = (if i = 3 then ttbr0_el1 (kern m) else system_registers m i)"

definition set_system_register :: "nat \<Rightarrow> u64 \<Rightarrow> machine \<Rightarrow> machine" where
  "set_system_register i v m =
    (if i = 3 then m\<lparr>kern := (kern m)\<lparr>ttbr0_el1 := v\<rparr>\<rparr>
     else m\<lparr>system_registers := (system_registers m)(i := v)\<rparr>)"

definition upd_kern :: "(kernel \<Rightarrow> kernel) \<Rightarrow> machine \<Rightarrow> machine" where
  "upd_kern f m = m\<lparr>kern := f (kern m)\<rparr>"

section \<open>The switch of the security state\<close>

definition SAVE_SYSTEM_REGISTER_PAIR :: "u64 \<Rightarrow> nat \<Rightarrow> machine \<Rightarrow> machine" where
  "SAVE_SYSTEM_REGISTER_PAIR t n m =
    upd_kern (\<lambda>k. k\<lparr>sysregs := (sysregs k)(t := (sysregs k t)
      (n := get_system_register n m, n + 1 := get_system_register (n + 1) m))\<rparr>) m"

definition SAVE_VM_SYSTEM_REGS :: "machine \<Rightarrow> machine" where
  "SAVE_VM_SYSTEM_REGS m = fold (SAVE_SYSTEM_REGISTER_PAIR (runnable (kern m))) [0, 2, 4, 6, 8, 10, 12, 14, 16] m"

definition LOAD_SYSTEM_REGISTER_PAIR :: "(nat \<Rightarrow> u64) \<Rightarrow> nat \<Rightarrow> machine \<Rightarrow> machine" where
  "LOAD_SYSTEM_REGISTER_PAIR s n m = set_system_register (n + 1) (s (n + 1)) (set_system_register n (s n) m)"

definition LOAD_VM_SYSTEM_REGS :: "u64 \<Rightarrow> machine \<Rightarrow> machine" where
  "LOAD_VM_SYSTEM_REGS t m =
    fold (LOAD_SYSTEM_REGISTER_PAIR (sysregs (kern m) t)) [0, 2, 4, 6, 8, 10, 12, 14, 16] m"

definition LOAD_SECURE_EL1_REGS :: "machine \<Rightarrow> machine" where
  "LOAD_SECURE_EL1_REGS m =
    (let m = LOAD_SYSTEM_REGISTER_PAIR (secure_registers m) 0 m;
         m = set_system_register 2 (secure_registers m 2) m;
         m = set_system_register 3 (tt_l1_address (kern m)) m
     in LOAD_SYSTEM_REGISTER_PAIR (secure_registers m) 4 m)"

definition restore_secure_system_regs :: "machine \<Rightarrow> machine" where
  "restore_secure_system_regs m = LOAD_SECURE_EL1_REGS (SAVE_VM_SYSTEM_REGS m)"

text \<open>The toggle of the bits FIQ, IRQ, NS and HCE.\<close>

definition toggle_security :: "machine \<Rightarrow> machine" where
  "toggle_security m = m\<lparr>scr_el3 := scr_el3 m XOR 0x007 XOR 0x100\<rparr>"

definition eret_el3 :: "machine \<Rightarrow> machine" where
  "eret_el3 m = m\<lparr>m_pc := elr_el3 m, m_pstate := spsr_el3 m\<rparr>"

definition resume_ns_thread :: "u64 \<Rightarrow> machine \<Rightarrow> machine" where
  "resume_ns_thread t m = eret_el3 (m\<lparr>xr := (\<lambda>i. if i \<le> 30 then regs (threads (kern m) t) i else xr m i)\<rparr>)"

definition switch_to_secure :: "machine \<Rightarrow> machine result" where
  "switch_to_secure m =
    (let m = restore_secure_system_regs m;
         m = m\<lparr>elr_el1 := elr_el2 m\<rparr>
     in if \<not> bit (spsr_el2 m) 4 then Inl HANG
        else
          (let m = m\<lparr>spsr_el1 := spsr_el2 m\<rparr>;
               m = set_system_register 8 (0x56000000 OR ucast ISAMBARD_SWITCH_TO_PARTNER) m;
               m = m\<lparr>elr_el3 := get_system_register 5 m + 0x400\<rparr>;
               m = m\<lparr>spsr_el3 := 0x3c5\<rparr>
           in Inr (eret_el3 m)))"

definition in_el3 :: "machine \<Rightarrow> machine result" where
  "in_el3 m =
    (let m = toggle_security m in
     if \<not> bit (scr_el3 m) 0 then switch_to_secure m
     else
       (let t = runnable (kern m);
            m = LOAD_VM_SYSTEM_REGS t m;
            m = m\<lparr>elr_el3 := t_pc (threads (kern m) t)\<rparr>;
            m = m\<lparr>spsr_el3 := ucast (spsr (threads (kern m) t))\<rparr>
        in if spsr_el3 m AND 15 = 0xd then Inl HANG
           else Inr (resume_ns_thread t m)))"

text \<open>The vector for synchronous exceptions, entered at EL2 by the guest: the details go to the registers of the
  secure partner, and a secure monitor call enters the same vector at EL3.\<close>

definition LOWER_SYNC_at_EL2 :: "machine \<Rightarrow> machine result" where
  "LOWER_SYNC_at_EL2 m =
    (let p = partner (threads (kern m) (runnable (kern m)));
         m = upd_kern (set_reg p 1 (esr_el2 m)) (upd_kern (set_reg p 0 (elr_el2 m)) m);
         m = upd_kern (set_reg p 3 (hpfar_el2 m)) (upd_kern (set_reg p 2 (far_el2 m)) m)
     in in_el3 m)"

definition REDIRECT_INTERRUPT_TO_SECURE_EL1 :: "u64 \<Rightarrow> machine \<Rightarrow> machine" where
  "REDIRECT_INTERRUPT_TO_SECURE_EL1 vector m =
    (let m = restore_secure_system_regs m;
         m = m\<lparr>elr_el1 := elr_el3 m\<rparr>;
         m = m\<lparr>spsr_el1 := spsr_el3 m\<rparr>;
         m = m\<lparr>elr_el3 := get_system_register 5 m + vector\<rparr>;
         m = toggle_security m;
         m = m\<lparr>spsr_el3 := 0x3c5\<rparr>
     in eret_el3 m)"

section \<open>Entering and leaving the kernel\<close>

definition eret_el1 :: "machine \<Rightarrow> machine" where
  "eret_el1 m = m\<lparr>m_pc := elr_el1 m, m_pstate := spsr_el1 m\<rparr>"

text \<open>Both routines store the thread at the top of the exception stack, which is \<^verbatim>\<open>core->runnable\<close>.\<close>

definition el1_enter_thread :: "u64 \<Rightarrow> machine \<Rightarrow> machine result" where
  "el1_enter_thread now m =
    (let c = threads (kern m) now in
     if vm_mode (spsr c) then
       (if partner c = 0 then Inl (SMC 3)
        else if runnable (kern m) \<noteq> now then Inl (SMC 0x99)
        else if now = 0xfffffffffe1feb80 then Inl (SMC 0x98)
        else in_el3 m)
     else
       (let m = m\<lparr>elr_el1 := t_pc c, spsr_el1 := ucast (spsr c)\<rparr>;
            m = upd_kern (\<lambda>k. k\<lparr>sp_el0 := t_sp c\<rparr>) m;
            m = upd_kern (\<lambda>k. k\<lparr>runnable := now\<rparr>) m;
            m = m\<lparr>xr := (\<lambda>i. if i \<le> 30 then regs c i else xr m i)\<rparr>
        in Inr (eret_el1 m)))"

definition el1_resume_thread :: "u64 \<Rightarrow> machine \<Rightarrow> machine" where
  "el1_resume_thread thread m =
    (let c = threads (kern m) thread;
         m = m\<lparr>elr_el1 := t_pc c, spsr_el1 := ucast (spsr c)\<rparr>;
         m = upd_kern (\<lambda>k. k\<lparr>runnable := thread\<rparr>) m;
         m = m\<lparr>xr := (\<lambda>i. if i \<le> 17 then regs c i else xr m i)\<rparr>
     in eret_el1 m)"

text \<open>What is saved before the C function runs.  The place of register 19 holds the link register.\<close>

definition save_for_c :: "machine \<Rightarrow> machine" where
  "save_for_c m =
    upd_kern (upd_thread (runnable (kern m)) (\<lambda>c.
      c\<lparr>regs := (\<lambda>i. if i \<le> 18 then xr m i else if i = 19 then xr m 30 else regs c i),
        t_pc := elr_el1 m, spsr := ucast (spsr_el1 m)\<rparr>)) m"

text \<open>What is saved of a thread that another one replaces.\<close>

definition save_rest :: "u64 \<Rightarrow> machine \<Rightarrow> machine" where
  "save_rest thread m =
    upd_kern (\<lambda>k. upd_thread thread (\<lambda>c.
      c\<lparr>regs := (\<lambda>i. if 18 \<le> i \<and> i \<le> 30 then xr m i else regs c i), t_sp := sp_el0 k\<rparr>) k) m"

definition C_HANDLER ::
    "(u64 \<Rightarrow> kernel \<Rightarrow> (thread_switch \<times> kernel) result) \<Rightarrow> (nat \<Rightarrow> u64) \<Rightarrow> machine \<Rightarrow> machine result" where
  "C_HANDLER event clobbered m =
    (let thread = runnable (kern m);
         m = save_for_c m
     in rbind (event thread (kern m)) (\<lambda>(sw, k).
       let m = m\<lparr>kern := k, xr := (\<lambda>i. if i \<le> 18 \<or> i = 30 then clobbered i else xr m i)\<rparr>;
           c = threads k (sw_then sw);
           m = m\<lparr>xr := (xr m)(18 := regs c 18, 30 := regs c 19)\<rparr>
       in if sw_now sw = sw_then sw then Inr (el1_resume_thread (sw_now sw) m)
          else el1_enter_thread (sw_now sw) (save_rest (sw_then sw) m)))"

text \<open>The processor takes an exception to EL1, or from the guest to EL2 or EL3.\<close>

definition exception_to_el1 :: "machine \<Rightarrow> machine" where
  "exception_to_el1 m = m\<lparr>elr_el1 := m_pc m, spsr_el1 := m_pstate m\<rparr>"

definition trap_to_el2 :: "u64 \<Rightarrow> u64 \<Rightarrow> u64 \<Rightarrow> machine \<Rightarrow> machine" where
  "trap_to_el2 esr far hpfar m =
    m\<lparr>elr_el2 := m_pc m, spsr_el2 := m_pstate m, esr_el2 := esr, far_el2 := far, hpfar_el2 := hpfar\<rparr>"

definition exception_to_el3 :: "machine \<Rightarrow> machine" where
  "exception_to_el3 m = m\<lparr>elr_el3 := m_pc m, spsr_el3 := m_pstate m\<rparr>"

definition kernel_sync :: "(nat \<Rightarrow> u64) \<Rightarrow> machine \<Rightarrow> machine result" where
  "kernel_sync clobbered m =
    C_HANDLER (SEL1_LOWER_AARCH64_SYNC_CODE (ucast (get_system_register 8 m)) (get_system_register 9 m)) clobbered m"

definition kernel_irq :: "(nat \<Rightarrow> u64) \<Rightarrow> machine \<Rightarrow> machine result" where
  "kernel_irq clobbered m = C_HANDLER SEL1_LOWER_AARCH64_IRQ_CODE clobbered m"

section \<open>System registers\<close>

lemma eighteen_registers:
  "i < (18 :: nat) \<Longrightarrow> P 0 \<Longrightarrow> P 1 \<Longrightarrow> P 2 \<Longrightarrow> P 3 \<Longrightarrow> P 4 \<Longrightarrow> P 5 \<Longrightarrow> P 6 \<Longrightarrow> P 7 \<Longrightarrow> P 8 \<Longrightarrow> P 9 \<Longrightarrow> P 10 \<Longrightarrow> P 11
     \<Longrightarrow> P 12 \<Longrightarrow> P 13 \<Longrightarrow> P 14 \<Longrightarrow> P 15 \<Longrightarrow> P 16 \<Longrightarrow> P 17 \<Longrightarrow> P i"
  by (simp add: numeral_eq_Suc less_Suc_eq One_nat_def) (elim disjE; simp)

definition vm_state_of :: "machine \<Rightarrow> nat \<Rightarrow> u64" where
  "vm_state_of m i = (if i < 18 then get_system_register i m else sysregs (kern m) (runnable (kern m)) i)"

lemma save_vm_registers:
  "SAVE_VM_SYSTEM_REGS m =
    upd_kern (\<lambda>k. k\<lparr>sysregs := (sysregs k)(runnable k := vm_state_of m)\<rparr>) m"
proof -
  let ?t = "runnable (kern m)"
  let ?s = "(sysregs (kern m) ?t)(0 := get_system_register 0 m, 1 := get_system_register 1 m, 2 := get_system_register 2 m,
    3 := get_system_register 3 m, 4 := get_system_register 4 m, 5 := get_system_register 5 m, 6 := get_system_register 6 m,
    7 := get_system_register 7 m, 8 := get_system_register 8 m, 9 := get_system_register 9 m, 10 := get_system_register 10 m,
    11 := get_system_register 11 m, 12 := get_system_register 12 m, 13 := get_system_register 13 m, 14 := get_system_register 14 m,
    15 := get_system_register 15 m, 16 := get_system_register 16 m, 17 := get_system_register 17 m)"
  have "?s i = vm_state_of m i" for i
  proof (cases "i < 18")
    case True
    then show ?thesis by (rule eighteen_registers) (simp_all add: vm_state_of_def)
  next
    case False
    then show ?thesis by (auto simp: vm_state_of_def)
  qed
  then have "?s = vm_state_of m" by blast
  then show ?thesis
    by (simp add: SAVE_VM_SYSTEM_REGS_def SAVE_SYSTEM_REGISTER_PAIR_def upd_kern_def get_system_register_def)
qed

lemma load_vm_registers:
  "kern (LOAD_VM_SYSTEM_REGS t m) = (kern m)\<lparr>ttbr0_el1 := sysregs (kern m) t 3\<rparr>"
  "i < 18 \<Longrightarrow> get_system_register i (LOAD_VM_SYSTEM_REGS t m) = sysregs (kern m) t i"
proof -
  show "kern (LOAD_VM_SYSTEM_REGS t m) = (kern m)\<lparr>ttbr0_el1 := sysregs (kern m) t 3\<rparr>"
    by (simp add: LOAD_VM_SYSTEM_REGS_def LOAD_SYSTEM_REGISTER_PAIR_def set_system_register_def)
  show "get_system_register i (LOAD_VM_SYSTEM_REGS t m) = sysregs (kern m) t i" if "i < 18"
    using that
    by (rule eighteen_registers)
      (simp_all add: LOAD_VM_SYSTEM_REGS_def LOAD_SYSTEM_REGISTER_PAIR_def set_system_register_def get_system_register_def)
qed

lemma load_secure_registers:
  "kern (LOAD_SECURE_EL1_REGS m) = (kern m)\<lparr>ttbr0_el1 := tt_l1_address (kern m)\<rparr>"
  "system_registers (LOAD_SECURE_EL1_REGS m) = (\<lambda>i. if i \<in> {0, 1, 2, 4, 5} then secure_registers m i else system_registers m i)"
  by (auto simp: LOAD_SECURE_EL1_REGS_def LOAD_SYSTEM_REGISTER_PAIR_def set_system_register_def Let_def fun_eq_iff)

lemma set_system_register_frame [simp]:
  "xr (set_system_register i v m) = xr m" "m_pc (set_system_register i v m) = m_pc m"
  "m_pstate (set_system_register i v m) = m_pstate m" "elr_el1 (set_system_register i v m) = elr_el1 m"
  "spsr_el1 (set_system_register i v m) = spsr_el1 m" "elr_el2 (set_system_register i v m) = elr_el2 m"
  "spsr_el2 (set_system_register i v m) = spsr_el2 m" "elr_el3 (set_system_register i v m) = elr_el3 m"
  "spsr_el3 (set_system_register i v m) = spsr_el3 m" "scr_el3 (set_system_register i v m) = scr_el3 m"
  "secure_registers (set_system_register i v m) = secure_registers m"
  by (simp_all add: set_system_register_def)

lemma register_moves_frame [simp]:
  "xr (LOAD_VM_SYSTEM_REGS t m) = xr m" "scr_el3 (LOAD_VM_SYSTEM_REGS t m) = scr_el3 m"
  "elr_el1 (LOAD_VM_SYSTEM_REGS t m) = elr_el1 m" "spsr_el1 (LOAD_VM_SYSTEM_REGS t m) = spsr_el1 m"
  "secure_registers (LOAD_VM_SYSTEM_REGS t m) = secure_registers m"
  "xr (LOAD_SECURE_EL1_REGS m) = xr m" "scr_el3 (LOAD_SECURE_EL1_REGS m) = scr_el3 m"
  "elr_el2 (LOAD_SECURE_EL1_REGS m) = elr_el2 m" "spsr_el2 (LOAD_SECURE_EL1_REGS m) = spsr_el2 m"
  "elr_el3 (LOAD_SECURE_EL1_REGS m) = elr_el3 m" "spsr_el3 (LOAD_SECURE_EL1_REGS m) = spsr_el3 m"
  "secure_registers (LOAD_SECURE_EL1_REGS m) = secure_registers m"
  by (simp_all add: LOAD_VM_SYSTEM_REGS_def LOAD_SECURE_EL1_REGS_def LOAD_SYSTEM_REGISTER_PAIR_def Let_def)

section \<open>What the handlers leave alone\<close>

lemma insert_head_payload:
  assumes "insert_thread_as_head Runnable_list t k = Inr k'"
  shows "payload (threads k' z) = payload (threads k z)" "sp_el0 k' = sp_el0 k" "sysregs k' = sysregs k"
  using assms
  by (auto simp: insert_thread_as_head_def insert_thread_at_tail_def assign_list_def Let_def link_setters
      insert_new_thread_before_old_def elim!: rbind_InrE split: if_splits list_ref.splits)

lemma change_map_sysregs:
  assumes "change_map t i k = Inr k'"
  shows "sysregs k' = sysregs k"
proof -
  obtain k1 where k1: "same_but_tables k k1" "k' = set_current_map t i k1" by (rule change_map_frame [OF assms])
  from same_but_tablesE [OF k1(1)] obtain a b c n w where
    "k1 = k\<lparr>core_tt_l1 := a, core_tt_l2 := b, core_tt_l3 := c, loaded_map := n, ttbr0_el1 := w\<rparr>" .
  with k1(2) show ?thesis by (simp add: set_current_map_def)
qed

lemma irq_handler_frame:
  assumes "SEL1_LOWER_AARCH64_IRQ_CODE th k = Inr (sw, k')"
  shows "sw = \<lparr>sw_then = th, sw_now = interrupt_thread k\<rparr>" "sp_el0 k' = sp_el0 k"
    "regs (threads k' z) = regs (threads k z)" "t_pc (threads k' z) = t_pc (threads k z)"
    "spsr (threads k' z) = spsr (threads k z)" "t_sp (threads k' z) = t_sp (threads k z)"
    "partner (threads k' z) = partner (threads k z)" "sysregs k' = sysregs k"
proof -
  let ?i = "interrupt_thread k"
  obtain k1 where k1: "insert_thread_as_head Runnable_list ?i k = Inr k1"
    and k2: "(if current_map (threads k1 ?i) \<noteq> current_map (threads k1 th)
       then change_map ?i (current_map (threads k1 ?i)) k1 else Inr k1) = Inr k'"
    and sw: "sw = \<lparr>sw_then = th, sw_now = ?i\<rparr>"
    using assms by (auto simp: SEL1_LOWER_AARCH64_IRQ_CODE_def Let_def elim!: rbind_InrE split: if_splits)
  note p = payload_fields [OF insert_head_payload(1) [OF k1]] insert_head_payload(2,3) [OF k1]
  have "threads k' = threads k1 \<and> sp_el0 k' = sp_el0 k1 \<and> sysregs k' = sysregs k1"
    using k2 change_map_threads(1,5) [of ?i "current_map (threads k1 ?i)" k1 k']
      change_map_sysregs [of ?i "current_map (threads k1 ?i)" k1 k'] by (auto split: if_splits)
  then show "sw = \<lparr>sw_then = th, sw_now = interrupt_thread k\<rparr>" "sp_el0 k' = sp_el0 k"
    "regs (threads k' z) = regs (threads k z)" "t_pc (threads k' z) = t_pc (threads k z)"
    "spsr (threads k' z) = spsr (threads k z)" "t_sp (threads k' z) = t_sp (threads k z)"
    "partner (threads k' z) = partner (threads k z)" "sysregs k' = sysregs k"
    using sw p by auto
qed

lemma link_frame [simp]:
  "ttbr0_el1 (set_next a b k) = ttbr0_el1 k" "ttbr0_el1 (set_prev a b k) = ttbr0_el1 k"
  "ttbr0_el1 (upd_thread a f k) = ttbr0_el1 k"
  "sysregs (set_next a b k) = sysregs k" "sp_el0 (set_next a b k) = sp_el0 k"
  "physical_address (set_next a b k) = physical_address k" "payload (threads (set_next a b k) z) = payload (threads k z)"
  "sysregs (set_prev a b k) = sysregs k" "sp_el0 (set_prev a b k) = sp_el0 k"
  "physical_address (set_prev a b k) = physical_address k" "payload (threads (set_prev a b k) z) = payload (threads k z)"
  by (simp_all add: link_setters upd_thread_def)

lemma switch_to_partner_effect:
  assumes "partner (threads k th) = p" and "p \<noteq> 0" and "current_map (threads k th) = current_map (threads k p)"
  obtains k' where "handle_svc th ISAMBARD_SWITCH_TO_PARTNER k = Inr (\<lparr>sw_then = th, sw_now = p\<rparr>, k')"
    and "runnable k' = p" and "sysregs k' = sysregs k" and "sp_el0 k' = sp_el0 k"
    and "physical_address k' = physical_address k" and "ttbr0_el1 k' = ttbr0_el1 k"
    and "\<And>z. regs (threads k' z) = regs (threads k z)" and "\<And>z. spsr (threads k' z) = spsr (threads k z)"
    and "\<And>z. t_sp (threads k' z) = t_sp (threads k z)" and "\<And>z. current_map (threads k' z) = current_map (threads k z)"
    and "\<And>z. partner (threads k' z) = partner (threads k z)"
    and "\<And>z. t_pc (threads k' z) = (if z = p \<and> vm_mode (spsr (threads k p)) then reg k th 1 else t_pc (threads k z))"
proof -
  have h: "handle_svc th ISAMBARD_SWITCH_TO_PARTNER k = svc_switch_to_partner th k"
    by (simp add: handle_svc_def syscall_numbers)
  define k1 where "k1 = (let k = set_next p (t_next (threads k th)) k; k = set_prev p (t_prev (threads k th)) k;
      k = set_prev (t_next (threads k th)) p k; k = set_next (t_prev (threads k th)) p k;
      k = set_next th th k in set_prev th th k)"
  define k2 where "k2 = k1\<lparr>runnable := p\<rparr>"
  define k' where "k' = (if vm_mode (spsr (threads k2 p)) then upd_thread p (\<lambda>c. c\<lparr>t_pc := reg k2 th 1\<rparr>) k2 else k2)"
  have "payload (threads k1 z) = payload (threads k z)" for z by (simp add: k1_def Let_def)
  note y = payload_fields [OF this]
  have "sysregs k1 = sysregs k" "sp_el0 k1 = sp_el0 k" "physical_address k1 = physical_address k"
    "ttbr0_el1 k1 = ttbr0_el1 k"
    by (simp_all add: k1_def Let_def)
  moreover have "svc_switch_to_partner th k = Inr (\<lparr>sw_then = th, sw_now = p\<rparr>, k')"
    using assms by (simp add: svc_switch_to_partner_def k'_def k2_def k1_def Let_def)
  ultimately show ?thesis
    by (intro that [of k']) (auto simp: h k'_def k2_def y)
qed

lemma sync_switch_to_partner:
  assumes "partner (threads k th) = p" and "p \<noteq> 0" and "current_map (threads k th) = current_map (threads k p)"
    and "handle_svc th ISAMBARD_SWITCH_TO_PARTNER k = Inr (\<lparr>sw_then = th, sw_now = p\<rparr>, k')"
    and "runnable k' = p" and "\<And>z. current_map (threads k' z) = current_map (threads k z)"
  shows "SEL1_LOWER_AARCH64_SYNC_CODE (0x56000000 OR ISAMBARD_SWITCH_TO_PARTNER) far th k
     = Inr (\<lparr>sw_then = th, sw_now = p\<rparr>, k')"
proof -
  have "drop_bit 16 (0x56000000 OR ISAMBARD_SWITCH_TO_PARTNER) = 0x5600"
    "(0x56000000 OR ISAMBARD_SWITCH_TO_PARTNER) AND 0xffff = ISAMBARD_SWITCH_TO_PARTNER"
    by (simp_all add: ISAMBARD_SWITCH_TO_PARTNER_def drop_bit_eq_div)
  then show ?thesis
    using assms(3-6)
    by (simp add: SEL1_LOWER_AARCH64_SYNC_CODE_def SEL1_LOWER_AARCH64_SYNC_CODE_may_change_map_def)
qed

lemma enter_secure_thread:
  assumes "\<not> vm_mode (spsr (threads (kern m) t))"
  obtains m' where "el1_enter_thread t m = Inr m'" and "\<And>i. i \<le> 30 \<Longrightarrow> xr m' i = regs (threads (kern m) t) i"
    and "m_pc m' = t_pc (threads (kern m) t)" and "m_pstate m' = ucast (spsr (threads (kern m) t))"
    and "kern m' = (kern m)\<lparr>sp_el0 := t_sp (threads (kern m) t), runnable := t\<rparr>" and "scr_el3 m' = scr_el3 m"
    and "system_registers m' = system_registers m" and "secure_registers m' = secure_registers m"
  using assms that by (simp add: el1_enter_thread_def Let_def upd_kern_def eret_el1_def)

lemma low_bits_of_state: "ucast s AND 15 = (0xd :: u64) \<longleftrightarrow> s AND 15 = 0xd" for s :: u32
proof -
  have "ucast s AND (15 :: u64) = ucast (s AND 15)" by (simp add: unsigned_and_eq)
  moreover have "ucast x = (0xd :: u64) \<longleftrightarrow> x = 0xd" for x :: u32
  proof
    assume "ucast x = (0xd :: u64)"
    then have "(ucast (ucast x :: u64) :: u32) = ucast (0xd :: u64)" by simp
    then show "x = 0xd" by (simp add: ucast_down_up_u32)
  qed simp
  ultimately show ?thesis by metis
qed

lemma enter_guest_thread:
  assumes t: "vm_mode (spsr (threads (kern m) t))" "spsr (threads (kern m) t) AND 15 \<noteq> 0xd" "partner (threads (kern m) t) \<noteq> 0"
      "t \<noteq> 0xfffffffffe1feb80" "runnable (kern m) = t" and s: "\<not> bit (scr_el3 m) 0"
  obtains m' where "el1_enter_thread t m = Inr m'" and "bit (scr_el3 m') 0" and "\<forall>i\<le>30. xr m' i = regs (threads (kern m) t) i"
    and "m_pc m' = t_pc (threads (kern m) t)" and "m_pstate m' = ucast (spsr (threads (kern m) t))"
    and "\<forall>i<18. get_system_register i m' = sysregs (kern m) t i"
    and "kern m' = (kern m)\<lparr>ttbr0_el1 := sysregs (kern m) t 3\<rparr>"
proof -
  let ?t = "toggle_security m"
  let ?l = "(LOAD_VM_SYSTEM_REGS t ?t)\<lparr>elr_el3 := t_pc (threads (kern m) t), spsr_el3 := ucast (spsr (threads (kern m) t))\<rparr>"
  let ?r = "resume_ns_thread t ?l"
  have f: "kern ?t = kern m" "bit (scr_el3 ?t) 0" using s by (simp_all add: toggle_security_def bit_simps)
  have "el1_enter_thread t m = in_el3 m" using t by (simp add: el1_enter_thread_def)
  also have "\<dots> = Inr ?r"
    using f t low_bits_of_state by (simp add: in_el3_def Let_def load_vm_registers)
  finally have r: "el1_enter_thread t m = Inr ?r" .
  have "get_system_register i ?r = sysregs (kern m) t i" if "i < 18" for i
    using that load_vm_registers(2) [of i t ?t] f(1)
    by (simp add: resume_ns_thread_def eret_el3_def get_system_register_def split: if_splits)
  with r f show ?thesis
    by (intro that [of ?r]) (simp_all add: resume_ns_thread_def eret_el3_def load_vm_registers)
qed

lemma enter_keeps_threads:
  assumes "el1_enter_thread t m = Inr m'"
  shows "threads (kern m') = threads (kern m)"
  using assms
  by (auto simp: el1_enter_thread_def in_el3_def switch_to_secure_def restore_secure_system_regs_def resume_ns_thread_def
      toggle_security_def eret_el3_def eret_el1_def upd_kern_def Let_def save_vm_registers load_vm_registers
      load_secure_registers set_system_register_def split: if_splits)

section \<open>Properties\<close>

lemma pstate_word: "drop_bit 32 v = 0 \<Longrightarrow> ucast (ucast v :: u32) = (v :: u64)"
proof -
  assume "drop_bit 32 v = 0"
  then have "take_bit 32 v = v" using bits_ident [of 32 v] by simp
  moreover have "ucast (ucast v :: u32) = take_bit 32 v" by (intro bit_eqI) (auto simp: bit_simps)
  ultimately show ?thesis by simp
qed

text \<open>A thread that another one replaces is saved completely.\<close>

lemma switched_out_context:
  assumes e: "event (runnable (kern m)) (kern (save_for_c m)) = Inr (\<lparr>sw_then = th, sw_now = u\<rparr>, k)"
    and th: "runnable (kern m) = th" "u \<noteq> th"
    and keep: "regs (threads k th) = regs (threads (kern (save_for_c m)) th)"
      "t_pc (threads k th) = t_pc (threads (kern (save_for_c m)) th)" "spsr (threads k th) = spsr (threads (kern (save_for_c m)) th)"
  obtains m' where "C_HANDLER event clobbered m = el1_enter_thread u m'"
    and "\<And>i. i \<le> 30 \<Longrightarrow> regs (threads (kern m') th) i = xr m i"
    and "t_pc (threads (kern m') th) = elr_el1 m" and "spsr (threads (kern m') th) = ucast (spsr_el1 m)"
    and "t_sp (threads (kern m') th) = sp_el0 k" and "\<And>z. z \<noteq> th \<Longrightarrow> threads (kern m') z = threads k z"
    and "kern m' = k\<lparr>threads := threads (kern m')\<rparr>" and "scr_el3 m' = scr_el3 m"
    and "system_registers m' = system_registers m" and "secure_registers m' = secure_registers m"
    and "partner (threads (kern m') th) = partner (threads k th)"
proof -
  let ?m = "save_for_c m"
  let ?c = "?m\<lparr>kern := k, xr := (\<lambda>i. if i \<le> 18 \<or> i = 30 then clobbered i else xr ?m i)\<rparr>"
  let ?m' = "save_rest th (?c\<lparr>xr := (xr ?c)(18 := regs (threads k th) 18, 30 := regs (threads k th) 19)\<rparr>)"
  have s: "regs (threads (kern ?m) th) = (\<lambda>i. if i \<le> 18 then xr m i else if i = 19 then xr m 30 else regs (threads (kern m) th) i)"
    "t_pc (threads (kern ?m) th) = elr_el1 m" "spsr (threads (kern ?m) th) = ucast (spsr_el1 m)" "xr ?m = xr m"
    using th(1) by (simp_all add: save_for_c_def upd_kern_def)
  have "C_HANDLER event clobbered m = el1_enter_thread u ?m'"
    using e th by (simp add: C_HANDLER_def Let_def)
  moreover have "regs (threads (kern ?m') th) i = xr m i" if "i \<le> 30" for i
    using that keep(1) s(1,4) by (auto simp: save_rest_def upd_kern_def)
  moreover have "kern ?m' = k\<lparr>threads := threads (kern ?m')\<rparr>"
    by (simp add: save_rest_def upd_kern_def upd_thread_def)
  ultimately show ?thesis
    using that [of ?m'] keep s by (simp add: save_rest_def upd_kern_def save_for_c_def)
qed

text \<open>C30. Interrupts are invisible to the thread they interrupt: when the interrupt thread replaces it and the
  thread is entered again later, with its saved context untouched, all its registers, its stack pointer, its program
  counter and its processor state are what they were, whatever the handler's code left in the registers.\<close>

theorem interrupt_is_transparent:
  assumes "runnable (kern m) = th" and "interrupt_thread (kern m) \<noteq> th"
    and "drop_bit 32 (m_pstate m) = 0" and "\<not> vm_mode (ucast (m_pstate m))"
    and "kernel_irq clobbered (exception_to_el1 m) = Inr m1"
    and "regs (threads (kern m2) th) = regs (threads (kern m1) th)" and "t_pc (threads (kern m2) th) = t_pc (threads (kern m1) th)"
    and "spsr (threads (kern m2) th) = spsr (threads (kern m1) th)" and "t_sp (threads (kern m2) th) = t_sp (threads (kern m1) th)"
  shows "\<exists>m3. el1_enter_thread th m2 = Inr m3 \<and> (\<forall>i\<le>30. xr m3 i = xr m i) \<and> m_pc m3 = m_pc m
     \<and> m_pstate m3 = m_pstate m \<and> sp_el0 (kern m3) = sp_el0 (kern m)"
proof -
  let ?e = "exception_to_el1 m" and ?i = "interrupt_thread (kern m)"
  have r: "runnable (kern ?e) = th" "xr ?e = xr m" "elr_el1 ?e = m_pc m" "spsr_el1 ?e = m_pstate m"
    "interrupt_thread (kern (save_for_c ?e)) = ?i" "sp_el0 (kern (save_for_c ?e)) = sp_el0 (kern m)"
    using assms(1) by (simp_all add: exception_to_el1_def save_for_c_def upd_kern_def)
  obtain sw k where k: "SEL1_LOWER_AARCH64_IRQ_CODE th (kern (save_for_c ?e)) = Inr (sw, k)"
    using assms(5) r(1) by (auto simp: kernel_irq_def C_HANDLER_def Let_def elim!: rbind_InrE)
  note f = irq_handler_frame [OF k]
  have k': "SEL1_LOWER_AARCH64_IRQ_CODE (runnable (kern ?e)) (kern (save_for_c ?e)) = Inr (\<lparr>sw_then = th, sw_now = ?i\<rparr>, k)"
    using k f(1) r(1,5) by simp
  obtain m' where m': "C_HANDLER SEL1_LOWER_AARCH64_IRQ_CODE clobbered ?e = el1_enter_thread ?i m'"
    and c: "\<And>i. i \<le> 30 \<Longrightarrow> regs (threads (kern m') th) i = xr ?e i" "t_pc (threads (kern m') th) = elr_el1 ?e"
      "spsr (threads (kern m') th) = ucast (spsr_el1 ?e)" "t_sp (threads (kern m') th) = sp_el0 k"
    by (rule switched_out_context [where event = SEL1_LOWER_AARCH64_IRQ_CODE and m = ?e and clobbered = clobbered,
        OF k' r(1) assms(2) f(3,4,5)]) blast
  have "threads (kern m1) = threads (kern m')"
    using assms(5) m' enter_keeps_threads by (simp add: kernel_irq_def)
  with c r f(2) assms(6-9) have x: "\<And>i. i \<le> 30 \<Longrightarrow> regs (threads (kern m2) th) i = xr m i"
    "t_pc (threads (kern m2) th) = m_pc m" "spsr (threads (kern m2) th) = ucast (m_pstate m)"
    "t_sp (threads (kern m2) th) = sp_el0 (kern m)" by simp_all
  have nv: "\<not> vm_mode (spsr (threads (kern m2) th))" using x(3) assms(4) by simp
  obtain m3 where "el1_enter_thread th m2 = Inr m3" and "\<And>i. i \<le> 30 \<Longrightarrow> xr m3 i = regs (threads (kern m2) th) i"
    and "m_pc m3 = t_pc (threads (kern m2) th)" and "m_pstate m3 = ucast (spsr (threads (kern m2) th))"
    and "kern m3 = (kern m2)\<lparr>sp_el0 := t_sp (threads (kern m2) th), runnable := th\<rparr>"
    by (rule enter_secure_thread [OF nv]) blast
  then show ?thesis using x pstate_word [OF assms(3)] by auto
qed

text \<open>The kernel's part of a switch between the two threads of a virtual machine.\<close>

lemma kernel_switches_to_partner:
  assumes esr: "get_system_register 8 m = 0x56000000 OR ucast ISAMBARD_SWITCH_TO_PARTNER"
    and th: "runnable (kern m) = th" "partner (threads (kern m) th) = p" "p \<noteq> 0" "p \<noteq> th"
    and map: "current_map (threads (kern m) th) = current_map (threads (kern m) p)"
  obtains m' where "kernel_sync clobbered m = el1_enter_thread p m'" and "runnable (kern m') = p"
    and "\<And>i. i \<le> 30 \<Longrightarrow> regs (threads (kern m') th) i = xr m i"
    and "t_pc (threads (kern m') th) = elr_el1 m" and "spsr (threads (kern m') th) = ucast (spsr_el1 m)"
    and "t_sp (threads (kern m') th) = sp_el0 (kern m)" and "regs (threads (kern m') p) = regs (threads (kern m) p)"
    and "spsr (threads (kern m') p) = spsr (threads (kern m) p)" and "t_sp (threads (kern m') p) = t_sp (threads (kern m) p)"
    and "partner (threads (kern m') p) = partner (threads (kern m) p)"
    and "t_pc (threads (kern m') p) = (if vm_mode (spsr (threads (kern m) p)) then xr m 1 else t_pc (threads (kern m) p))"
    and "sysregs (kern m') = sysregs (kern m)" and "physical_address (kern m') = physical_address (kern m)"
    and "scr_el3 m' = scr_el3 m" and "system_registers m' = system_registers m" and "secure_registers m' = secure_registers m"
    and "ttbr0_el1 (kern m') = ttbr0_el1 (kern m)"
proof -
  let ?k = "kern (save_for_c m)"
  let ?event = "SEL1_LOWER_AARCH64_SYNC_CODE (ucast (get_system_register 8 m)) (get_system_register 9 m)"
  have s: "partner (threads ?k th) = p" "current_map (threads ?k th) = current_map (threads ?k p)"
    "reg ?k th 1 = xr m 1" "threads ?k p = threads (kern m) p" "sysregs ?k = sysregs (kern m)" "sp_el0 ?k = sp_el0 (kern m)"
    "physical_address ?k = physical_address (kern m)" "ttbr0_el1 ?k = ttbr0_el1 (kern m)"
    using th map by (simp_all add: save_for_c_def upd_kern_def)
  obtain k where k: "handle_svc th ISAMBARD_SWITCH_TO_PARTNER ?k = Inr (\<lparr>sw_then = th, sw_now = p\<rparr>, k)"
    and k1: "runnable k = p" "sysregs k = sysregs ?k" "sp_el0 k = sp_el0 ?k" "physical_address k = physical_address ?k"
      "ttbr0_el1 k = ttbr0_el1 ?k"
    and f: "\<And>z. regs (threads k z) = regs (threads ?k z)" "\<And>z. spsr (threads k z) = spsr (threads ?k z)"
      "\<And>z. t_sp (threads k z) = t_sp (threads ?k z)" "\<And>z. current_map (threads k z) = current_map (threads ?k z)"
      "\<And>z. partner (threads k z) = partner (threads ?k z)"
      "\<And>z. t_pc (threads k z) = (if z = p \<and> vm_mode (spsr (threads ?k p)) then reg ?k th 1 else t_pc (threads ?k z))"
    by (rule switch_to_partner_effect [OF s(1) th(3) s(2)]) blast
  have "?event th ?k = Inr (\<lparr>sw_then = th, sw_now = p\<rparr>, k)"
    using sync_switch_to_partner [OF s(1) th(3) s(2) k k1(1) f(4)] esr
    by (simp add: unsigned_or_eq ISAMBARD_SWITCH_TO_PARTNER_def)
  then have e: "?event (runnable (kern m)) ?k = Inr (\<lparr>sw_then = th, sw_now = p\<rparr>, k)" using th(1) by simp
  have pc: "t_pc (threads k th) = t_pc (threads ?k th)" using f(6) th(4) by simp
  obtain m' where "C_HANDLER ?event clobbered m = el1_enter_thread p m'"
    and "\<And>i. i \<le> 30 \<Longrightarrow> regs (threads (kern m') th) i = xr m i"
    and "t_pc (threads (kern m') th) = elr_el1 m" and "spsr (threads (kern m') th) = ucast (spsr_el1 m)"
    and "t_sp (threads (kern m') th) = sp_el0 k" and z: "\<And>z. z \<noteq> th \<Longrightarrow> threads (kern m') z = threads k z"
    and kk: "kern m' = k\<lparr>threads := threads (kern m')\<rparr>" and "scr_el3 m' = scr_el3 m"
    and "system_registers m' = system_registers m" and "secure_registers m' = secure_registers m"
    by (rule switched_out_context [where event = ?event and m = m and clobbered = clobbered, OF e th(1,4) f(1) pc f(2)]) blast
  moreover have "runnable (kern m') = p" "sysregs (kern m') = sysregs (kern m)" "physical_address (kern m') = physical_address (kern m)"
    "ttbr0_el1 (kern m') = ttbr0_el1 (kern m)"
    using k1 s by (subst kk, simp)+
  ultimately show ?thesis
    using that [of m'] th(4) f k1 s by (simp add: kernel_sync_def)
qed

lemma restore_secure_effect:
  "kern (restore_secure_system_regs m) =
    (kern m)\<lparr>sysregs := (sysregs (kern m))(runnable (kern m) := vm_state_of m), ttbr0_el1 := tt_l1_address (kern m)\<rparr>"
  "system_registers (restore_secure_system_regs m) =
    (\<lambda>i. if i \<in> {0, 1, 2, 4, 5} then secure_registers m i else system_registers m i)"
  "xr (restore_secure_system_regs m) = xr m" "scr_el3 (restore_secure_system_regs m) = scr_el3 m"
  "elr_el2 (restore_secure_system_regs m) = elr_el2 m" "spsr_el2 (restore_secure_system_regs m) = spsr_el2 m"
  "elr_el3 (restore_secure_system_regs m) = elr_el3 m" "spsr_el3 (restore_secure_system_regs m) = spsr_el3 m"
  "secure_registers (restore_secure_system_regs m) = secure_registers m"
  by (simp_all add: restore_secure_system_regs_def save_vm_registers load_secure_registers upd_kern_def tt_l1_address_def
      fun_eq_iff)

lemma switch_to_secure_effect:
  assumes "bit (spsr_el2 m) 4"
  obtains m' where "switch_to_secure m = Inr m'" and "m_pc m' = secure_registers m 5 + 0x400"
    and "kern m' = (kern m)\<lparr>sysregs := (sysregs (kern m))(runnable (kern m) := vm_state_of m), ttbr0_el1 := tt_l1_address (kern m)\<rparr>"
    and "system_registers m' = (\<lambda>i. if i = 8 then 0x56000000 OR ucast ISAMBARD_SWITCH_TO_PARTNER
      else if i \<in> {0, 1, 2, 4, 5} then secure_registers m i else system_registers m i)"
    and "xr m' = xr m" and "scr_el3 m' = scr_el3 m" and "elr_el1 m' = elr_el2 m" and "spsr_el1 m' = spsr_el2 m"
    and "secure_registers m' = secure_registers m"
  using assms that
  by (simp add: switch_to_secure_def Let_def restore_secure_effect eret_el3_def set_system_register_def get_system_register_def
      fun_eq_iff)

text \<open>EL2 and EL3 together, from a trap of the guest to the kernel's vector.\<close>

lemma guest_enters_secure:
  assumes th: "runnable (kern m) = th" "partner (threads (kern m) th) = p" "p \<noteq> th"
    and ns: "bit (scr_el3 m) 0" "bit (m_pstate m) 4"
  obtains m' where "LOWER_SYNC_at_EL2 (trap_to_el2 esr far hpfar m) = Inr m'"
    and "m_pc m' = secure_registers m 5 + 0x400" and "\<not> bit (scr_el3 m') 0" and "xr m' = xr m"
    and "elr_el1 m' = m_pc m" and "spsr_el1 m' = m_pstate m"
    and "get_system_register 8 m' = 0x56000000 OR ucast ISAMBARD_SWITCH_TO_PARTNER"
    and "\<And>i. i \<in> {0, 1, 2, 4, 5} \<Longrightarrow> system_registers m' i = secure_registers m i"
    and "secure_registers m' = secure_registers m"
    and "threads (kern m') = (threads (kern m))(p := (threads (kern m) p)\<lparr>regs :=
      (regs (threads (kern m) p))(0 := m_pc m, 1 := esr, 2 := far, 3 := hpfar)\<rparr>)"
    and "runnable (kern m') = th" and "sp_el0 (kern m') = sp_el0 (kern m)"
    and "physical_address (kern m') = physical_address (kern m)" and "ttbr0_el1 (kern m') = tt_l1_address (kern m)"
    and "\<And>i. i < 18 \<Longrightarrow> sysregs (kern m') th i = get_system_register i m"
proof -
  let ?k = "set_reg p 3 hpfar (set_reg p 2 far (set_reg p 1 esr (set_reg p 0 (m_pc m) (kern m))))"
  let ?t = "toggle_security ((trap_to_el2 esr far hpfar m)\<lparr>kern := ?k\<rparr>)"
  have sc: "\<not> bit (scr_el3 ?t) 0" using ns(1) by (simp add: toggle_security_def trap_to_el2_def bit_simps)
  have e: "LOWER_SYNC_at_EL2 (trap_to_el2 esr far hpfar m) = switch_to_secure ?t"
    using th sc by (simp add: LOWER_SYNC_at_EL2_def in_el3_def Let_def upd_kern_def trap_to_el2_def toggle_security_def)
  have th': "threads ?k = (threads (kern m))(p := (threads (kern m) p)\<lparr>regs :=
      (regs (threads (kern m) p))(0 := m_pc m, 1 := esr, 2 := far, 3 := hpfar)\<rparr>)"
    by (simp add: set_reg_def upd_thread_def)
  have fr: "runnable ?k = th" "sp_el0 ?k = sp_el0 (kern m)" "physical_address ?k = physical_address (kern m)"
    "ttbr0_el1 ?k = ttbr0_el1 (kern m)"
    using th(1) by (simp_all add: set_reg_def)
  have v: "vm_state_of ?t i = get_system_register i m" if "i < 18" for i
    using that fr(4) by (simp add: vm_state_of_def get_system_register_def toggle_security_def trap_to_el2_def)
  have b4: "bit (spsr_el2 ?t) 4" using ns(2) by (simp add: toggle_security_def trap_to_el2_def)
  have f: "kern ?t = ?k" "xr ?t = xr m" "elr_el2 ?t = m_pc m" "spsr_el2 ?t = m_pstate m"
    "secure_registers ?t = secure_registers m" "tt_l1_address ?k = tt_l1_address (kern m)"
    using fr(3) by (simp_all add: toggle_security_def trap_to_el2_def tt_l1_address_def)
  obtain m' where m': "switch_to_secure ?t = Inr m'" "m_pc m' = secure_registers ?t 5 + 0x400"
    "kern m' = (kern ?t)\<lparr>sysregs := (sysregs (kern ?t))(runnable (kern ?t) := vm_state_of ?t), ttbr0_el1 := tt_l1_address (kern ?t)\<rparr>"
    "system_registers m' = (\<lambda>i. if i = 8 then 0x56000000 OR ucast ISAMBARD_SWITCH_TO_PARTNER
      else if i \<in> {0, 1, 2, 4, 5} then secure_registers ?t i else system_registers ?t i)"
    "xr m' = xr ?t" "scr_el3 m' = scr_el3 ?t" "elr_el1 m' = elr_el2 ?t" "spsr_el1 m' = spsr_el2 ?t"
    "secure_registers m' = secure_registers ?t"
    by (rule switch_to_secure_effect [OF b4]) blast
  have "get_system_register 8 m' = 0x56000000 OR ucast ISAMBARD_SWITCH_TO_PARTNER"
    using m'(4) by (simp add: get_system_register_def)
  moreover have "\<And>i. i \<in> {0, 1, 2, 4, 5} \<Longrightarrow> system_registers m' i = secure_registers m i"
    using m'(4) f(5) by auto
  ultimately show ?thesis
    using that [of m'] e m'(1-3,5-9) f sc th' fr v by simp
qed


text \<open>C28. The monitor's return to the guest is complete: when the monitor's thread calls the kernel to switch to its
  partner, the guest continues in the non-secure state at the address the monitor gives, with the general
  registers and all system registers saved with its thread; the monitor's own registers are saved for the next trap.\<close>

theorem guest_resumes_with_its_state:
  assumes "runnable (kern m) = d" and "partner (threads (kern m) d) = vt" and "vt \<noteq> 0" and "vt \<noteq> d"
    and "current_map (threads (kern m) d) = current_map (threads (kern m) vt)"
    and "vm_mode (spsr (threads (kern m) vt))" and "spsr (threads (kern m) vt) AND 15 \<noteq> 0xd"
    and "partner (threads (kern m) vt) \<noteq> 0" and "vt \<noteq> 0xfffffffffe1feb80" and "\<not> bit (scr_el3 m) 0"
    and "get_system_register 8 m = 0x56000000 OR ucast ISAMBARD_SWITCH_TO_PARTNER"
  shows "\<exists>m2. kernel_sync clobbered (exception_to_el1 m) = Inr m2 \<and> bit (scr_el3 m2) 0 \<and> runnable (kern m2) = vt
     \<and> (\<forall>i\<le>30. xr m2 i = regs (threads (kern m) vt) i) \<and> m_pc m2 = xr m 1
     \<and> m_pstate m2 = ucast (spsr (threads (kern m) vt))
     \<and> (\<forall>i<18. get_system_register i m2 = sysregs (kern m) vt i)
     \<and> (\<forall>i\<le>30. regs (threads (kern m2) d) i = xr m i) \<and> t_pc (threads (kern m2) d) = m_pc m
     \<and> t_sp (threads (kern m2) d) = sp_el0 (kern m) \<and> spsr (threads (kern m2) d) = ucast (m_pstate m)"
proof -
  let ?e = "exception_to_el1 m"
  have e: "kern ?e = kern m" "xr ?e = xr m" "elr_el1 ?e = m_pc m" "spsr_el1 ?e = m_pstate m" "scr_el3 ?e = scr_el3 m"
    "get_system_register 8 ?e = 0x56000000 OR ucast ISAMBARD_SWITCH_TO_PARTNER"
    using assms(11) by (simp_all add: exception_to_el1_def get_system_register_def)
  obtain m' where m': "kernel_sync clobbered ?e = el1_enter_thread vt m'" "runnable (kern m') = vt"
      "\<And>i. i \<le> 30 \<Longrightarrow> regs (threads (kern m') d) i = xr ?e i"
      "t_pc (threads (kern m') d) = elr_el1 ?e" "spsr (threads (kern m') d) = ucast (spsr_el1 ?e)"
      "t_sp (threads (kern m') d) = sp_el0 (kern ?e)"
      "regs (threads (kern m') vt) = regs (threads (kern ?e) vt)" "spsr (threads (kern m') vt) = spsr (threads (kern ?e) vt)"
      "partner (threads (kern m') vt) = partner (threads (kern ?e) vt)"
      "t_pc (threads (kern m') vt) = (if vm_mode (spsr (threads (kern ?e) vt)) then xr ?e 1 else t_pc (threads (kern ?e) vt))"
      "sysregs (kern m') = sysregs (kern ?e)" "scr_el3 m' = scr_el3 ?e"
    by (rule kernel_switches_to_partner [OF e(6), of d vt clobbered]) (use assms e in simp_all)
  have g: "vm_mode (spsr (threads (kern m') vt))" "spsr (threads (kern m') vt) AND 15 \<noteq> 0xd"
    "partner (threads (kern m') vt) \<noteq> 0" "\<not> bit (scr_el3 m') 0" "t_pc (threads (kern m') vt) = xr m 1"
    using m'(8-10,12) e(1,2,5) assms(6-8,10) by simp_all
  obtain m2 where "el1_enter_thread vt m' = Inr m2" "bit (scr_el3 m2) 0" "\<forall>i\<le>30. xr m2 i = regs (threads (kern m') vt) i"
      "m_pc m2 = t_pc (threads (kern m') vt)" "m_pstate m2 = ucast (spsr (threads (kern m') vt))"
      "\<forall>i<18. get_system_register i m2 = sysregs (kern m') vt i" "kern m2 = (kern m')\<lparr>ttbr0_el1 := sysregs (kern m') vt 3\<rparr>"
    by (rule enter_guest_thread [OF g(1-3) assms(9) m'(2) g(4)]) blast
  then show ?thesis
    using m'(1-8,11) e(1-4) g(5) by (intro exI [of _ m2]) simp
qed

text \<open>C29. Interrupts are invisible to a guest too: the interrupt is taken in EL3, passed to the kernel's vector for interrupts
  (at 0x480, since the level below EL3 is always in 64-bit state) in the secure state, and when the guest's thread is entered again with its saved context untouched, it continues in the
  non-secure state with the same general registers, program counter, processor state and all eighteen system registers.\<close>

theorem guest_interrupt_is_transparent:
  assumes "runnable (kern m) = vt" and "interrupt_thread (kern m) \<noteq> vt" and "partner (threads (kern m) vt) \<noteq> 0"
    and "bit (scr_el3 m) 0" and "vt \<noteq> 0xfffffffffe1feb80" and "drop_bit 32 (m_pstate m) = 0"
    and "vm_mode (ucast (m_pstate m))" and "ucast (m_pstate m) AND 15 \<noteq> (0xd :: u32)"
    and "\<not> vm_mode (spsr (threads (kern m) (interrupt_thread (kern m))))"
    and "kernel_irq clobbered (REDIRECT_INTERRUPT_TO_SECURE_EL1 0x480 (exception_to_el3 m)) = Inr m1"
    and "payload (threads (kern m2) vt) = payload (threads (kern m1) vt)" and "sysregs (kern m2) vt = sysregs (kern m1) vt"
    and "runnable (kern m2) = vt" and "\<not> bit (scr_el3 m2) 0"
  shows "m_pc (REDIRECT_INTERRUPT_TO_SECURE_EL1 0x480 (exception_to_el3 m)) = secure_registers m 5 + 0x480
     \<and> \<not> bit (scr_el3 m1) 0 \<and> (\<exists>m3. el1_enter_thread vt m2 = Inr m3 \<and> bit (scr_el3 m3) 0 \<and> (\<forall>i\<le>30. xr m3 i = xr m i)
     \<and> m_pc m3 = m_pc m \<and> m_pstate m3 = m_pstate m \<and> (\<forall>i<18. get_system_register i m3 = get_system_register i m))"
proof -
  let ?e = "REDIRECT_INTERRUPT_TO_SECURE_EL1 0x480 (exception_to_el3 m)" and ?i = "interrupt_thread (kern m)"
  have r: "runnable (kern ?e) = vt" "xr ?e = xr m" "elr_el1 ?e = m_pc m" "spsr_el1 ?e = m_pstate m" "threads (kern ?e) = threads (kern m)"
    "interrupt_thread (kern (save_for_c ?e)) = ?i" "sysregs (kern ?e) = (sysregs (kern m))(vt := vm_state_of (exception_to_el3 m))"
    "\<not> bit (scr_el3 ?e) 0" "m_pc ?e = secure_registers m 5 + 0x480"
    using assms(1,4) by (simp_all add: get_system_register_def REDIRECT_INTERRUPT_TO_SECURE_EL1_def Let_def restore_secure_effect toggle_security_def
        eret_el3_def exception_to_el3_def save_for_c_def upd_kern_def bit_simps)
  obtain sw k where k: "SEL1_LOWER_AARCH64_IRQ_CODE vt (kern (save_for_c ?e)) = Inr (sw, k)"
    using assms(10) r(1) by (auto simp: kernel_irq_def C_HANDLER_def Let_def elim!: rbind_InrE)
  note f = irq_handler_frame [OF k]
  have k': "SEL1_LOWER_AARCH64_IRQ_CODE (runnable (kern ?e)) (kern (save_for_c ?e)) = Inr (\<lparr>sw_then = vt, sw_now = ?i\<rparr>, k)"
    using k f(1) r(1,6) by simp
  obtain m' where m': "C_HANDLER SEL1_LOWER_AARCH64_IRQ_CODE clobbered ?e = el1_enter_thread ?i m'"
    and c: "\<And>i. i \<le> 30 \<Longrightarrow> regs (threads (kern m') vt) i = xr ?e i" "t_pc (threads (kern m') vt) = elr_el1 ?e"
      "spsr (threads (kern m') vt) = ucast (spsr_el1 ?e)" "\<And>z. z \<noteq> vt \<Longrightarrow> threads (kern m') z = threads k z"
    and kk: "kern m' = k\<lparr>threads := threads (kern m')\<rparr>" and sc: "scr_el3 m' = scr_el3 ?e"
    and pa: "partner (threads (kern m') vt) = partner (threads k vt)"
    by (rule switched_out_context [where event = SEL1_LOWER_AARCH64_IRQ_CODE and m = ?e and clobbered = clobbered,
        OF k' r(1) assms(2) f(3,4,5)]) blast
  have sk: "sysregs (kern m') = sysregs (kern ?e)"
    using f(8) by (subst kk) (simp add: save_for_c_def upd_kern_def)
  have nv: "\<not> vm_mode (spsr (threads (kern m') ?i))"
    using c(4) [OF assms(2)] f(5) r(5) assms(2,9) r(1) by (simp add: save_for_c_def upd_kern_def)
  obtain m1' where "el1_enter_thread ?i m' = Inr m1'" "kern m1' = (kern m')\<lparr>sp_el0 := t_sp (threads (kern m') ?i), runnable := ?i\<rparr>"
      "scr_el3 m1' = scr_el3 m'"
    by (rule enter_secure_thread [OF nv]) blast
  then have e1: "threads (kern m1) = threads (kern m')" "sysregs (kern m1) = sysregs (kern m')" "scr_el3 m1 = scr_el3 m'"
    using assms(10) m' by (simp_all add: kernel_irq_def)
  note p = payload_fields [OF assms(11)]
  have x: "\<And>i. i \<le> 30 \<Longrightarrow> regs (threads (kern m2) vt) i = xr m i" "t_pc (threads (kern m2) vt) = m_pc m"
    "spsr (threads (kern m2) vt) = ucast (m_pstate m)" "partner (threads (kern m2) vt) \<noteq> 0"
    "\<And>i. i < 18 \<Longrightarrow> sysregs (kern m2) vt i = get_system_register i m"
    using p e1 c(1-3) pa f(7) r assms(3,12) sk
    by (simp_all add: save_for_c_def upd_kern_def vm_state_of_def exception_to_el3_def get_system_register_def)
  have g: "vm_mode (spsr (threads (kern m2) vt))" "spsr (threads (kern m2) vt) AND 15 \<noteq> 0xd"
    using x(3) assms(7,8) by simp_all
  obtain m3 where "el1_enter_thread vt m2 = Inr m3" "bit (scr_el3 m3) 0" "\<forall>i\<le>30. xr m3 i = regs (threads (kern m2) vt) i"
      "m_pc m3 = t_pc (threads (kern m2) vt)" "m_pstate m3 = ucast (spsr (threads (kern m2) vt))"
      "\<forall>i<18. get_system_register i m3 = sysregs (kern m2) vt i"
    by (rule enter_guest_thread [OF g x(4) assms(5,13,14)]) blast
  then show ?thesis using x e1(3) sc r(8,9) pstate_word [OF assms(6)] by auto
qed

section \<open>Instances\<close>

definition sample_machine :: "kernel \<Rightarrow> u64 \<Rightarrow> machine" where
  "sample_machine k scr =
    \<lparr>xr = (\<lambda>i. of_nat i + 100), m_pc = 0x8000, m_pstate = 0x10, elr_el1 = 0, spsr_el1 = 0, elr_el2 = 0, spsr_el2 = 0,
     esr_el2 = 0, far_el2 = 0, hpfar_el2 = 0, elr_el3 = 0, spsr_el3 = 0, scr_el3 = scr,
     system_registers = (\<lambda>i. if i = 8 then 0x56000000 OR ucast ISAMBARD_SWITCH_TO_PARTNER else 0),
     secure_registers = (\<lambda>i. of_nat i), kern = k\<rparr>"

lemma sample_machine_fields [simp]:
  "kern (sample_machine k scr) = k" "scr_el3 (sample_machine k scr) = scr" "m_pstate (sample_machine k scr) = 0x10"
  "m_pc (sample_machine k scr) = 0x8000"
  "get_system_register 8 (sample_machine k scr) = 0x56000000 OR ucast ISAMBARD_SWITCH_TO_PARTNER"
  by (simp_all add: sample_machine_def get_system_register_def)

text \<open>Thread \<open>T1\<close> is the monitor and \<open>T4\<close> its guest.\<close>

definition sample_monitor :: kernel where
  "sample_monitor = upd_thread T1 (\<lambda>c. c\<lparr>partner := T4\<rparr>) (upd_thread T4 (\<lambda>c. c\<lparr>partner := T1, spsr := 0x10\<rparr>) sample_kernel)"

lemma sample_monitor_fields [simp]:
  "runnable sample_monitor = T1" "partner (threads sample_monitor T1) = T4" "partner (threads sample_monitor T4) = T1"
  "current_map (threads sample_monitor t) = 3" "spsr (threads sample_monitor T4) = 0x10" "spsr (threads sample_monitor T1) = 0"
  "T4 \<noteq> 0xfffffffffe1feb80" "vm_mode 0x10" "\<not> vm_mode 0"
  by (simp_all add: sample_monitor_def sample_thread_def vm_mode_def T4_def T1_def)


theorem guest_resumes_with_its_state_witness:
  "\<exists>m2. kernel_sync (\<lambda>_. 0) (exception_to_el1 (sample_machine sample_monitor 0)) = Inr m2 \<and> bit (scr_el3 m2) 0
     \<and> runnable (kern m2) = T4 \<and> m_pstate m2 = 0x10"
  using guest_resumes_with_its_state [of "sample_machine sample_monitor 0" T1 T4, where clobbered = "\<lambda>_. 0"] by fastforce

text \<open>Thread \<open>T4\<close> is the interrupt thread, and \<open>T1\<close> the one that is interrupted.\<close>

definition sample_interrupted :: kernel where
  "sample_interrupted = (upd_thread T1 (\<lambda>c. c\<lparr>partner := T4\<rparr>) sample_kernel)\<lparr>interrupt_thread := T4\<rparr>"

lemma sample_interrupted_fields [simp]:
  "runnable sample_interrupted = T1" "interrupt_thread sample_interrupted = T4" "sp_el0 sample_interrupted = 0x4000"
  "threads sample_interrupted = sample_thread(T1 := (sample_thread T1)\<lparr>partner := T4\<rparr>)"
  by (simp_all add: sample_interrupted_def)

lemma sample_irq:
  assumes m: "runnable (kern m) = T1" "interrupt_thread (kern m) = T4" "threads (kern m) = threads sample_interrupted"
  obtains m1 where "kernel_irq clobbered m = Inr m1"
proof -
  let ?k = "kern (save_for_c m)"
  have k: "interrupt_thread ?k = T4" "runnable ?k = T1" "current_map (threads ?k t) = 3" "spsr (threads ?k T4) = 0" for t
    using m by (simp_all add: save_for_c_def upd_kern_def sample_thread_def)
  have "ring (threads ?k) [T1, T2, T3]"
    by (rule ring_cong [THEN iffD2, OF _ sample_ring]) (auto simp: save_for_c_def upd_kern_def m)
  then have q: "queue ?k Runnable_list [T1, T2, T3]"
    using k(2) by (simp add: queue_def deref_list_def del: ring.simps)
  obtain k1 where k1: "insert_thread_as_head Runnable_list T4 ?k = Inr k1" "queue k1 Runnable_list [T4, T1, T2, T3]"
    using queue_insert_head [OF q, of T4] by (auto simp: is_head_def)
  note p = payload_fields [OF insert_head_payload(1) [OF k1(1)]]
  have "SEL1_LOWER_AARCH64_IRQ_CODE T1 ?k = Inr (\<lparr>sw_then = T1, sw_now = T4\<rparr>, k1)"
    using k1 k p by (simp add: SEL1_LOWER_AARCH64_IRQ_CODE_def queue_def deref_list_def)
  with m(1) k p have "\<exists>m1. kernel_irq clobbered m = Inr m1"
    by (simp add: kernel_irq_def C_HANDLER_def el1_enter_thread_def save_rest_def upd_kern_def Let_def)
  with that show ?thesis by blast
qed

theorem interrupt_is_transparent_witness:
  "\<exists>m1 m3. kernel_irq (\<lambda>_. 0) (exception_to_el1 ((sample_machine sample_interrupted 0)\<lparr>m_pstate := 0\<rparr>)) = Inr m1
     \<and> el1_enter_thread T1 m1 = Inr m3 \<and> xr m3 30 = 130 \<and> m_pc m3 = 0x8000 \<and> sp_el0 (kern m3) = 0x4000"
proof -
  let ?m = "(sample_machine sample_interrupted 0)\<lparr>m_pstate := 0\<rparr>"
  obtain m1 where "kernel_irq (\<lambda>_. 0) (exception_to_el1 ?m) = Inr m1"
    by (rule sample_irq [of "exception_to_el1 ?m" "\<lambda>_. 0"]) (simp_all add: exception_to_el1_def)
  then show ?thesis
    using interrupt_is_transparent [of ?m T1 "\<lambda>_. 0" m1 m1] by (auto simp: sample_machine_def)
qed

theorem guest_interrupt_is_transparent_witness:
  "\<exists>m1 m3. kernel_irq (\<lambda>_. 0) (REDIRECT_INTERRUPT_TO_SECURE_EL1 0x480 (exception_to_el3 (sample_machine sample_interrupted 1))) = Inr m1
     \<and> el1_enter_thread T1 (m1\<lparr>kern := (kern m1)\<lparr>runnable := T1\<rparr>\<rparr>) = Inr m3 \<and> xr m3 30 = 130 \<and> m_pc m3 = 0x8000"
proof -
  let ?m = "sample_machine sample_interrupted 1"
  let ?e = "REDIRECT_INTERRUPT_TO_SECURE_EL1 0x480 (exception_to_el3 ?m)"
  have "kern ?e = (kern ?m)\<lparr>sysregs := (sysregs (kern ?m))(runnable (kern ?m) := vm_state_of (exception_to_el3 ?m)),
      ttbr0_el1 := tt_l1_address (kern ?m)\<rparr>"
    by (simp add: REDIRECT_INTERRUPT_TO_SECURE_EL1_def Let_def restore_secure_effect toggle_security_def eret_el3_def
        exception_to_el3_def)
  then have "runnable (kern ?e) = T1" "interrupt_thread (kern ?e) = T4" "threads (kern ?e) = threads sample_interrupted"
    by simp_all
  then obtain m1 where m1: "kernel_irq (\<lambda>_. 0) ?e = Inr m1" by (rule sample_irq [of ?e "\<lambda>_. 0"])
  let ?m2 = "m1\<lparr>kern := (kern m1)\<lparr>runnable := T1\<rparr>\<rparr>"
  have f: "T1 \<noteq> 0xfffffffffe1feb80" "drop_bit 32 (m_pstate ?m) = 0" "vm_mode (ucast (m_pstate ?m))"
    "ucast (m_pstate ?m) AND 15 \<noteq> (0xd :: u32)" "\<not> vm_mode (spsr (threads (kern ?m) T4))" "xr ?m 30 = 130"
    by (simp_all add: sample_machine_def T1_def vm_mode_def drop_bit_eq_div sample_thread_def)
  have g: "\<not> bit (scr_el3 m1) 0 \<and> (\<exists>m3. el1_enter_thread T1 x = Inr m3 \<and> xr m3 30 = 130 \<and> m_pc m3 = 0x8000)"
    if "kern x = (kern m1)\<lparr>runnable := T1\<rparr>" "\<not> bit (scr_el3 x) 0" for x
    using guest_interrupt_is_transparent [of ?m T1 "\<lambda>_. 0" m1 x] m1 f that by auto
  then have "\<not> bit (scr_el3 m1) 0" using g [of "?m2\<lparr>scr_el3 := 0\<rparr>"] by simp
  then show ?thesis using g [of ?m2] m1 by auto
qed

end
