(* ===== verification/Mailbox.thy ===== *)
theory Mailbox
  imports Prelude "HOL-Library.Multiset"
begin

text \<open>
  The board's mailboxes: \<^verbatim>\<open>drivers/pi3gpu/mailbox.c\<close>, which passes messages of the GPU to the clients of sixteen
  channels, and \<^verbatim>\<open>drivers/pi3gpu/mailbox_properties.c\<close>, a client that keeps the requests the GPU has not answered yet in
  a ring of 64 entries.

  What the device registers return is an argument: the value read from \<^verbatim>\<open>config\<close>, the messages that the
  reads of \<^verbatim>\<open>status\<close> and \<^verbatim>\<open>value\<close> find in the queue, and the values of the status of the
  outgoing mailbox.  Writes to the configuration are kept as a component, and calls of the kernel and of other drivers
  are logged in the order in which they are made.  The locks make the operations of a provider atomic; how they
  work is the subject of the theories of the locks and of the driver library.
\<close>

section \<open>Channels\<close>

datatype mbox_call =
    Wake u32              \<comment> \<open>\<^verbatim>\<open>wake_thread\<close>\<close>
  | Await                 \<comment> \<open>\<^verbatim>\<open>wait_until_woken\<close>\<close>
  | Sleep u64             \<comment> \<open>\<^verbatim>\<open>sleep_ms\<close>\<close>
  | Post u32              \<comment> \<open>a write to the outgoing mailbox\<close>
  | Incoming u64 u32      \<comment> \<open>\<^verbatim>\<open>GPU_MAILBOX_CLIENT__incoming_message\<close>\<close>

record mailbox_channel =
  waiting_thread :: u32
  received_message :: u32
  mb_client :: u64

record mailboxes =
  channels :: "nat \<Rightarrow> mailbox_channel"
  blocking_message :: u32
  blocked_sending_thread :: u64
  pump_thread :: u32
  last_channel :: nat
  mailbox_config :: u32
  calls :: "mbox_call list"

definition upd_channel :: "nat \<Rightarrow> (mailbox_channel \<Rightarrow> mailbox_channel) \<Rightarrow> mailboxes \<Rightarrow> mailboxes" where
  "upd_channel c f s = s\<lparr>channels := (channels s)(c := f (channels s c))\<rparr>"

definition log_call :: "mbox_call \<Rightarrow> mailboxes \<Rightarrow> mailboxes" where
  "log_call e s = s\<lparr>calls := calls s @ [e]\<rparr>"

definition channel_of :: "u32 \<Rightarrow> nat" where
  "channel_of message = unat (message AND 0xf)"

section \<open>The interrupt handler\<close>

definition deliver :: "u32 \<Rightarrow> mailboxes \<Rightarrow> mailboxes" where
  "deliver message s =
    (let channel = channel_of message;
         s = upd_channel channel (\<lambda>c. c\<lparr>received_message := message AND NOT 0xf\<rparr>) s
     in log_call (Wake (waiting_thread (channels s channel))) s)"

definition deliver_blocked :: "mailboxes \<Rightarrow> mailboxes result" where
  "deliver_blocked s =
    (if blocking_message s \<noteq> 0 then
       (if received_message (channels s (channel_of (blocking_message s))) = 0
        then Inr ((deliver (blocking_message s) s)\<lparr>blocking_message := 0\<rparr>)
        else Inl (BRK 4))
     else Inr s)"

text \<open>The first argument is what the queue holds, and the first component of the result what is left in it.\<close>

fun receive_loop :: "u32 list \<Rightarrow> mailboxes \<Rightarrow> (u32 list \<times> mailboxes) result" where
  "receive_loop [] s = Inr ([], s)"
| "receive_loop (message # fifo) s =
    (let channel = channel_of message in
     if waiting_thread (channels s channel) = 0 then Inl (BRK 8)
     else if received_message (channels s channel) = 0 then receive_loop fifo (deliver message s)
     else Inr (fifo, s\<lparr>blocking_message := message\<rparr>))"

definition mailbox_interrupt :: "u32 \<Rightarrow> u32 list \<Rightarrow> mailboxes \<Rightarrow> (u32 list \<times> mailboxes) result" where
  "mailbox_interrupt mailbox0_pending fifo s =
    rbind (if mailbox0_pending AND 0x10 \<noteq> 0 then
             rbind (deliver_blocked s) (\<lambda>s. rbind (receive_loop fifo s) (\<lambda>(fifo, s).
               Inr (fifo, if blocking_message s \<noteq> 0 then s\<lparr>mailbox_config := 0\<rparr> else s)))
           else Inr (fifo, s)) (\<lambda>(fifo, s).
      Inr (fifo, if blocked_sending_thread s \<noteq> 0 then log_call (Wake (ucast (blocked_sending_thread s))) s else s))"

section \<open>The thread that passes messages on\<close>

definition pump_channel :: "u32 \<Rightarrow> mailboxes \<Rightarrow> nat option" where
  "pump_channel this_thread s =
    find (\<lambda>c. waiting_thread (channels s c) = this_thread \<and> received_message (channels s c) \<noteq> 0)
      (map (\<lambda>i. (last_channel s + i) mod 16) [0..<17])"

definition pump_one :: "u32 \<Rightarrow> mailboxes \<Rightarrow> mailboxes" where
  "pump_one this_thread s =
    (case pump_channel this_thread s of
       None \<Rightarrow> s
     | Some c \<Rightarrow>
         (let message = received_message (channels s c);
              s = upd_channel c (\<lambda>c. c\<lparr>received_message := 0\<rparr>) s;
              s = log_call (Incoming (mb_client (channels s c)) message) s;
              s = s\<lparr>last_channel := c\<rparr>
          in if blocking_message s \<noteq> 0 then s\<lparr>mailbox_config := 1\<rparr> else s))"

text \<open>One round of the endless loop; \<open>woken\<close> is what the call of the gate returns.  The number of messages is an \<^verbatim>\<open>int\<close>.\<close>

definition message_pump :: "u64 \<Rightarrow> u32 \<Rightarrow> mailboxes \<Rightarrow> mailboxes" where
  "message_pump woken this_thread s =
    (let messages = sint (ucast (woken + 1) :: u32) in (pump_one this_thread ^^ nat messages) (log_call Await s))"

section \<open>The operations of the manager and of a channel\<close>

definition claim_channel :: "u64 \<Rightarrow> nat result" where
  "claim_channel channel = (if channel > 15 then Inl (SMC 4) else Inr (unat channel))"

text \<open>\<open>created\<close> is the thread the kernel creates if one is needed.\<close>

definition register_client :: "nat \<Rightarrow> u64 \<Rightarrow> u32 \<Rightarrow> mailboxes \<Rightarrow> mailboxes result" where
  "register_client channel client created s =
    (if mb_client (channels s channel) \<noteq> 0 then Inl (SMC 4)
     else if waiting_thread (channels s channel) \<noteq> 0 then Inl (SMC 4)
     else
       (let s = upd_channel channel (\<lambda>c. c\<lparr>mb_client := client\<rparr>) s;
            s = (if pump_thread s = 0 then s\<lparr>pump_thread := created\<rparr> else s)
        in Inr (upd_channel channel (\<lambda>c. c\<lparr>waiting_thread := pump_thread s\<rparr>) s)))"

text \<open>The loop ends with the first status without bit 31; without one it does not end.\<close>

fun wait_for_room :: "u32 \<Rightarrow> u32 list \<Rightarrow> mailboxes \<Rightarrow> mailboxes result" where
  "wait_for_room this_thread [] s = Inl HANG"
| "wait_for_room this_thread (status # later) s =
    (if status AND 0x80000000 \<noteq> 0
     then wait_for_room this_thread later (log_call (Sleep 10) (s\<lparr>blocked_sending_thread := ucast this_thread\<rparr>))
     else Inr s)"

definition queue_message :: "u32 \<Rightarrow> nat \<Rightarrow> u64 \<Rightarrow> u32 list \<Rightarrow> mailboxes \<Rightarrow> mailboxes result" where
  "queue_message this_thread channel message status s =
    (if mb_client (channels s channel) = 0 then Inl (SMC 4)
     else rbind (wait_for_room this_thread status (s\<lparr>mailbox_config := 1\<rparr>)) (\<lambda>s.
       let s = s\<lparr>blocked_sending_thread := 0\<rparr>;
           s = log_call Await (log_call (Wake this_thread) s)
       in Inr (log_call (Post (ucast (message OR of_nat channel))) s)))"

section \<open>Requests by property tags\<close>

record outstanding_request =
  pa :: u32
  requesting_thread :: u32

record tag_requests =
  outstanding_requests :: "nat \<Rightarrow> outstanding_request"
  requests_head :: nat
  requests_tail :: nat
  blocked_thread :: u32
  tag_calls :: "mbox_call list"

definition next_outstanding_request :: "nat \<Rightarrow> nat" where
  "next_outstanding_request n = (n + 1) mod 64"

definition upd_request :: "nat \<Rightarrow> outstanding_request \<Rightarrow> tag_requests \<Rightarrow> tag_requests" where
  "upd_request i r s = s\<lparr>outstanding_requests := (outstanding_requests s)(i := r)\<rparr>"

definition tag_call :: "mbox_call \<Rightarrow> tag_requests \<Rightarrow> tag_requests" where
  "tag_call e s = s\<lparr>tag_calls := tag_calls s @ [e]\<rparr>"

text \<open>The search for the request of a message.\<close>

definition answers :: "u64 \<Rightarrow> outstanding_request \<Rightarrow> bool" where
  "answers message r \<longleftrightarrow> requesting_thread r \<noteq> 0 \<and> ucast (pa r) = message"

partial_function (option) find_request :: "u64 \<Rightarrow> tag_requests \<Rightarrow> nat \<Rightarrow> nat option option" where
  "find_request message s i =
    (if i = requests_head s then Some None
     else if answers message (outstanding_requests s i) then Some (Some i)
     else find_request message s (next_outstanding_request i))"

definition remove_request :: "nat \<Rightarrow> tag_requests \<Rightarrow> tag_requests" where
  "remove_request i s =
    (let thread = requesting_thread (outstanding_requests s i);
         s = tag_call (Wake thread) s;
         s = (if i \<noteq> requests_tail s then upd_request i (outstanding_requests s (requests_tail s)) s else s);
         s = upd_request (requests_tail s) \<lparr>pa = 0, requesting_thread = 0\<rparr> s;
         s = s\<lparr>requests_tail := next_outstanding_request (requests_tail s)\<rparr>
     in if blocked_thread s \<noteq> 0 then
          (let thread = blocked_thread s; s = s\<lparr>blocked_thread := 0\<rparr> in tag_call (Wake thread) s)
        else s)"

definition incoming_message :: "u64 \<Rightarrow> tag_requests \<Rightarrow> tag_requests result" where
  "incoming_message message s =
    (case find_request message s (requests_tail s) of
       None \<Rightarrow> Inl HANG
     | Some None \<Rightarrow> Inl (BRK 5)
     | Some (Some i) \<Rightarrow> Inr (remove_request i s))"

text \<open>A request up to the point where its thread may have to wait for an entry, and from there to the message.\<close>

definition list_full :: "tag_requests \<Rightarrow> bool" where
  "list_full s \<longleftrightarrow> requests_tail s = next_outstanding_request (requests_head s)"

definition tag_request_start :: "u32 \<Rightarrow> tag_requests \<Rightarrow> bool \<times> tag_requests" where
  "tag_request_start this_thread s =
    (if list_full s then (True, tag_call Await (s\<lparr>blocked_thread := this_thread\<rparr>)) else (False, s))"

definition tag_request_enter :: "u32 \<Rightarrow> u64 \<Rightarrow> tag_requests \<Rightarrow> tag_requests" where
  "tag_request_enter this_thread address s =
    (let s = upd_request (requests_head s) \<lparr>pa = ucast address, requesting_thread = this_thread\<rparr> s
     in s\<lparr>requests_head := next_outstanding_request (requests_head s)\<rparr>)"

text \<open>The first request claims the channel of the property tags; \<open>opened\<close> tells whether this has been done.\<close>

definition tag_request_open :: "bool \<Rightarrow> u64 \<Rightarrow> u32 \<Rightarrow> mailboxes \<Rightarrow> mailboxes result" where
  "tag_request_open opened client created s =
    (if opened then Inr s else rbind (claim_channel 8) (\<lambda>channel. register_client channel client created s))"

definition tag_request_send :: "u32 \<Rightarrow> u64 \<Rightarrow> u32 list \<Rightarrow> mailboxes \<Rightarrow> mailboxes result" where
  "tag_request_send this_thread address status s =
    rbind (queue_message this_thread 8 address status s) (\<lambda>s. Inr (log_call Await s))"

section \<open>Messages on their way\<close>

definition payload_of :: "u32 \<Rightarrow> u32" where "payload_of message = message AND NOT 0xf"

definition in_box :: "nat \<Rightarrow> mailboxes \<Rightarrow> u32 list" where
  "in_box c s = (if received_message (channels s c) \<noteq> 0 then [received_message (channels s c)] else [])"

definition held_back :: "nat \<Rightarrow> mailboxes \<Rightarrow> u32 list" where
  "held_back c s =
    (if blocking_message s \<noteq> 0 \<and> channel_of (blocking_message s) = c then [payload_of (blocking_message s)] else [])"

definition payloads :: "nat \<Rightarrow> u32 list \<Rightarrow> u32 list" where
  "payloads c ms = map payload_of (filter (\<lambda>m. channel_of m = c) ms)"

text \<open>The messages for channel \<open>c\<close> that its client has not been given yet, in the order of their arrival.\<close>

definition undelivered :: "nat \<Rightarrow> u32 list \<Rightarrow> mailboxes \<Rightarrow> u32 list" where
  "undelivered c fifo s = in_box c s @ held_back c s @ payloads c fifo"

definition proper :: "mailboxes \<Rightarrow> bool" where
  "proper s \<longleftrightarrow> blocking_message s \<noteq> 0 \<longrightarrow> payload_of (blocking_message s) \<noteq> 0"

lemma deliver_effect:
  assumes "received_message (channels s (channel_of m)) = 0" and "payload_of m \<noteq> 0"
  shows "in_box c (deliver m s) = (if c = channel_of m then [payload_of m] else in_box c s)"
    and "blocking_message (deliver m s) = blocking_message s"
    and "blocked_sending_thread (deliver m s) = blocked_sending_thread s"
    and "waiting_thread (channels (deliver m s) d) = waiting_thread (channels s d)"
    and "mb_client (channels (deliver m s) d) = mb_client (channels s d)"
  using assms
  by (auto simp: deliver_def Let_def log_call_def upd_channel_def in_box_def payload_of_def)

lemma receive_loop_keeps:
  assumes "receive_loop fifo s = Inr (fifo', s')" and "blocking_message s = 0" and "\<forall>m\<in>set fifo. payload_of m \<noteq> 0"
  shows "undelivered c fifo' s' = undelivered c fifo s \<and> proper s' \<and> set fifo' \<subseteq> set fifo"
  using assms
proof (induction fifo s rule: receive_loop.induct)
  case (1 s)
  then show ?case by (simp add: proper_def)
next
  case (2 m fifo s)
  show ?case
  proof (cases "received_message (channels s (channel_of m)) = 0")
    case True
    note d = deliver_effect [OF True]
    have "undelivered c fifo' s' = undelivered c fifo (deliver m s) \<and> proper s' \<and> set fifo' \<subseteq> set fifo"
      using 2 True d(2) by (auto simp: Let_def split: if_splits)
    moreover have "undelivered c fifo (deliver m s) = undelivered c (m # fifo) s"
      using d True 2(3,4) by (auto simp: undelivered_def held_back_def payloads_def in_box_def)
    ultimately show ?thesis by auto
  next
    case False
    then have "fifo' = fifo" "s' = s\<lparr>blocking_message := m\<rparr>" using 2(2) by (auto simp: Let_def split: if_splits)
    moreover have "m \<noteq> 0" using 2(4) by (auto simp: payload_of_def)
    ultimately show ?thesis
      using 2(3,4) by (auto simp: undelivered_def held_back_def payloads_def in_box_def proper_def)
  qed
qed

lemma deliver_blocked_keeps:
  assumes "deliver_blocked s = Inr s'" and "proper s"
  shows "undelivered c fifo s' = undelivered c fifo s" and "blocking_message s' = 0"
proof -
  have "undelivered c fifo s' = undelivered c fifo s \<and> blocking_message s' = 0"
  proof (cases "blocking_message s = 0")
    case True
    then show ?thesis using assms by (simp add: deliver_blocked_def)
  next
    case False
    then have r: "received_message (channels s (channel_of (blocking_message s))) = 0"
      and s': "s' = (deliver (blocking_message s) s)\<lparr>blocking_message := 0\<rparr>"
      using assms by (auto simp: deliver_blocked_def split: if_splits)
    have p: "payload_of (blocking_message s) \<noteq> 0" using assms(2) False by (simp add: proper_def)
    have "in_box c s' = in_box c (deliver (blocking_message s) s)" by (simp add: s' in_box_def)
    then have "in_box c s' = (if c = channel_of (blocking_message s) then [payload_of (blocking_message s)] else in_box c s)"
      by (simp add: deliver_effect(1) [OF r p])
    then show ?thesis using r False by (auto simp: s' undelivered_def held_back_def in_box_def)
  qed
  then show "undelivered c fifo s' = undelivered c fifo s" "blocking_message s' = 0" by simp_all
qed

lemma undelivered_frame [simp]:
  "undelivered c fifo (log_call e s) = undelivered c fifo s" "proper (log_call e s) = proper s"
  "undelivered c fifo (s\<lparr>mailbox_config := v\<rparr>) = undelivered c fifo s" "proper (s\<lparr>mailbox_config := v\<rparr>) = proper s"
  "undelivered c fifo (s\<lparr>blocked_sending_thread := t\<rparr>) = undelivered c fifo s"
  "proper (s\<lparr>blocked_sending_thread := t\<rparr>) = proper s"
  by (simp_all add: undelivered_def in_box_def held_back_def log_call_def proper_def)

lemma interrupt_keeps:
  assumes "mailbox_interrupt pending fifo s = Inr (fifo', s')" and "proper s" and "\<forall>m\<in>set fifo. payload_of m \<noteq> 0"
  shows "undelivered c fifo' s' = undelivered c fifo s \<and> proper s' \<and> set fifo' \<subseteq> set fifo"
proof (cases "pending AND 0x10 = 0")
  case True
  then show ?thesis using assms by (auto simp: mailbox_interrupt_def split: if_splits)
next
  case False
  then obtain s1 s2 where s1: "deliver_blocked s = Inr s1" and s2: "receive_loop fifo s1 = Inr (fifo', s2)"
    and s': "undelivered c fifo' s' = undelivered c fifo' s2 \<and> proper s' = proper s2"
    using assms(1) by (auto simp: mailbox_interrupt_def rbind_Inr_iff split: if_splits)
  show ?thesis
    using receive_loop_keeps [OF s2 _ assms(3), of c] deliver_blocked_keeps(1) [OF s1 assms(2), of c fifo]
      deliver_blocked_keeps(2) [OF s1 assms(2)] s' by simp
qed

lemma pump_channelD:
  assumes "pump_channel th s = Some c"
  shows "c < 16 \<and> waiting_thread (channels s c) = th \<and> received_message (channels s c) \<noteq> 0"
  using assms by (auto simp: pump_channel_def find_Some_iff)

lemma pump_channel_None:
  assumes "c < 16" and "waiting_thread (channels s c) = th" and "received_message (channels s c) \<noteq> 0"
  shows "pump_channel th s \<noteq> None"
proof
  assume "pump_channel th s = None"
  then have n: "\<And>i. i < 17 \<Longrightarrow> \<not> (waiting_thread (channels s ((last_channel s + i) mod 16)) = th
      \<and> received_message (channels s ((last_channel s + i) mod 16)) \<noteq> 0)"
    by (auto simp: pump_channel_def find_None_iff)
  let ?i = "(c + 16 - last_channel s mod 16) mod 16"
  have "last_channel s mod 16 \<le> 15" by simp
  then have "last_channel s mod 16 + (c + 16 - last_channel s mod 16) = c + 16" by linarith
  then have "(last_channel s + ?i) mod 16 = (c + 16) mod 16" by (metis mod_add_left_eq mod_add_right_eq)
  then have "(last_channel s + ?i) mod 16 = c" using assms(1) by simp
  moreover have "?i < 17" using mod_less_divisor [of 16 "c + 16 - last_channel s mod 16"] by linarith
  ultimately show False using n [of ?i] assms(2,3) by metis
qed

lemma pump_one_keeps:
  assumes "pump_channel th s = Some c"
  shows "undelivered d fifo s = (if d = c then [received_message (channels s c)] else []) @ undelivered d fifo (pump_one th s)"
    and "proper (pump_one th s) = proper s"
  using pump_channelD [OF assms] assms
  by (auto simp: pump_one_def Let_def undelivered_def in_box_def held_back_def upd_channel_def log_call_def proper_def)

lemma wait_for_room_keeps:
  "wait_for_room th st s = Inr s' \<Longrightarrow> undelivered c fifo s' = undelivered c fifo s \<and> proper s' = proper s"
  by (induction th st s rule: wait_for_room.induct) (auto split: if_splits)

lemma queue_message_keeps:
  assumes "queue_message th ch m st s = Inr s'"
  shows "undelivered c fifo s' = undelivered c fifo s \<and> proper s' = proper s"
  using assms wait_for_room_keeps [of th st "s\<lparr>mailbox_config := 1\<rparr>" _ c fifo]
  by (auto simp: queue_message_def Let_def elim!: rbind_InrE split: if_splits)

lemma undelivered_cong:
  assumes "\<And>d. received_message (channels s d) = received_message (channels t d)" and "blocking_message s = blocking_message t"
  shows "undelivered c fifo s = undelivered c fifo t \<and> proper s = proper t"
  using assms by (simp add: undelivered_def in_box_def held_back_def proper_def)

lemma register_client_keeps:
  assumes "register_client ch cl th s = Inr s'"
  shows "undelivered c fifo s' = undelivered c fifo s \<and> proper s' = proper s"
proof (rule undelivered_cong)
  show "received_message (channels s' d) = received_message (channels s d)" for d
    using assms by (simp add: register_client_def Let_def upd_channel_def split: if_splits) force+
  show "blocking_message s' = blocking_message s"
    using assms by (simp add: register_client_def Let_def upd_channel_def split: if_splits) force+
qed

section \<open>Runs of the mailbox\<close>

text \<open>The GPU puts messages into the queue.  An interrupt is raised while the queue is not empty and the configuration
  asks for it, and then the configuration reads as not empty.  The thread of a channel takes a message, and
  the operations of the driver are called, all in any order.  The first two arguments are the messages that
  arrived and the messages that were passed to clients.\<close>

inductive mailbox_run :: "u32 list \<Rightarrow> (nat \<times> u32) list \<Rightarrow> u32 list \<Rightarrow> mailboxes \<Rightarrow> bool" where
  start: "(\<And>c. received_message (channels s c) = 0) \<Longrightarrow> blocking_message s = 0 \<Longrightarrow> mailbox_run [] [] [] s"
| arrival: "mailbox_run a d fifo s \<Longrightarrow> payload_of m \<noteq> 0 \<Longrightarrow> mailbox_run (a @ [m]) d (fifo @ [m]) s"
| interrupt: "mailbox_run a d fifo s \<Longrightarrow> fifo \<noteq> [] \<Longrightarrow> mailbox_config s AND 1 \<noteq> 0
    \<Longrightarrow> mailbox_interrupt 0x11 fifo s = Inr (fifo', s') \<Longrightarrow> mailbox_run a d fifo' s'"
| pump: "mailbox_run a d fifo s \<Longrightarrow> pump_channel th s = Some c
    \<Longrightarrow> mailbox_run a (d @ [(c, received_message (channels s c))]) fifo (pump_one th s)"
| register: "mailbox_run a d fifo s \<Longrightarrow> register_client c client th s = Inr s' \<Longrightarrow> mailbox_run a d fifo s'"
| queue: "mailbox_run a d fifo s \<Longrightarrow> queue_message th c m status s = Inr s' \<Longrightarrow> mailbox_run a d fifo s'"

definition passed_on :: "nat \<Rightarrow> (nat \<times> u32) list \<Rightarrow> u32 list" where
  "passed_on c d = map snd (filter (\<lambda>(e, m). e = c) d)"

lemma payloads_append [simp]: "payloads c (xs @ ys) = payloads c xs @ payloads c ys"
  by (simp add: payloads_def)

lemma mailbox_run_invariant:
  "mailbox_run a d fifo s \<Longrightarrow> (\<forall>c. payloads c a = passed_on c d @ undelivered c fifo s)
     \<and> proper s \<and> (\<forall>m\<in>set fifo. payload_of m \<noteq> 0)"
proof (induction rule: mailbox_run.induct)
  case (start s)
  then show ?case by (simp add: payloads_def passed_on_def undelivered_def in_box_def held_back_def proper_def)
next
  case (arrival a d fifo s m)
  then show ?case by (auto simp: undelivered_def)
next
  case (interrupt a d fifo s fifo' s')
  have "undelivered c fifo' s' = undelivered c fifo s \<and> proper s' \<and> set fifo' \<subseteq> set fifo" for c
    using interrupt_keeps [OF interrupt.hyps(4)] interrupt.IH by blast
  then show ?case using interrupt.IH by (simp add: subset_iff)
next
  case (pump a d fifo s th c)
  have "payloads e a = passed_on e (d @ [(c, received_message (channels s c))]) @ undelivered e fifo (pump_one th s)" for e
    using pump.IH pump_one_keeps(1) [OF pump.hyps(2), of e fifo] by (auto simp: passed_on_def)
  then show ?case using pump.IH pump_one_keeps(2) [OF pump.hyps(2)] by simp
next
  case (register a d fifo s c client th s')
  then show ?case using register_client_keeps by metis
next
  case (queue a d fifo s th c m status s')
  then show ?case using queue_message_keeps by metis
qed


text \<open>A channel with a client, and the messages of the examples.\<close>

definition sample_mailboxes :: mailboxes where
  "sample_mailboxes =
    \<lparr>channels = (\<lambda>c. if c = 8 then \<lparr>waiting_thread = 7, received_message = 0, mb_client = 5\<rparr>
       else \<lparr>waiting_thread = 0, received_message = 0, mb_client = 0\<rparr>),
     blocking_message = 0, blocked_sending_thread = 0, pump_thread = 7, last_channel = 0, mailbox_config = 1, calls = []\<rparr>"

lemma sample_mailboxes_run: "mailbox_run [] [] [] sample_mailboxes"
  by (rule mailbox_run.start) (simp_all add: sample_mailboxes_def)

lemmas mailbox_simps = mailbox_interrupt_def deliver_blocked_def deliver_def log_call_def upd_channel_def channel_of_def
  payload_of_def pump_channel_def pump_one_def sample_mailboxes_def in_box_def held_back_def passed_on_def

definition sample_blocked :: mailboxes where
  "sample_blocked = sample_mailboxes
    \<lparr>channels := (channels sample_mailboxes)(8 := \<lparr>waiting_thread = 7, received_message = 0x100, mb_client = 5\<rparr>),
     blocking_message := 0x208, mailbox_config := 0, calls := [Wake 7]\<rparr>"

lemma sample_blocked_run:
  "mailbox_run [0x108, 0x208] [] [] sample_blocked" "mailbox_run [0x108, 0x208, 0x308] [] [0x308] sample_blocked"
proof -
  have r: "mailbox_run [0x108, 0x208] [] [0x108, 0x208] sample_mailboxes"
    using mailbox_run.arrival [OF mailbox_run.arrival [OF sample_mailboxes_run, of "0x108"], of "0x208"]
    by (simp add: payload_of_def)
  have "mailbox_interrupt 0x11 [0x108, 0x208] sample_mailboxes = Inr ([], sample_blocked)"
    by (simp add: mailbox_simps sample_blocked_def)
  then show b: "mailbox_run [0x108, 0x208] [] [] sample_blocked"
    by (rule mailbox_run.interrupt [OF r, rotated 2]) (simp_all add: sample_mailboxes_def)
  show "mailbox_run [0x108, 0x208, 0x308] [] [0x308] sample_blocked"
    using mailbox_run.arrival [OF b, of "0x308"] by (simp add: payload_of_def)
qed


text \<open>A message can be stranded: two messages for one channel arrive before its client takes the first, the interrupt
  handler holds the second one back, and after the first was taken the queue is empty, so that
  no interrupt delivers the second one until some other message arrives: the client's box is empty, no thread has anything to do.\<close>

theorem held_back_message_is_stranded:
  "\<exists>a d s. mailbox_run a d [] s \<and> held_back 8 s = [0x200] \<and> passed_on 8 d = [0x100] \<and> mailbox_config s = 1
     \<and> (\<forall>th. pump_one th s = s) \<and> (\<forall>pending. \<not> bit pending 4 \<longrightarrow> mailbox_interrupt pending [] s = Inr ([], s))"
proof -
  let ?s = "pump_one 7 sample_blocked"
  have p: "pump_channel 7 sample_blocked = Some 8"
    by (simp add: pump_channel_def sample_blocked_def sample_mailboxes_def upt_rec)
  have "mailbox_run [0x108, 0x208] ([] @ [(8, received_message (channels sample_blocked 8))]) [] ?s"
    by (rule mailbox_run.pump [OF sample_blocked_run(1) p])
  moreover have "?s = sample_blocked\<lparr>channels := channels sample_mailboxes, last_channel := 8, mailbox_config := 1,
      calls := [Wake 7, Incoming 5 0x100]\<rparr>"
    unfolding pump_one_def p
    by (simp add: upd_channel_def log_call_def sample_blocked_def sample_mailboxes_def fun_eq_iff)
  then have f: "blocked_sending_thread ?s = 0" "blocking_message ?s = 0x208" "mailbox_config ?s = 1"
    "channels ?s = channels sample_mailboxes"
    by (simp_all add: sample_blocked_def sample_mailboxes_def)
  have n: "pump_channel th ?s = None" for th
    using f(4) by (auto simp: pump_channel_def sample_mailboxes_def find_None_iff)
  moreover have "mailbox_interrupt pending [] ?s = Inr ([], ?s)" if "\<not> bit pending 4" for pending
  proof -
    have "pending AND 0x10 = 0" using that by (simp add: and_exp_eq_0_iff_not_bit [of _ 4, simplified])
    then show ?thesis using f(1) by (simp add: mailbox_interrupt_def)
  qed
  moreover have "held_back 8 ?s = [0x200]" using f(2) by (simp add: held_back_def channel_of_def payload_of_def)
  moreover have "passed_on 8 ([] @ [(8, received_message (channels sample_blocked 8))]) = [0x100]"
    by (simp add: passed_on_def sample_blocked_def)
  moreover have "pump_one th ?s = ?s" for th using n [of th] by (simp add: pump_one_def [of th ?s])
  ultimately show ?thesis using f(3) by blast
qed

text \<open>The interrupt handler stops in the branch its comment asks about (\<^verbatim>\<open>How?\<close>): while a message is held back, sending
  any message on a channel enables the interrupt again, and the next message in the queue raises it before the client has taken the
  first one.\<close>

theorem sending_while_blocked_stops:
  "\<exists>a d fifo s s'. mailbox_run a d fifo s \<and> queue_message 7 8 0x4000 [0] s = Inr s' \<and> mailbox_run a d fifo s'
     \<and> fifo \<noteq> [] \<and> mailbox_config s' AND 1 \<noteq> 0 \<and> mailbox_interrupt 0x11 fifo s' = Inl (BRK 4)"
proof -
  let ?s = "sample_blocked\<lparr>mailbox_config := 1, calls := [Wake 7, Wake 7, Await, Post 0x4008]\<rparr>"
  have q: "queue_message 7 8 0x4000 [0] sample_blocked = Inr ?s"
    by (simp add: queue_message_def Let_def log_call_def sample_blocked_def sample_mailboxes_def)
  moreover have "mailbox_interrupt 0x11 [0x308] ?s = Inl (BRK 4)"
    by (simp add: mailbox_simps sample_blocked_def)
  ultimately show ?thesis
    using sample_blocked_run(2) mailbox_run.queue [OF sample_blocked_run(2) q]
    by (intro exI [of _ "[0x108, 0x208, 0x308]"] exI [of _ "[]"] exI [of _ "[0x308]"] exI [of _ sample_blocked] exI [of _ ?s])
      simp
qed

section \<open>The ring of outstanding requests\<close>

definition ring_ok :: "tag_requests \<Rightarrow> bool" where
  "ring_ok s \<longleftrightarrow> requests_head s < 64 \<and> requests_tail s < 64"

definition ring_length :: "tag_requests \<Rightarrow> nat" where
  "ring_length s = (requests_head s + 64 - requests_tail s) mod 64"

definition slot :: "tag_requests \<Rightarrow> nat \<Rightarrow> nat" where
  "slot s j = (requests_tail s + j) mod 64"

definition ring_list :: "tag_requests \<Rightarrow> outstanding_request list" where
  "ring_list s = map (\<lambda>j. outstanding_requests s (slot s j)) [0..<ring_length s]"

lemma length_ring_list [simp]: "length (ring_list s) = ring_length s"
  by (simp add: ring_list_def)

lemma ring_list_nth [simp]: "j < ring_length s \<Longrightarrow> ring_list s ! j = outstanding_requests s (slot s j)"
  by (simp add: ring_list_def)

lemma ring_length_less: "ring_length s < 64"
  by (simp add: ring_length_def)

lemma mod_64: "(n :: nat) < 128 \<Longrightarrow> n mod 64 = (if n < 64 then n else n - 64)"
  by (simp add: mod_if)

lemma ring_length_if:
  "ring_ok s \<Longrightarrow> ring_length s =
    (if requests_tail s \<le> requests_head s then requests_head s - requests_tail s else requests_head s + 64 - requests_tail s)"
  using mod_64 [of "requests_head s + 64 - requests_tail s"] by (auto simp: ring_ok_def ring_length_def)

lemma slot_if:
  "ring_ok s \<Longrightarrow> j \<le> 64 \<Longrightarrow> slot s j = (if requests_tail s + j < 64 then requests_tail s + j else requests_tail s + j - 64)"
  by (simp add: ring_ok_def slot_def mod_64)

lemma slot_head: "ring_ok s \<Longrightarrow> slot s (ring_length s) = requests_head s"
  using ring_length_less [of s] by (simp add: slot_if ring_length_if ring_ok_def)

lemma slot_zero: "ring_ok s \<Longrightarrow> slot s 0 = requests_tail s"
  by (simp add: ring_ok_def slot_def)

lemma slot_less [simp]: "slot s j < 64"
  by (simp add: slot_def)

lemma slot_Suc: "next_outstanding_request (slot s j) = slot s (Suc j)"
  by (simp add: next_outstanding_request_def slot_def mod_Suc_eq One_nat_def)

lemma slot_inj: "i < 64 \<Longrightarrow> j < 64 \<Longrightarrow> slot s i = slot s j \<longleftrightarrow> i = j"
proof -
  have "i = j" if "i < 64" "j < 64" "slot s i = slot s j" "i \<le> j" for i j
  proof -
    have "64 dvd (requests_tail s + j) - (requests_tail s + i)"
      using that by (metis mod_eq_dvd_iff_nat nat_add_left_cancel_le slot_def)
    then show "i = j" using that by (auto dest: dvd_imp_le)
  qed
  then show "i < 64 \<Longrightarrow> j < 64 \<Longrightarrow> slot s i = slot s j \<longleftrightarrow> i = j"
    by (metis nat_le_linear)
qed

lemma list_full_iff: "ring_ok s \<Longrightarrow> list_full s \<longleftrightarrow> ring_length s = 63"
  by (auto simp: ring_ok_def list_full_def ring_length_if next_outstanding_request_def mod_64)

lemma enter_ring:
  assumes "ring_ok s" and "\<not> list_full s"
  shows "ring_list (tag_request_enter th adr s) = ring_list s @ [\<lparr>pa = ucast adr, requesting_thread = th\<rparr>]"
    and "ring_ok (tag_request_enter th adr s)"
proof -
  let ?s = "tag_request_enter th adr s"
  have n: "ring_length s < 63" using assms ring_length_less [of s] list_full_iff [of s] by linarith
  have f: "requests_tail ?s = requests_tail s" "requests_head ?s = slot s (Suc (ring_length s))"
    "outstanding_requests ?s = (outstanding_requests s)(slot s (ring_length s) := \<lparr>pa = ucast adr, requesting_thread = th\<rparr>)"
    using slot_head [OF assms(1)] slot_Suc [of s "ring_length s"]
    by (simp_all add: tag_request_enter_def Let_def upd_request_def)
  have ok: "ring_ok ?s" using assms(1) by (simp add: ring_ok_def f)
  have l: "ring_length ?s = Suc (ring_length s)"
    using n assms(1) f(1,2) slot_if [OF assms(1), of "Suc (ring_length s)"] ring_length_if [OF ok] ring_length_if [OF assms(1)]
    by (simp add: ring_ok_def split: if_splits)
  have sl: "slot ?s = slot s" by (simp add: fun_eq_iff slot_def f(1))
  have "slot s j \<noteq> slot s (ring_length s)" if "j < ring_length s" for j
    using that n slot_inj [of j "ring_length s" s] by simp
  then show "ring_list ?s = ring_list s @ [\<lparr>pa = ucast adr, requesting_thread = th\<rparr>]"
    by (simp add: ring_list_def l sl f(3))
  show "ring_ok ?s" by (rule ok)
qed

lemma find_request_from:
  assumes "ring_ok s" and "j \<le> ring_length s"
  shows "find_request m s (slot s j) =
    Some (map_option (slot s) (find (\<lambda>k. answers m (outstanding_requests s (slot s k))) [j..<ring_length s]))"
  using assms(2)
proof (induction "ring_length s - j" arbitrary: j)
  case 0
  then have "slot s j = requests_head s" "j = ring_length s" using slot_head [OF assms(1)] by simp_all
  then show ?case by (simp add: find_request.simps [of m s "requests_head s"])
next
  case (Suc d)
  then have j: "j < ring_length s" by simp
  then have "slot s j \<noteq> requests_head s"
    using slot_inj [of j "ring_length s" s] slot_head [OF assms(1)] ring_length_less [of s] by simp
  then show ?case
    using Suc.hyps(1) [of "Suc j"] Suc.hyps(2) j slot_Suc [of s j]
    by (simp add: find_request.simps [of m s "slot s j"] upt_rec [of j])
qed

lemma remove_ring:
  assumes "ring_ok s" and "k < ring_length s"
  shows "ring_list (remove_request (slot s k) s) = tl ((ring_list s)[k := hd (ring_list s)])"
    and "ring_ok (remove_request (slot s k) s)" and "ring_length (remove_request (slot s k) s) = ring_length s - 1"
    and "blocked_thread (remove_request (slot s k) s) = 0"
    and "tag_calls (remove_request (slot s k) s) = tag_calls s @ Wake (requesting_thread (ring_list s ! k))
      # (if blocked_thread s \<noteq> 0 then [Wake (blocked_thread s)] else [])"
proof -
  let ?s = "remove_request (slot s k) s" and ?n = "ring_length s"
  have z: "slot s 0 = requests_tail s" by (rule slot_zero [OF assms(1)])
  have f: "requests_head ?s = requests_head s" "requests_tail ?s = slot s 1"
    "outstanding_requests ?s = (outstanding_requests s)
      (slot s k := outstanding_requests s (slot s 0), slot s 0 := \<lparr>pa = 0, requesting_thread = 0\<rparr>)"
    using slot_Suc [of s 0] z
    by (auto simp: remove_request_def Let_def upd_request_def tag_call_def One_nat_def)
  have ok: "ring_ok ?s" using assms(1) by (simp add: ring_ok_def f)
  have l: "ring_length ?s = ?n - 1"
    using f(1,2) assms slot_if [OF assms(1), of 1] ring_length_if [OF ok] ring_length_if [OF assms(1)]
    by (simp add: ring_ok_def split: if_splits)
  have sl: "slot ?s j = slot s (Suc j)" for j
    unfolding slot_def [of ?s] f(2) by (simp add: slot_def mod_add_left_eq One_nat_def)
  have "ring_list ?s ! j = tl ((ring_list s)[k := hd (ring_list s)]) ! j" if j: "j < ?n - 1" for j
  proof -
    have "slot s (Suc j) \<noteq> slot s 0" "slot s (Suc j) = slot s k \<longleftrightarrow> Suc j = k"
      using j assms(2) ring_length_less [of s] slot_inj [of "Suc j" 0 s] slot_inj [of "Suc j" k s] by simp_all
    then show ?thesis using j assms(2) by (auto simp: l sl f(3) nth_tl hd_conv_nth nth_list_update simp flip: length_greater_0_conv)
  qed
  then show "ring_list ?s = tl ((ring_list s)[k := hd (ring_list s)])"
    by (intro nth_equalityI) (simp_all add: l)
  show "ring_ok ?s" by (rule ok)
  show "ring_length ?s = ?n - 1" by (rule l)
  show "blocked_thread ?s = 0" by (simp add: remove_request_def Let_def tag_call_def)
  show "tag_calls ?s = tag_calls s @ Wake (requesting_thread (ring_list s ! k))
      # (if blocked_thread s \<noteq> 0 then [Wake (blocked_thread s)] else [])"
    using assms(2) by (simp add: remove_request_def Let_def tag_call_def upd_request_def)
qed

text \<open>The interface of a pool of requests: entering one while there is room, and removing one that is there.\<close>

locale request_pool =
  fixes ok :: "'s \<Rightarrow> bool" and pool :: "'s \<Rightarrow> 'r multiset" and full :: "'s \<Rightarrow> bool"
    and enter :: "'r \<Rightarrow> 's \<Rightarrow> 's" and remove :: "'k \<Rightarrow> 's \<Rightarrow> 's" and entry :: "'k \<Rightarrow> 's \<Rightarrow> 'r" and used :: "'k \<Rightarrow> 's \<Rightarrow> bool"
  assumes entered: "ok s \<Longrightarrow> \<not> full s \<Longrightarrow> ok (enter r s) \<and> pool (enter r s) = add_mset r (pool s)"
    and removed: "ok s \<Longrightarrow> used k s \<Longrightarrow> ok (remove k s) \<and> add_mset (entry k s) (pool (remove k s)) = pool s
      \<and> \<not> full (remove k s)"
begin

lemma balance_enter:
  assumes "ok s" and "\<not> full s" and "mset es = mset as + pool s"
  shows "mset (es @ [r]) = mset as + pool (enter r s)"
  using assms entered by simp

lemma balance_remove:
  assumes "ok s" and "used k s" and "mset es = mset as + pool s"
  shows "mset es = mset (as @ [entry k s]) + pool (remove k s)"
proof -
  have "pool s = add_mset (entry k s) (pool (remove k s))" using removed [OF assms(1,2)] by simp
  with assms(3) show ?thesis by simp
qed

end

definition enter_request :: "outstanding_request \<Rightarrow> tag_requests \<Rightarrow> tag_requests" where
  "enter_request r = tag_request_enter (requesting_thread r) (ucast (pa r))"

definition used_slot :: "nat \<Rightarrow> tag_requests \<Rightarrow> bool" where
  "used_slot i s \<longleftrightarrow> i \<in> slot s ` {..<ring_length s}"

lemma mset_move_head: "k < length xs \<Longrightarrow> add_mset (xs ! k) (mset (tl (xs[k := hd xs]))) = mset xs"
  by (cases xs; cases k) (auto simp: mset_update nth_Cons' multi_member_split)

interpretation ring: request_pool ring_ok "\<lambda>s. mset (ring_list s)" list_full enter_request remove_request
  "\<lambda>i s. outstanding_requests s i" used_slot
proof
  show "ring_ok (enter_request r s) \<and> mset (ring_list (enter_request r s)) = add_mset r (mset (ring_list s))"
    if "ring_ok s" "\<not> list_full s" for r s
    using enter_ring [OF that, of "requesting_thread r" "ucast (pa r)"] by (simp add: enter_request_def)
  show "ring_ok (remove_request i s) \<and> add_mset (outstanding_requests s i) (mset (ring_list (remove_request i s)))
      = mset (ring_list s) \<and> \<not> list_full (remove_request i s)" if s: "ring_ok s" "used_slot i s" for i s
  proof -
    obtain k where k: "k < ring_length s" "i = slot s k" using s(2) by (auto simp: used_slot_def)
    note r = remove_ring [OF s(1) k(1)]
    have "add_mset (ring_list s ! k) (mset (ring_list (remove_request i s))) = mset (ring_list s)"
      unfolding k(2) r(1) by (rule mset_move_head) (simp add: k(1))
    then show ?thesis using k r(2,3) list_full_iff [OF r(2)] ring_length_less [of s] by simp
  qed
qed

lemma incoming_ring:
  assumes "ring_ok s"
  shows "incoming_message m s =
    (case find (\<lambda>k. answers m (ring_list s ! k)) [0..<ring_length s] of
       None \<Rightarrow> Inl (BRK 5) | Some k \<Rightarrow> Inr (remove_request (slot s k) s))"
proof -
  have c: "find (\<lambda>k. answers m (outstanding_requests s (slot s k))) [0..<ring_length s]
      = find (\<lambda>k. answers m (ring_list s ! k)) [0..<ring_length s]"
    by (rule find_cong) simp_all
  show ?thesis
    using find_request_from [OF assms, of 0 m] slot_zero [OF assms]
    by (simp add: incoming_message_def c split: option.splits)
qed

lemma answers_of_ring:
  assumes "ring_ok s"
  shows "(\<forall>r\<in>set (ring_list s). \<not> answers m r) \<and> incoming_message m s = Inl (BRK 5)
     \<or> (\<exists>k s'. k < length (ring_list s) \<and> answers m (ring_list s ! k) \<and> (\<forall>j<k. \<not> answers m (ring_list s ! j))
          \<and> incoming_message m s = Inr s' \<and> ring_ok s' \<and> ring_list s' = tl ((ring_list s)[k := hd (ring_list s)])
          \<and> tag_calls s' = tag_calls s @ Wake (requesting_thread (ring_list s ! k))
              # (if blocked_thread s \<noteq> 0 then [Wake (blocked_thread s)] else [])
          \<and> blocked_thread s' = 0)"
proof (cases "find (\<lambda>k. answers m (ring_list s ! k)) [0..<ring_length s]")
  case None
  then have "\<not> answers m r" if "r \<in> set (ring_list s)" for r
    using that by (auto simp: find_None_iff in_set_conv_nth)
  then show ?thesis using None incoming_ring [OF assms, of m] by auto
next
  case (Some k)
  then have k: "k < ring_length s" "answers m (ring_list s ! k)" "\<forall>j<k. \<not> answers m (ring_list s ! j)"
    by (auto simp: find_Some_iff)
  then have "incoming_message m s = Inr (remove_request (slot s k) s)"
    using Some incoming_ring [OF assms, of m] by simp
  then show ?thesis
    using k remove_ring [OF assms k(1)]
    by (intro disjI2 exI [of _ k] exI [of _ "remove_request (slot s k) s"] conjI) (simp_all del: ring_list_nth)
qed

text \<open>An answer of the GPU always finds its request: the search through the ring ends, the first request with the address of
  the message is taken out, its thread is woken, and then the thread that waits for an entry of the ring, if there is one;
  all other requests stay.  A message that answers no request stops the driver.\<close>

theorem answer_wakes_its_requester:
  assumes "ring_ok s"
  shows "(\<forall>r\<in>set (ring_list s). \<not> answers m r) \<and> incoming_message m s = Inl (BRK 5)
     \<or> (\<exists>k s'. k < length (ring_list s) \<and> answers m (ring_list s ! k) \<and> (\<forall>j<k. \<not> answers m (ring_list s ! j))
          \<and> incoming_message m s = Inr s' \<and> ring_ok s' \<and> ring_list s' = tl ((ring_list s)[k := hd (ring_list s)])
          \<and> tag_calls s' = tag_calls s @ Wake (requesting_thread (ring_list s ! k))
              # (if blocked_thread s \<noteq> 0 then [Wake (blocked_thread s)] else [])
          \<and> blocked_thread s' = 0)"
  by (rule answers_of_ring [OF assms])

section \<open>Runs of the requests\<close>

text \<open>The thread that holds the lock of \<^verbatim>\<open>mailbox_tag_request\<close> waits for an entry of the ring or has one.\<close>

datatype tag_phase = Unlocked | Blocked_for_entry u32 u64 | Has_entry u32 u64

inductive tag_run :: "outstanding_request list \<Rightarrow> outstanding_request list \<Rightarrow> tag_phase \<Rightarrow> tag_requests \<Rightarrow> bool" where
  start: "ring_ok s \<Longrightarrow> requests_head s = requests_tail s \<Longrightarrow> blocked_thread s = 0 \<Longrightarrow> tag_run [] [] Unlocked s"
| request: "tag_run es as Unlocked s \<Longrightarrow> th \<noteq> 0 \<Longrightarrow> tag_request_start th s = (is_full, s')
    \<Longrightarrow> tag_run es as (if is_full then Blocked_for_entry th adr else Has_entry th adr) s'"
| woken: "tag_run es as (Blocked_for_entry th adr) s \<Longrightarrow> blocked_thread s = 0 \<Longrightarrow> tag_run es as (Has_entry th adr) s"
| enter: "tag_run es as (Has_entry th adr) s
    \<Longrightarrow> tag_run (es @ [\<lparr>pa = ucast adr, requesting_thread = th\<rparr>]) as Unlocked (tag_request_enter th adr s)"
| answer: "tag_run es as ph s \<Longrightarrow> find_request m s (requests_tail s) = Some (Some i) \<Longrightarrow> incoming_message m s = Inr s'
    \<Longrightarrow> tag_run es (as @ [outstanding_requests s i]) ph s'"

definition phase_ok :: "tag_phase \<Rightarrow> tag_requests \<Rightarrow> bool" where
  "phase_ok ph s =
    (case ph of
       Unlocked \<Rightarrow> blocked_thread s = 0
     | Blocked_for_entry th adr \<Rightarrow> blocked_thread s = 0 \<longrightarrow> \<not> list_full s
     | Has_entry th adr \<Rightarrow> \<not> list_full s \<and> blocked_thread s = 0)"

lemma tag_run_invariant:
  "tag_run es as ph s \<Longrightarrow> ring_ok s \<and> mset es = mset as + mset (ring_list s) \<and> phase_ok ph s"
proof (induction rule: tag_run.induct)
  case (start s)
  then show ?case by (simp add: ring_list_def ring_length_def phase_ok_def)
next
  case (request es as s th is_full s' adr)
  have "requests_head s' = requests_head s" "requests_tail s' = requests_tail s"
    "outstanding_requests s' = outstanding_requests s"
    using request.hyps(3) by (auto simp: tag_request_start_def tag_call_def split: if_splits)
  then have "ring_ok s' = ring_ok s" "ring_list s' = ring_list s" "list_full s' = list_full s"
    by (simp_all add: ring_ok_def ring_list_def ring_length_def slot_def list_full_def)
  then show ?case using request
    by (auto simp: phase_ok_def tag_request_start_def tag_call_def split: if_splits)
next
  case (woken es as th adr s)
  then show ?case by (simp add: phase_ok_def)
next
  case (enter es as th adr s)
  then have s: "ring_ok s" "\<not> list_full s" by (simp_all add: phase_ok_def)
  have "blocked_thread (tag_request_enter th adr s) = 0"
    using enter.IH by (simp add: phase_ok_def tag_request_enter_def upd_request_def)
  then show ?case using enter.IH enter_ring [OF s, of th adr] by (simp add: phase_ok_def)
next
  case (answer es as ph s m i s')
  have ok: "ring_ok s" using answer.IH by simp
  have "map_option (slot s) (find (\<lambda>k. answers m (outstanding_requests s (slot s k))) [0..<ring_length s]) = Some i"
    using find_request_from [OF ok, of 0 m] slot_zero [OF ok] answer.hyps(2) by simp
  then have u: "used_slot i s" by (auto simp: used_slot_def find_Some_iff)
  have s': "s' = remove_request i s" using answer.hyps by (simp add: incoming_message_def)
  have b: "blocked_thread s' = 0" by (simp add: s' remove_request_def Let_def tag_call_def)
  show ?case
    using ring.balance_remove [OF ok u] ring.removed [OF ok u] answer.IH b
    by (auto simp: s' phase_ok_def split: tag_phase.splits)
qed

text \<open>C32. Requests to the GPU are neither lost nor overwritten: however requests and answers interleave, both indices stay inside the array and the ring holds
  exactly the requests that were entered and not answered, at most 63 of them, and a thread that is about to
  enter one has a free entry.\<close>

theorem outstanding_requests_are_kept:
  assumes "tag_run es as ph s"
  shows "requests_head s < 64 \<and> requests_tail s < 64 \<and> mset es = mset as + mset (ring_list s) \<and> length (ring_list s) \<le> 63
     \<and> (\<forall>th adr. ph = Has_entry th adr \<longrightarrow> length (ring_list s) < 63)"
proof -
  have "ring_ok s" "mset es = mset as + mset (ring_list s)" "phase_ok ph s"
    using tag_run_invariant [OF assms] by simp_all
  then show ?thesis
    using ring_length_less [of s] list_full_iff [of s] by (auto simp: phase_ok_def ring_ok_def)
qed

section \<open>From the GPU to the requester\<close>

lemma tagged_address:
  assumes "p AND 0xf = (0 :: u32)"
  shows "channel_of (p OR 8) = 8" and "payload_of (p OR 8) = p"
proof -
  have "(p OR 8) AND 0xf = 8" using assms by (simp add: bit.conj_disj_distrib2)
  then show "channel_of (p OR 8) = 8" by (simp add: channel_of_def)
  have "p = (p AND 0xf) OR (p AND NOT 0xf)" by (simp flip: bit.conj_disj_distrib)
  then have "p AND NOT 0xf = p" using assms by simp
  then show "payload_of (p OR 8) = p" by (simp add: payload_of_def bit.conj_disj_distrib2)
qed

lemma pump_takes:
  assumes "\<And>c. c \<noteq> 8 \<Longrightarrow> received_message (channels s c) = 0" and "received_message (channels s 8) \<noteq> 0"
    and "waiting_thread (channels s 8) = th"
  shows "pump_channel th s = Some 8"
  using pump_channel_None [of 8 s th] assms pump_channelD [of th s] by (metis not_None_eq numeral_less_iff semiring_norm(76,78))

text \<open>The first request opens the channel and posts its address, once the GPU has room for it.\<close>

lemma first_request_is_posted:
  assumes "channels s 8 = \<lparr>waiting_thread = 0, received_message = 0, mb_client = 0\<rparr>" and "client \<noteq> 0" and "created \<noteq> 0"
    and "pump_thread s = 0" and "status AND 0x80000000 = 0"
  shows "\<exists>s1 s2. tag_request_open False client created s = Inr s1 \<and> tag_request_send th adr [status] s1 = Inr s2
     \<and> waiting_thread (channels s2 8) = created \<and> mailbox_config s2 = 1
     \<and> calls s2 = calls s @ [Wake th, Await, Post (ucast (adr OR 8)), Await]"
  using assms
  by (simp add: tag_request_open_def tag_request_send_def claim_channel_def register_client_def queue_message_def Let_def
      upd_channel_def log_call_def)


section \<open>Instances\<close>

text \<open>Three requests across the end of the array.\<close>

definition sample_requests :: tag_requests where
  "sample_requests =
    \<lparr>outstanding_requests = (\<lambda>i. if i = 62 then \<lparr>pa = 0x100, requesting_thread = 3\<rparr>
       else if i = 63 then \<lparr>pa = 0x200, requesting_thread = 4\<rparr>
       else if i = 0 then \<lparr>pa = 0x300, requesting_thread = 5\<rparr> else \<lparr>pa = 0, requesting_thread = 0\<rparr>),
     requests_head = 1, requests_tail = 62, blocked_thread = 0, tag_calls = []\<rparr>"

lemma sample_requests_ring [simp]:
  "ring_ok sample_requests" "blocked_thread sample_requests = 0" "tag_calls sample_requests = []"
  "ring_list sample_requests = [\<lparr>pa = 0x100, requesting_thread = 3\<rparr>, \<lparr>pa = 0x200, requesting_thread = 4\<rparr>,
     \<lparr>pa = 0x300, requesting_thread = 5\<rparr>]"
  by (simp_all add: sample_requests_def ring_ok_def ring_list_def ring_length_def slot_def upt_rec)

theorem answer_wakes_its_requester_witness:
  "\<exists>s'. incoming_message 0x200 sample_requests = Inr s' \<and> tag_calls s' = [Wake 4]
     \<and> ring_list s' = [\<lparr>pa = 0x100, requesting_thread = 3\<rparr>, \<lparr>pa = 0x300, requesting_thread = 5\<rparr>]"
proof -
  let ?L = "[\<lparr>pa = 0x100, requesting_thread = 3\<rparr>, \<lparr>pa = 0x200, requesting_thread = 4\<rparr>, \<lparr>pa = 0x300, requesting_thread = 5\<rparr>]"
  have "\<exists>r\<in>set ?L. answers 0x200 r" by (simp add: answers_def)
  then obtain k s' where k: "k < length ?L" "answers 0x200 (?L ! k)" and s': "incoming_message 0x200 sample_requests = Inr s'"
      "ring_list s' = tl (?L[k := hd ?L])" "tag_calls s' = [Wake (requesting_thread (?L ! k))]"
    using answer_wakes_its_requester [OF sample_requests_ring(1), of "0x200",
        unfolded sample_requests_ring append.simps if_not_P [OF not_not [THEN iffD2, OF refl]]]
    by blast
  have "k = 0 \<or> k = 1 \<or> k = 2" using k(1) by auto
  then have "k = 1" using k(2) by (auto simp: answers_def)
  then show ?thesis using s' by simp
qed

theorem outstanding_requests_are_kept_witness:
  "\<exists>s. tag_run [\<lparr>pa = 0x100, requesting_thread = 3\<rparr>] [] Unlocked s \<and> length (ring_list s) \<le> 63
     \<and> mset [\<lparr>pa = 0x100, requesting_thread = 3\<rparr>] = mset (ring_list s)"
proof -
  let ?s = "sample_requests\<lparr>requests_head := 62\<rparr>"
  have "tag_run [] [] Unlocked ?s"
    by (rule tag_run.start) (simp_all add: sample_requests_def ring_ok_def)
  moreover have "tag_request_start 3 ?s = (False, ?s)"
    by (simp add: tag_request_start_def list_full_def next_outstanding_request_def sample_requests_def)
  ultimately have "tag_run [] [] (if False then Blocked_for_entry 3 0x100 else Has_entry 3 0x100) ?s"
    by (intro tag_run.request) simp_all
  then have "tag_run [] [] (Has_entry 3 0x100) ?s" by simp
  then have "tag_run ([] @ [\<lparr>pa = ucast (0x100 :: u64), requesting_thread = 3\<rparr>]) [] Unlocked (tag_request_enter 3 0x100 ?s)"
    by (rule tag_run.enter)
  then have r: "tag_run [\<lparr>pa = 0x100, requesting_thread = 3\<rparr>] [] Unlocked (tag_request_enter 3 0x100 ?s)" by simp
  show ?thesis using outstanding_requests_are_kept [OF r] r by auto
qed


end
