(* ===== verification/SD_Card.thy ===== *)
theory SD_Card
  imports Prelude
begin

text \<open>
  The driver of the SD card, \<^verbatim>\<open>drivers/pi3gpu/sd.c\<close>: the interrupt handler of the controller, commands
  and application commands, power and clock, the identification of a card and reading pages by DMA.

  The state holds the static variables of the driver.  What the controller will do is part of it, too: the
  interrupts still to come, each with the values the handler reads, and the values later reads of
  \<^verbatim>\<open>STATUS\<close> and \<^verbatim>\<open>CONTROL1\<close> return.  A thread that waits takes interrupts until one of them wakes it; when none is left it
  waits forever.  Every write to the controller, every wake and every sleep is logged in order.  The GPU, which answers
  property requests, is a function on request buffers.  Debug counters in the shared page and display output are left out.
\<close>

section \<open>State\<close>

datatype sd_states = Idle | Ready | Ident | Stby | Tran | Data_state | Rcv | Prg | Dis | Ina

primrec state_code :: "sd_states \<Rightarrow> u32" where
  "state_code Idle = 0" | "state_code Ready = 1" | "state_code Ident = 2" | "state_code Stby = 3" | "state_code Tran = 4"
| "state_code Data_state = 5" | "state_code Rcv = 6" | "state_code Prg = 7" | "state_code Dis = 8" | "state_code Ina = 9"

datatype emmc_reg = R_BLKSIZECNT | R_ARG1 | R_CMDTM | R_CONTROL0 | R_CONTROL1 | R_INTERRUPT | R_IRPT_MASK | R_IRPT_EN | R_CONTROL2
  | R_EXRDFIFO_CFG | R_EXRDFIFO_EN | R_SPI_INT_SPT | R_ENABLE_IRQS_2 | R_DMA_CONBLK_AD | R_DMA_CS

datatype sd_event = Write emmc_reg u32 | Wakes u32 | Sleeps u64

record emmc_irq =
  irq_flags :: u32
  irq_resp :: "nat \<Rightarrow> u32"
  irq_data :: "u32 list"

record sd =
  command_thread :: u32
  current_cmdtm :: u32
  pending_app_cmdtm :: u32
  pending_app_command_arg :: u32
  acmd_expected_state :: sd_states
  data_thread :: u32
  block_data :: "nat \<Rightarrow> u32"
  block_index :: u32
  block_size :: u32
  response :: "nat \<Rightarrow> u32"
  base_clock_rate_hz :: u64
  acmd41_response :: u32
  cid :: "nat \<Rightarrow> u32"
  control0 :: u32
  woken :: "u32 \<Rightarrow> nat"
  sd_log :: "sd_event list"
  interrupts_to_come :: "emmc_irq list"
  status_reads :: "u32 list"
  control1_reads :: "u32 list"

definition sd_event :: "sd_event \<Rightarrow> sd \<Rightarrow> sd" where
  "sd_event e s = s\<lparr>sd_log := sd_log s @ [e]\<rparr>"

definition wake_sd :: "u32 \<Rightarrow> sd \<Rightarrow> sd" where
  "wake_sd t s = sd_event (Wakes t) (s\<lparr>woken := (woken s)(t := woken s t + 1)\<rparr>)"

definition cmds :: "nat \<Rightarrow> u32" where
  "cmds n = (if n = 0 then 0x00000000 else if n = 2 then 0x02090000 else if n = 3 then 0x030a0000
    else if n = 7 then 0x070b0000 else if n = 8 then 0x080a0000 else if n = 11 then 0x0b0a0000
    else if n = 17 then 0x112a0010 else if n = 18 then 0x122a0036 else if n = 55 then 0x370a0000 else 0)"

definition acmds :: "nat \<Rightarrow> u32" where
  "acmds n = (if n = 6 then 0x06020000 else if n = 41 then 0x29020000 else if n = 51 then 0x33220010 else 0)"

section \<open>The interrupt handler\<close>

definition card_state :: "u32 \<Rightarrow> u32" where
  "card_state r = drop_bit 9 r AND 0xf"

definition command_complete :: "emmc_irq \<Rightarrow> sd \<Rightarrow> sd result" where
  "command_complete irq s =
    (let s = s\<lparr>response := (response s)(0 := irq_resp irq 0)\<rparr>;
         s = (if current_cmdtm s AND 0x30000 = 0x10000
              then s\<lparr>response := (response s)(1 := irq_resp irq 1, 2 := irq_resp irq 2, 3 := irq_resp irq 3)\<rparr> else s)
     in if current_cmdtm s = cmds 55 then
          (if card_state (response s 0) \<noteq> state_code (acmd_expected_state s) then Inl (BRK 2)
           else if pending_app_cmdtm s \<noteq> 0 then
             (let s = s\<lparr>current_cmdtm := pending_app_cmdtm s, pending_app_cmdtm := 0\<rparr>
              in Inr (sd_event (Write R_CMDTM (current_cmdtm s)) (sd_event (Write R_ARG1 (pending_app_command_arg s)) s)))
           else Inl (BRK 2))
        else if command_thread s \<noteq> 0 then Inr (wake_sd (command_thread s) s)
        else Inl (BRK 2))"

fun read_block :: "u32 list \<Rightarrow> sd \<Rightarrow> sd result" where
  "read_block [] s = (if block_size s > 0 then Inl HANG else Inr s)"
| "read_block (d # ds) s =
    (if block_size s > 0 then
       read_block ds (s\<lparr>block_data := (block_data s)(unat (block_index s) := d), block_index := block_index s + 1,
         block_size := block_size s - 4\<rparr>)
     else Inr s)"

definition emmc_interrupt :: "emmc_irq \<Rightarrow> sd \<Rightarrow> sd result" where
  "emmc_interrupt irq s =
    (let new_interrupts = irq_flags irq in
     rbind (if new_interrupts \<noteq> 0 then
        rbind (Inr (sd_event (Write R_INTERRUPT new_interrupts) s)) (\<lambda>s.
        rbind (if new_interrupts AND 1 \<noteq> 0 then command_complete irq s else Inr s) (\<lambda>s.
        rbind (if new_interrupts AND 2 \<noteq> 0 then
                 (if data_thread s \<noteq> 0 then Inr (wake_sd (data_thread s) s) else Inl (BRK 5)) else Inr s) (\<lambda>s.
        rbind (if new_interrupts AND 0x10 \<noteq> 0 then Inl (BRK 1) else Inr s) (\<lambda>s.
        rbind (if new_interrupts AND 0x20 \<noteq> 0 then read_block (irq_data irq) s else Inr s) (\<lambda>s.
        if new_interrupts AND 0x100 \<noteq> 0 then Inl (BRK 7) else Inr s)))))
      else Inr s) (\<lambda>s.
     if new_interrupts AND NOT 0x33 \<noteq> 0 then Inl (BRK 1) else Inr s))"

text \<open>The gate of the kernel: a wake that came before the wait ends it at once and all of them are used up; otherwise
  the wake that ends the wait is used up and later ones count for the next wait.\<close>

fun take_interrupts :: "u32 \<Rightarrow> emmc_irq list \<Rightarrow> sd \<Rightarrow> sd result" where
  "take_interrupts th [] s = Inl HANG"
| "take_interrupts th (irq # later) s =
    rbind (emmc_interrupt irq s) (\<lambda>s.
      if woken s th > 0 then Inr (s\<lparr>woken := (woken s)(th := woken s th - 1), interrupts_to_come := later\<rparr>)
      else take_interrupts th later s)"

definition sd_wait_until_woken :: "u32 \<Rightarrow> sd \<Rightarrow> sd result" where
  "sd_wait_until_woken th s =
    (if woken s th > 0 then Inr (s\<lparr>woken := (woken s)(th := 0)\<rparr>)
     else take_interrupts th (interrupts_to_come s) s)"

section \<open>Power and clock requests\<close>

definition buffer :: "u32 list \<Rightarrow> nat \<Rightarrow> u32" where
  "buffer xs i = (if i < length xs then xs ! i else 0)"

type_synonym gpu = "(nat \<Rightarrow> u32) \<Rightarrow> nat \<Rightarrow> u32"

definition POWER_STATE_OFF :: u32 where "POWER_STATE_OFF = 0"
definition POWER_STATE_ON :: u32 where "POWER_STATE_ON = 1"

definition power_state :: "gpu \<Rightarrow> u32 \<Rightarrow> u32" where
  "power_state gpu i =
    (let request = gpu (buffer [32, 0, 0x00020001, 8, 0, i, 0, 0]) in
     if request 1 \<noteq> 0x80000000 \<or> request 4 \<noteq> 0x80000008 then 0 else request 6)"

definition power_down :: "gpu \<Rightarrow> u32 \<Rightarrow> (nat \<Rightarrow> u32) list \<times> bool" where
  "power_down gpu i =
    (if power_state gpu i = POWER_STATE_OFF then
       (let sent = buffer [32, 0, 0x00028001, 8, 0, i, 2, 0]; request = gpu sent in
        ([sent], \<not> (request 1 \<noteq> 0x80000000 \<or> request 4 \<noteq> 0x80000008 \<or> request 5 \<noteq> i)))
     else ([], True))"

definition power_up :: "gpu \<Rightarrow> u32 \<Rightarrow> bool" where
  "power_up gpu i =
    (if power_state gpu i = POWER_STATE_OFF then
       (let request = gpu (buffer [32, 0, 0x00028001, 8, 0, i, 1, 0]) in
        if request 1 \<noteq> 0x80000000 \<or> request 4 \<noteq> 0x80000008 \<or> request 5 \<noteq> i then False
        else power_state gpu i = POWER_STATE_ON)
     else True)"

definition base_clock_rate :: "gpu \<Rightarrow> u32 \<Rightarrow> u32" where
  "base_clock_rate gpu clock_id =
    (let request = gpu (buffer [32, 0, 0x00030002, 8, 0, clock_id, 0, 0]) in
     if request 1 \<noteq> 0x80000000 \<or> request 4 \<noteq> 0x80000008 then 0 else request 6)"

section \<open>Commands\<close>

definition cmdtm :: "u32 \<Rightarrow> u32 \<Rightarrow> u32 \<Rightarrow> sd \<Rightarrow> sd result" where
  "cmdtm this_thread cmd_code arg s =
    (let s = s\<lparr>command_thread := this_thread, current_cmdtm := cmd_code\<rparr>;
         s = sd_event (Write R_CMDTM cmd_code) (sd_event (Write R_ARG1 arg) s)
     in rbind (sd_wait_until_woken this_thread s) (\<lambda>s.
       Inr (if cmd_code \<noteq> cmds 55 then s\<lparr>command_thread := 0\<rparr> else s)))"

definition command :: "u32 \<Rightarrow> nat \<Rightarrow> u32 \<Rightarrow> sd \<Rightarrow> sd result" where
  "command this_thread cmd arg s =
    (if cmd \<noteq> 0 \<and> cmds cmd = 0 then Inl (BRK 2) else cmdtm this_thread (cmds cmd) arg s)"

definition app_command :: "u32 \<Rightarrow> nat \<Rightarrow> sd_states \<Rightarrow> u32 \<Rightarrow> u32 \<Rightarrow> sd \<Rightarrow> sd result" where
  "app_command this_thread acmd expected_state shifted_rca arg s =
    (if acmds acmd = 0 then Inl (BRK 2)
     else command this_thread 55 shifted_rca (s\<lparr>pending_app_cmdtm := acmds acmd, pending_app_command_arg := arg,
       acmd_expected_state := expected_state\<rparr>))"

section \<open>The clock and the hardware\<close>

definition read_status :: "sd \<Rightarrow> (u32 \<times> sd) result" where
  "read_status s = (case status_reads s of [] \<Rightarrow> Inl HANG | v # vs \<Rightarrow> Inr (v, s\<lparr>status_reads := vs\<rparr>))"

definition read_control1 :: "sd \<Rightarrow> (u32 \<times> sd) result" where
  "read_control1 s = (case control1_reads s of [] \<Rightarrow> Inl HANG | v # vs \<Rightarrow> Inr (v, s\<lparr>control1_reads := vs\<rparr>))"

text \<open>The polling loops; the first argument is what the reads return.\<close>

fun wait_status_idle :: "u32 list \<Rightarrow> sd \<Rightarrow> sd result" where
  "wait_status_idle [] s = Inl HANG"
| "wait_status_idle (v # vs) s =
    (if v AND 3 \<noteq> 0 then wait_status_idle vs (sd_event (Sleeps 1) s) else Inr (s\<lparr>status_reads := vs\<rparr>))"

fun wait_control1 :: "(u32 \<Rightarrow> bool) \<Rightarrow> u32 list \<Rightarrow> sd \<Rightarrow> sd result" where
  "wait_control1 busy [] s = Inl HANG"
| "wait_control1 busy (v # vs) s =
    (if busy v then wait_control1 busy vs (sd_event (Sleeps 1) s) else Inr (s\<lparr>control1_reads := vs\<rparr>))"

definition write_control1 :: "u32 \<Rightarrow> sd \<Rightarrow> sd" where
  "write_control1 v s = sd_event (Write R_CONTROL1 v) s"

definition control1_with_divider :: "u32 \<Rightarrow> u64 \<Rightarrow> u32" where
  "control1_with_divider control1 divider =
    (let control1 = control1 OR 0x00000001;
         control1 = control1 AND 0xfff0ffdf;
         control1 = control1 OR 0x000e0000;
         control1 = control1 AND 0xffff003f
     in control1 OR ucast (push_bit 8 (divider AND 0xff) OR drop_bit 2 (divider AND 0x300)))"

definition set_clock_rate :: "gpu \<Rightarrow> u32 \<Rightarrow> sd \<Rightarrow> (bool \<times> sd) result" where
  "set_clock_rate gpu target_rate s =
    (let s = (if base_clock_rate_hz s = 0 then s\<lparr>base_clock_rate_hz := ucast (base_clock_rate gpu 1)\<rparr> else s);
         divider = (base_clock_rate_hz s + ucast target_rate - 1) div ucast target_rate
     in if divider = 0 \<or> divider > 0x3ff then Inr (False, s)
        else rbind (wait_status_idle (status_reads s) s) (\<lambda>s. rbind (read_control1 s) (\<lambda>(control1, s).
          let s = (if control1 AND 4 = 0 then sd_event (Sleeps 2) (write_control1 (control1 AND NOT 4) s) else s);
              control1 = (if control1 AND 4 = 0 then control1 AND NOT 4 else control1);
              control1 = control1_with_divider control1 divider;
              s = sd_event (Sleeps 2) (write_control1 control1 s);
              control1 = control1 OR 4;
              s = sd_event (Sleeps 2) (write_control1 control1 s)
          in Inr (True, s))))"

definition prepare_for_interrupts_from_sd_port :: "sd \<Rightarrow> sd" where
  "prepare_for_interrupts_from_sd_port s = sd_event (Write R_ENABLE_IRQS_2 0x40000000) s"

definition initialise_mmc_hardware :: "sd \<Rightarrow> sd result" where
  "initialise_mmc_hardware s =
    rbind (read_control1 s) (\<lambda>(control1, s).
      let s = sd_event (Write R_CONTROL2 0) (sd_event (Write R_CONTROL0 0) (s\<lparr>control0 := 0\<rparr>));
          control1 = control1 OR 0x1000000;
          control1 = control1 AND NOT 4;
          control1 = control1 AND NOT 1;
          s = write_control1 control1 s
      in wait_control1 (\<lambda>v. v AND 0x1000000 \<noteq> 0) (control1_reads s) s)"

definition initialise_sd_interface :: "gpu \<Rightarrow> sd \<Rightarrow> (bool \<times> sd) result" where
  "initialise_sd_interface gpu s =
    (if \<not> power_up gpu 0 then Inr (False, s)
     else rbind (initialise_mmc_hardware s) (\<lambda>s. rbind (set_clock_rate gpu 400000 s) (\<lambda>(ok, s).
       if \<not> ok then Inr (False, s)
       else
         (let s = sd_event (Write R_IRPT_EN 0x017f71b7) (sd_event (Write R_IRPT_MASK 0x017f71b7) s);
              s = sd_event (Write R_SPI_INT_SPT 0xff) s
          in rbind (wait_control1 (\<lambda>v. v AND 2 = 0) (control1_reads s) s) (\<lambda>s. Inr (True, s))))))"

section \<open>Identifying the card\<close>

definition switch_to_1v8_signalling :: "u32 \<Rightarrow> sd \<Rightarrow> (bool \<times> sd) result" where
  "switch_to_1v8_signalling this_thread s =
    rbind (command this_thread 11 0 s) (\<lambda>s. rbind (read_control1 s) (\<lambda>(control1, s).
      let s = sd_event (Sleeps 5) (write_control1 (control1 AND NOT 4) s)
      in rbind (read_status s) (\<lambda>(status, s).
        if status AND 0xf00000 \<noteq> 0 then Inr (False, s)
        else
          (let s = s\<lparr>control0 := control0 s OR 0x100\<rparr>; s = sd_event (Write R_CONTROL0 (control0 s)) s
           in if status AND 0xf00000 \<noteq> 0xf00000 then Inr (False, s) else Inr (True, s)))))"

text \<open>The loops that ask the card again; the first argument bounds the number of rounds.\<close>

fun power_up_loop :: "nat \<Rightarrow> u32 \<Rightarrow> sd \<Rightarrow> sd result" where
  "power_up_loop 0 this_thread s = Inl HANG"
| "power_up_loop (Suc n) this_thread s =
    rbind (app_command this_thread 41 Idle 0 0x40ff8000 s) (\<lambda>s.
      let s = s\<lparr>acmd41_response := response s 0\<rparr>
      in if bit (acmd41_response s) 31 then Inr s else power_up_loop n this_thread (sd_event (Sleeps 1) s))"

fun address_loop :: "nat \<Rightarrow> u32 \<Rightarrow> sd \<Rightarrow> (u32 \<times> sd) result" where
  "address_loop 0 this_thread s = Inl HANG"
| "address_loop (Suc n) this_thread s =
    rbind (command this_thread 3 0 s) (\<lambda>s.
      let shifted_rca = response s 0 AND 0xffff0000
      in if state_code Ident \<noteq> card_state (response s 0) then Inl (BRK 2)
         else if shifted_rca = 0 then address_loop n this_thread s else Inr (shifted_rca, s))"

definition identify_to_ready :: "nat \<Rightarrow> u32 \<Rightarrow> sd \<Rightarrow> (bool \<times> sd) result" where
  "identify_to_ready rounds this_thread s =
    rbind (wait_status_idle (status_reads s) s) (\<lambda>s.
    rbind (command this_thread 0 0 s) (\<lambda>s.
    rbind (command this_thread 8 0x1aa s) (\<lambda>s.
    if response s 0 AND 0xfff \<noteq> 0x1aa then Inr (False, s)
    else
      rbind (app_command this_thread 41 Idle 0 0 s) (\<lambda>s.
      rbind (power_up_loop rounds this_thread s) (\<lambda>s.
      if \<not> bit (acmd41_response s) 30 then Inl (BRK 1)
      else if bit (acmd41_response s) 24 then
        rbind (switch_to_1v8_signalling this_thread s) (\<lambda>(ok, s). if \<not> ok then Inl (BRK 1) else Inr (True, s))
      else Inr (True, s))))))"

definition identify_to_standby :: "nat \<Rightarrow> u32 \<Rightarrow> sd \<Rightarrow> (u32 \<times> sd) result" where
  "identify_to_standby rounds this_thread s =
    rbind (command this_thread 2 0 s) (\<lambda>s.
      let s = s\<lparr>cid := (cid s)(0 := response s 0, 1 := response s 1, 2 := response s 2, 3 := response s 3)\<rparr>
      in address_loop rounds this_thread s)"

definition identify_to_transfer :: "gpu \<Rightarrow> u32 \<Rightarrow> u32 \<Rightarrow> sd \<Rightarrow> (bool \<times> sd) result" where
  "identify_to_transfer gpu shifted_rca this_thread s =
    (let s = s\<lparr>data_thread := this_thread\<rparr> in
     rbind (command this_thread 7 shifted_rca s) (\<lambda>s.
     rbind (sd_wait_until_woken this_thread s) (\<lambda>s.
     let s = s\<lparr>data_thread := 0\<rparr> in
     if bit (response s 0) 25 then Inl (BRK 2)
     else
       (let s = s\<lparr>control0 := control0 s OR 2\<rparr>; s = sd_event (Write R_CONTROL0 (control0 s)) s in
        rbind (app_command this_thread 6 Tran shifted_rca 2 s) (\<lambda>s.
        let s = s\<lparr>data_thread := this_thread\<rparr>;
            s = sd_event (Write R_BLKSIZECNT (0x10000 OR 8)) (sd_event (Write R_EXRDFIFO_EN 0) s);
            s = s\<lparr>block_index := 0, block_size := 8\<rparr>
        in rbind (app_command this_thread 51 Tran shifted_rca 0 s) (\<lambda>s.
           rbind (sd_wait_until_woken this_thread s) (\<lambda>s.
           rbind (set_clock_rate gpu 25000000 s) (\<lambda>(ok, s). Inr (ok, s)))))))))"

definition identify_device :: "gpu \<Rightarrow> nat \<Rightarrow> u32 \<Rightarrow> sd \<Rightarrow> (bool \<times> sd) result" where
  "identify_device gpu rounds this_thread s =
    rbind (identify_to_ready rounds this_thread s) (\<lambda>(ok, s).
      if \<not> ok then Inr (False, s)
      else rbind (identify_to_standby rounds this_thread s) (\<lambda>(shifted_rca, s).
        identify_to_transfer gpu shifted_rca this_thread s))"

section \<open>Reading pages\<close>

record DMA_Control =
  TI :: u32
  SOURCE_AD :: u32
  DEST_AD :: u32
  TXFR_LEN :: u32
  STRIDE :: u32
  NEXTCONBK :: u32

definition dma_block :: "u64 \<Rightarrow> u32 \<Rightarrow> u32 \<Rightarrow> DMA_Control" where
  "dma_block data_pa start_pa sz =
    \<lparr>TI = 0x04000419 OR 0xb0000, SOURCE_AD = ucast (0x40000000 OR (NOT 0xc1000000 AND (data_pa AND 0xffffffff))),
     DEST_AD = start_pa, TXFR_LEN = sz, STRIDE = 0, NEXTCONBK = 0\<rparr>"

text \<open>The size and the address are those of the memory block; \<open>cntrl_pa\<close> is the physical address of the control block.\<close>

definition read_4k_pages :: "bool \<Rightarrow> u32 \<Rightarrow> u32 \<Rightarrow> u64 \<Rightarrow> u64 \<Rightarrow> u32 \<Rightarrow> u32 \<Rightarrow> sd \<Rightarrow> (DMA_Control \<times> sd) result" where
  "read_4k_pages read_only sz start_pa data_pa cntrl_pa first_block this_thread s =
    (if read_only then Inl (SMC 4)
     else
       (let s = s\<lparr>data_thread := this_thread\<rparr>;
            s = sd_event (Write R_IRPT_EN 0x017f7197) (sd_event (Write R_IRPT_MASK 0x017f7197) s);
            s = sd_event (Write R_DMA_CONBLK_AD (ucast cntrl_pa)) s;
            s = sd_event (Write R_DMA_CS 0x10000001) s;
            s = sd_event (Write R_BLKSIZECNT (push_bit 16 (sz div 512) OR 512)) s
        in rbind (command this_thread 18 first_block s) (\<lambda>s.
           rbind (sd_wait_until_woken this_thread s) (\<lambda>s. Inr (dma_block data_pa start_pa sz, s)))))"

text \<open>The check that bit fields are laid out from the least significant bit, on the words that later hold the register.\<close>

definition current_device_bits_match :: "sd \<Rightarrow> bool \<times> sd" where
  "current_device_bits_match s =
    (let old0 = block_data s 0; old1 = block_data s 1;
         s = s\<lparr>block_data := (block_data s)(0 := 0x12345678, 1 := 0x9abcdef0)\<rparr>;
         result = (block_data s 0 = 0x12345678)
     in (result, s\<lparr>block_data := (block_data s)(0 := old0, 1 := old1)\<rparr>))"

definition expose_emmc :: "gpu \<Rightarrow> nat \<Rightarrow> u32 \<Rightarrow> sd \<Rightarrow> (bool \<times> sd) result" where
  "expose_emmc gpu rounds this_thread s =
    (let (match, s) = current_device_bits_match s in
     if \<not> match then Inr (False, s)
     else
       (let s = (sd_event (Sleeps 20) ^^ 100) s in
        rbind (initialise_sd_interface gpu (prepare_for_interrupts_from_sd_port s)) (\<lambda>(ok, s).
          if \<not> ok then Inr (False, s)
          else rbind (identify_device gpu rounds this_thread s) (\<lambda>(ok, s).
            if \<not> ok then Inr (False, s)
            else Inr (True, sd_event (Write R_EXRDFIFO_CFG 0) (sd_event (Write R_EXRDFIFO_EN 1) s))))))"

section \<open>Effects of interrupts\<close>

fun command_codes :: "sd_event list \<Rightarrow> u32 list" where
  "command_codes [] = []"
| "command_codes (Write R_CMDTM v # es) = v # command_codes es"
| "command_codes (e # es) = command_codes es"

lemma command_codes_append [simp]: "command_codes (xs @ ys) = command_codes xs @ command_codes ys"
  by (induction xs rule: command_codes.induct) simp_all

abbreviation issued :: "sd \<Rightarrow> u32 list" where
  "issued s \<equiv> command_codes (sd_log s)"

lemma sd_event_fields [simp]:
  "sd_log (sd_event e s) = sd_log s @ [e]" "woken (sd_event e s) = woken s" "command_thread (sd_event e s) = command_thread s"
  "data_thread (sd_event e s) = data_thread s" "current_cmdtm (sd_event e s) = current_cmdtm s" "response (sd_event e s) = response s"
  "pending_app_cmdtm (sd_event e s) = pending_app_cmdtm s" "pending_app_command_arg (sd_event e s) = pending_app_command_arg s"
  "interrupts_to_come (sd_event e s) = interrupts_to_come s" "acmd_expected_state (sd_event e s) = acmd_expected_state s"
  "status_reads (sd_event e s) = status_reads s" "control1_reads (sd_event e s) = control1_reads s"
  "base_clock_rate_hz (sd_event e s) = base_clock_rate_hz s" "acmd41_response (sd_event e s) = acmd41_response s"
  "control0 (sd_event e s) = control0 s" "block_size (sd_event e s) = block_size s"
  by (simp_all add: sd_event_def)

text \<open>The part of the state that decides which commands are issued.\<close>

definition control :: "sd \<Rightarrow> u32 list \<times> u32 \<times> u32 \<times> u32 \<times> u32 \<times> (u32 \<Rightarrow> nat)" where
  "control s = (issued s, current_cmdtm s, pending_app_cmdtm s, command_thread s, data_thread s, woken s)"

lemma read_block_control: "read_block ds s = Inr s' \<Longrightarrow> control s' = control s"
  by (induction ds s rule: read_block.induct) (auto simp: control_def split: if_splits)

lemma command_complete_control:
  assumes "command_complete irq s = Inr s'"
  shows "control s' =
    (if current_cmdtm s = cmds 55
     then (issued s @ [pending_app_cmdtm s], pending_app_cmdtm s, 0, command_thread s, data_thread s, woken s)
     else (issued s, current_cmdtm s, pending_app_cmdtm s, command_thread s, data_thread s,
       (woken s)(command_thread s := woken s (command_thread s) + 1)))"
    and "current_cmdtm s = cmds 55 \<Longrightarrow> pending_app_cmdtm s \<noteq> 0"
    and "current_cmdtm s \<noteq> cmds 55 \<Longrightarrow> command_thread s \<noteq> 0"
  using assms by (auto simp: command_complete_def Let_def wake_sd_def control_def split: if_splits)

lemma interrupt_control:
  assumes "emmc_interrupt irq s = Inr s'"
  obtains s1 where "if irq_flags irq AND 1 \<noteq> 0 then command_complete irq (sd_event (Write R_INTERRUPT (irq_flags irq)) s) = Inr s1
      else control s1 = control s"
    and "if irq_flags irq AND 2 \<noteq> 0
      then data_thread s1 \<noteq> 0 \<and> control s' = control (wake_sd (data_thread s1) s1) else control s' = control s1"
proof (cases "irq_flags irq = 0")
  case True
  then have "s' = s" using assms by (simp add: emmc_interrupt_def)
  then show ?thesis using True that [of s] by simp
next
  case False
  let ?f = "irq_flags irq" and ?s = "sd_event (Write R_INTERRUPT (irq_flags irq)) s"
  obtain s1 s2 where s1: "(if ?f AND 1 \<noteq> 0 then command_complete irq ?s else Inr ?s) = Inr s1"
    and s2: "(if ?f AND 2 \<noteq> 0 then if data_thread s1 \<noteq> 0 then Inr (wake_sd (data_thread s1) s1) else Inl (BRK 5) else Inr s1) = Inr s2"
    and s': "(if ?f AND 0x20 \<noteq> 0 then read_block (irq_data irq) s2 else Inr s2) = Inr s'"
    using assms False by (auto simp: emmc_interrupt_def Let_def elim!: rbind_InrE split: if_splits)
  have "control s' = control s2" using s' read_block_control by (auto split: if_splits)
  moreover have "control ?s = control s" by (simp add: control_def)
  ultimately show ?thesis using that [of s1] s1 s2 by (auto split: if_splits)
qed

text \<open>What an interrupt does that reports a completed command (\<open>c\<close>) or a completed transfer (\<open>d\<close>).\<close>

definition irq_effect :: "bool \<Rightarrow> bool \<Rightarrow> sd \<Rightarrow> sd \<Rightarrow> bool" where
  "irq_effect c d s s' \<longleftrightarrow>
    (d \<longrightarrow> data_thread s \<noteq> 0) \<and> (c \<and> current_cmdtm s \<noteq> cmds 55 \<longrightarrow> command_thread s \<noteq> 0)
    \<and> issued s' = issued s @ (if c \<and> current_cmdtm s = cmds 55 then [pending_app_cmdtm s] else [])
    \<and> current_cmdtm s' = (if c \<and> current_cmdtm s = cmds 55 then pending_app_cmdtm s else current_cmdtm s)
    \<and> pending_app_cmdtm s' = (if c \<and> current_cmdtm s = cmds 55 then 0 else pending_app_cmdtm s)
    \<and> command_thread s' = command_thread s \<and> data_thread s' = data_thread s
    \<and> (\<forall>t. woken s' t = woken s t + (if c \<and> current_cmdtm s \<noteq> cmds 55 \<and> t = command_thread s then 1 else 0)
      + (if d \<and> t = data_thread s then 1 else 0))"

lemma interrupt_cases:
  assumes "emmc_interrupt irq s = Inr s'"
  obtains c d where "irq_effect c d s s'"
proof -
  let ?f = "irq_flags irq" and ?s = "sd_event (Write R_INTERRUPT (irq_flags irq)) s"
  obtain s1 where s1: "if ?f AND 1 \<noteq> 0 then command_complete irq ?s = Inr s1 else control s1 = control s"
    and s': "if ?f AND 2 \<noteq> 0 then data_thread s1 \<noteq> 0 \<and> control s' = control (wake_sd (data_thread s1) s1) else control s' = control s1"
    by (rule interrupt_control [OF assms])
  show ?thesis
  proof (cases "?f AND 1 = 0")
    case True
    then show ?thesis
      using that [of False "?f AND 2 \<noteq> 0"] s1 s'
      by (auto simp: irq_effect_def control_def wake_sd_def split: if_splits)
  next
    case False
    then have "command_complete irq ?s = Inr s1" using s1 by simp
    note k = command_complete_control [OF this]
    show ?thesis
      using that [of True "?f AND 2 \<noteq> 0"] k s'
      by (auto simp: irq_effect_def control_def wake_sd_def split: if_splits)
  qed
qed

section \<open>Waiting for commands\<close>

text \<open>No data transfer is expected, and no wake is left over.\<close>

definition quiet :: "u32 \<Rightarrow> sd \<Rightarrow> bool" where
  "quiet th s \<longleftrightarrow> th \<noteq> 0 \<and> data_thread s = 0 \<and> woken s th = 0"

lemma wait_for_command:
  assumes "take_interrupts th irqs s = Inr s'" and "quiet th s" and "command_thread s = th" and "current_cmdtm s \<noteq> cmds 55"
  shows "issued s' = issued s \<and> quiet th s'"
  using assms
proof (induction th irqs s rule: take_interrupts.induct)
  case (2 th irq irqs s)
  then obtain s1 where s1: "emmc_interrupt irq s = Inr s1" by (auto elim: rbind_InrE)
  obtain c d where "irq_effect c d s s1" by (rule interrupt_cases [OF s1])
  then have "issued s1 = issued s" "current_cmdtm s1 = current_cmdtm s" "command_thread s1 = command_thread s"
      "data_thread s1 = 0" "woken s1 th = (if c then 1 else 0)"
    using 2(3-5) by (auto simp: irq_effect_def quiet_def)
  then show ?case using 2 s1 by (auto simp: quiet_def split: if_splits)
qed simp

lemma wait_for_app_command:
  assumes "take_interrupts th irqs s = Inr s'" and "quiet th s" and "command_thread s = th"
    and "current_cmdtm s = cmds 55" and "pending_app_cmdtm s \<noteq> cmds 55"
  shows "issued s' = issued s @ [pending_app_cmdtm s] \<and> quiet th s'"
  using assms
proof (induction th irqs s rule: take_interrupts.induct)
  case (2 th irq irqs s)
  then obtain s1 where s1: "emmc_interrupt irq s = Inr s1" by (auto elim: rbind_InrE)
  obtain c d where "irq_effect c d s s1" by (rule interrupt_cases [OF s1])
  then have i: "issued s1 = issued s @ (if c then [pending_app_cmdtm s] else [])" "command_thread s1 = command_thread s"
      "current_cmdtm s1 = (if c then pending_app_cmdtm s else current_cmdtm s)"
      "pending_app_cmdtm s1 = (if c then 0 else pending_app_cmdtm s)" "data_thread s1 = 0" "woken s1 th = 0"
    using 2(3,5) by (auto simp: irq_effect_def quiet_def)
  then have q: "quiet th s1" using 2(3) by (auto simp: quiet_def)
  then have t: "take_interrupts th irqs s1 = Inr s'" using 2(2) s1 by (auto simp: quiet_def)
  show ?case
  proof (cases c)
    case True
    then show ?thesis using wait_for_command [OF t q] i 2(4,6) by simp
  next
    case False
    then show ?thesis using "2.IH" [OF s1 _ t q] q i 2(4-6) by (simp add: quiet_def)
  qed
qed simp

lemma command_issues:
  assumes "command th n arg s = Inr s'" and "quiet th s" and "n \<noteq> 55" and "cmds n \<noteq> cmds 55"
  shows "issued s' = issued s @ [cmds n] \<and> quiet th s'"
proof -
  let ?s = "sd_event (Write R_CMDTM (cmds n)) (sd_event (Write R_ARG1 arg) (s\<lparr>command_thread := th, current_cmdtm := cmds n\<rparr>))"
  have q: "quiet th ?s" "command_thread ?s = th" "current_cmdtm ?s = cmds n" using assms(2) by (simp_all add: quiet_def)
  obtain s1 where s1: "take_interrupts th (interrupts_to_come ?s) ?s = Inr s1" "s' = s1\<lparr>command_thread := 0\<rparr>"
    using assms q by (auto simp: command_def cmdtm_def Let_def sd_wait_until_woken_def quiet_def elim!: rbind_InrE split: if_splits)
  show ?thesis using wait_for_command [OF s1(1) q(1,2)] q(3) assms(4) s1(2) by (simp add: quiet_def)
qed

lemma app_command_issues:
  assumes "app_command th n st rca arg s = Inr s'" and "quiet th s" and "acmds n \<noteq> cmds 55"
  shows "issued s' = issued s @ [cmds 55, acmds n] \<and> quiet th s'"
proof -
  let ?p = "s\<lparr>pending_app_cmdtm := acmds n, pending_app_command_arg := arg, acmd_expected_state := st\<rparr>"
  let ?s = "sd_event (Write R_CMDTM (cmds 55)) (sd_event (Write R_ARG1 rca) (?p\<lparr>command_thread := th, current_cmdtm := cmds 55\<rparr>))"
  have q: "quiet th ?s" "command_thread ?s = th" "current_cmdtm ?s = cmds 55" "pending_app_cmdtm ?s = acmds n"
    using assms(2) by (simp_all add: quiet_def)
  have s1: "take_interrupts th (interrupts_to_come ?s) ?s = Inr s'"
    using assms q(1) by (auto simp: app_command_def command_def cmdtm_def Let_def sd_wait_until_woken_def quiet_def
        elim!: rbind_InrE split: if_splits)
  show ?thesis using wait_for_app_command [OF s1 q(1-3)] q(4) assms(3) by simp
qed

lemma take_interrupts_invariant:
  assumes "take_interrupts th irqs s = Inr s'" and "P s"
    and "\<And>c d s s1. irq_effect c d s s1 \<Longrightarrow> P s \<Longrightarrow> P s1" and "\<And>s w l. P s \<Longrightarrow> P (s\<lparr>woken := w, interrupts_to_come := l\<rparr>)"
  shows "P s'"
  using assms(1,2)
proof (induction th irqs s rule: take_interrupts.induct)
  case (2 th irq irqs s)
  then obtain s1 where s1: "emmc_interrupt irq s = Inr s1" by (auto elim: rbind_InrE)
  then have "P s1" using 2(3) assms(3) by (meson interrupt_cases)
  then show ?case using 2 s1 assms(4) by (auto split: if_splits)
qed simp

lemma take_interrupts_wakes:
  assumes "take_interrupts th irqs s = Inr s'" and "woken s th = 0"
  shows "woken s' th \<le> (if command_thread s = th then 1 else 0)"
  using assms
proof (induction th irqs s rule: take_interrupts.induct)
  case (2 th irq irqs s)
  then obtain s1 where s1: "emmc_interrupt irq s = Inr s1" by (auto elim: rbind_InrE)
  obtain c d where "irq_effect c d s s1" by (rule interrupt_cases [OF s1])
  then have "command_thread s1 = command_thread s" "woken s1 th \<le> (if command_thread s = th then 2 else 1)"
    using 2(3) by (auto simp: irq_effect_def)
  then show ?case using 2 s1 by (auto split: if_splits)
qed simp

lemma wait_keeps:
  assumes "sd_wait_until_woken th s = Inr s'" and "P s"
    and "\<And>c d s s1. irq_effect c d s s1 \<Longrightarrow> P s \<Longrightarrow> P s1" and "\<And>s w l. P s \<Longrightarrow> P (s\<lparr>woken := w, interrupts_to_come := l\<rparr>)"
  shows "P s'"
proof (cases "woken s th > 0")
  case True
  then have e: "s' = s\<lparr>woken := (woken s)(th := 0), interrupts_to_come := interrupts_to_come s\<rparr>"
    using assms(1) by (cases s) (auto simp: sd_wait_until_woken_def)
  show ?thesis by (subst e) (rule assms(4) [OF assms(2)])
next
  case False
  then show ?thesis using assms take_interrupts_invariant [of th _ s s' P] by (simp add: sd_wait_until_woken_def)
qed

lemma wait_wakes:
  assumes "sd_wait_until_woken th s = Inr s'"
  shows "woken s' th \<le> (if command_thread s = th then 1 else 0)"
  using assms take_interrupts_wakes [of th "interrupts_to_come s" s s']
  by (auto simp: sd_wait_until_woken_def split: if_splits)

text \<open>A command during which a transfer may complete.\<close>

lemma command_with_data:
  assumes "command th n arg s = Inr s'" and "cmds n \<noteq> cmds 55" and "th \<noteq> 0"
  shows "issued s' = issued s @ [cmds n] \<and> current_cmdtm s' = cmds n \<and> command_thread s' = 0"
proof -
  let ?s = "sd_event (Write R_CMDTM (cmds n)) (sd_event (Write R_ARG1 arg) (s\<lparr>command_thread := th, current_cmdtm := cmds n\<rparr>))"
  obtain s1 where s1: "sd_wait_until_woken th ?s = Inr s1" "s' = s1\<lparr>command_thread := 0\<rparr>"
    using assms by (auto simp: command_def cmdtm_def Let_def elim!: rbind_InrE split: if_splits)
  have "issued s1 = issued s @ [cmds n] \<and> current_cmdtm s1 = cmds n"
    by (rule wait_keeps [OF s1(1), where P = "\<lambda>s1. issued s1 = issued s @ [cmds n] \<and> current_cmdtm s1 = cmds n"])
      (use assms(2) in \<open>auto simp: irq_effect_def\<close>)
  then show ?thesis by (simp add: s1(2))
qed

definition app_progress :: "u32 \<Rightarrow> u32 list \<Rightarrow> sd \<Rightarrow> bool" where
  "app_progress a i s \<longleftrightarrow> current_cmdtm s = cmds 55 \<and> pending_app_cmdtm s = a \<and> issued s = i
    \<or> current_cmdtm s = a \<and> issued s = i @ [a]"

lemma app_progress_irq:
  assumes "a \<noteq> cmds 55" and "irq_effect c d s s1" and "app_progress a i s"
  shows "app_progress a i s1"
  using assms by (auto simp: app_progress_def irq_effect_def)

lemma app_progress_frame [simp]:
  "app_progress a i (s\<lparr>woken := w, interrupts_to_come := l\<rparr>) = app_progress a i s"
  by (simp add: app_progress_def)

lemma app_command_with_data:
  assumes "app_command th n st rca arg s = Inr s'" and "acmds n \<noteq> cmds 55"
  shows "app_progress (acmds n) (issued s @ [cmds 55]) s'"
proof -
  let ?p = "s\<lparr>pending_app_cmdtm := acmds n, pending_app_command_arg := arg, acmd_expected_state := st\<rparr>"
  let ?s = "sd_event (Write R_CMDTM (cmds 55)) (sd_event (Write R_ARG1 rca) (?p\<lparr>command_thread := th, current_cmdtm := cmds 55\<rparr>))"
  have s1: "sd_wait_until_woken th ?s = Inr s'"
    using assms by (auto simp: app_command_def command_def cmdtm_def Let_def elim!: rbind_InrE split: if_splits)
  show ?thesis
  proof (rule wait_keeps [OF s1, where P = "app_progress (acmds n) (issued s @ [cmds 55])"])
    show "app_progress (acmds n) (issued s @ [cmds 55]) ?s" by (simp add: app_progress_def)
  qed (use app_progress_irq [OF assms(2)] in simp_all)
qed

section \<open>Identification\<close>

lemma status_polling_frame:
  "wait_status_idle vs s = Inr s' \<Longrightarrow> issued s' = issued s \<and> quiet th s' = quiet th s"
  by (induction vs s rule: wait_status_idle.induct) (auto simp: quiet_def split: if_splits)

lemma set_clock_rate_issues:
  assumes "set_clock_rate gpu rate s = Inr (ok, s')"
  shows "issued s' = issued s"
  using assms
  by (auto simp: set_clock_rate_def Let_def write_control1_def read_control1_def dest!: status_polling_frame [of _ _ _ 0]
      elim!: rbind_InrE split: if_splits list.splits)

lemma power_up_loop_issues:
  "power_up_loop n th s = Inr s' \<Longrightarrow> quiet th s \<Longrightarrow>
    \<exists>k. issued s' = issued s @ concat (replicate (Suc k) [cmds 55, acmds 41]) \<and> quiet th s'"
proof (induction n th s rule: power_up_loop.induct)
  case (2 n th s)
  obtain s1 where s1: "app_command th 41 Idle 0 0x40ff8000 s = Inr s1"
    using 2(2) by (auto elim: rbind_InrE)
  have i: "issued s1 = issued s @ [cmds 55, acmds 41]" "quiet th s1"
    using app_command_issues [OF s1 2(3)] by (simp_all add: acmds_def cmds_def)
  let ?t = "s1\<lparr>acmd41_response := response s1 0\<rparr>"
  show ?case
  proof (cases "bit (response s1 0) 31")
    case True
    then show ?thesis using 2(2) s1 i by (auto simp: quiet_def intro!: exI [of _ 0])
  next
    case False
    then have "power_up_loop n th (sd_event (Sleeps 1) ?t) = Inr s'" using 2(2) s1 by simp
    moreover have "quiet th (sd_event (Sleeps 1) ?t)" using i(2) by (simp add: quiet_def)
    ultimately obtain k where "issued s' = issued (sd_event (Sleeps 1) ?t) @ concat (replicate (Suc k) [cmds 55, acmds 41])"
        "quiet th s'"
      using "2.IH" [OF s1 refl] False by auto
    then show ?thesis using i(1) by (auto intro!: exI [of _ "Suc k"])
  qed
qed simp

lemma address_loop_issues:
  "address_loop n th s = Inr (rca, s') \<Longrightarrow> quiet th s \<Longrightarrow> \<exists>k. issued s' = issued s @ replicate (Suc k) (cmds 3) \<and> quiet th s'"
proof (induction n th s rule: address_loop.induct)
  case (2 n th s)
  obtain s1 where s1: "command th 3 0 s = Inr s1" using 2(2) by (auto elim: rbind_InrE)
  have i: "issued s1 = issued s @ [cmds 3]" "quiet th s1"
    using command_issues [OF s1 2(3)] by (simp_all add: cmds_def)
  show ?case
  proof (cases "response s1 0 AND 0xffff0000 = 0")
    case True
    then have "address_loop n th s1 = Inr (rca, s')" and st: "state_code Ident = card_state (response s1 0)"
      using 2(2) s1 by (auto simp: Let_def split: if_splits)
    then obtain k where "issued s' = issued s1 @ replicate (Suc k) (cmds 3)" "quiet th s'"
      using "2.IH" [OF s1 refl] True i(2) by auto
    then show ?thesis using i(1) by (auto intro!: exI [of _ "Suc k"])
  next
    case False
    then show ?thesis using 2(2) s1 i by (auto simp: Let_def split: if_splits intro!: exI [of _ 0])
  qed
qed simp

lemma one_volt_eight_fails: "switch_to_1v8_signalling th s \<noteq> Inr (True, s')"
  by (auto simp: switch_to_1v8_signalling_def Let_def elim!: rbind_InrE split: if_splits prod.splits)

lemma identify_to_ready_issues:
  assumes "identify_to_ready n th s = Inr (True, s')" and "quiet th s"
  shows "\<exists>k. issued s' = issued s @ [cmds 0, cmds 8] @ concat (replicate (Suc (Suc k)) [cmds 55, acmds 41]) \<and> quiet th s'"
    and "bit (acmd41_response s') 31 \<and> bit (acmd41_response s') 30 \<and> \<not> bit (acmd41_response s') 24"
proof -
  obtain s1 s2 s3 s4 where s: "wait_status_idle (status_reads s) s = Inr s1" "command th 0 0 s1 = Inr s2"
      "command th 8 0x1aa s2 = Inr s3" "app_command th 41 Idle 0 0 s3 = Inr s4" "power_up_loop n th s4 = Inr s'"
    and r: "bit (acmd41_response s') 30 \<and> \<not> bit (acmd41_response s') 24"
    using assms(1) one_volt_eight_fails
    by (auto simp: identify_to_ready_def elim!: rbind_InrE split: if_splits prod.splits)
  have q1: "issued s1 = issued s" "quiet th s1" using status_polling_frame [OF s(1), of th] assms(2) by simp_all
  have q2: "issued s2 = issued s1 @ [cmds 0]" "quiet th s2" using command_issues [OF s(2) q1(2)] by (simp_all add: cmds_def)
  have q3: "issued s3 = issued s2 @ [cmds 8]" "quiet th s3" using command_issues [OF s(3) q2(2)] by (simp_all add: cmds_def)
  have q4: "issued s4 = issued s3 @ [cmds 55, acmds 41]" "quiet th s4"
    using app_command_issues [OF s(4) q3(2)] by (simp_all add: cmds_def acmds_def)
  obtain k where "issued s' = issued s4 @ concat (replicate (Suc k) [cmds 55, acmds 41])" "quiet th s'"
    using power_up_loop_issues [OF s(5) q4(2)] by blast
  then show "\<exists>k. issued s' = issued s @ [cmds 0, cmds 8] @ concat (replicate (Suc (Suc k)) [cmds 55, acmds 41]) \<and> quiet th s'"
    using q1(1) q2(1) q3(1) q4(1) by auto
  have "power_up_loop n th s = Inr s' \<Longrightarrow> bit (acmd41_response s') 31" for n th s
    by (induction n th s rule: power_up_loop.induct) (auto simp: Let_def elim!: rbind_InrE split: if_splits)
  then show "bit (acmd41_response s') 31 \<and> bit (acmd41_response s') 30 \<and> \<not> bit (acmd41_response s') 24"
    using r s(5) by blast
qed

lemma identify_to_transfer_issues:
  assumes "identify_to_transfer gpu rca th s = Inr (ok, s')" and "th \<noteq> 0"
  shows "\<exists>t\<in>{[cmds 55], [cmds 55, acmds 51]}. issued s' = issued s @ [cmds 7, cmds 55, acmds 6] @ t"
proof -
  let ?e = "\<lambda>s. sd_event (Write R_CONTROL0 (control0 s OR 2)) (s\<lparr>data_thread := 0, control0 := control0 s OR 2\<rparr>)"
  let ?f = "\<lambda>s. (sd_event (Write R_BLKSIZECNT (0x10000 OR 8)) (sd_event (Write R_EXRDFIFO_EN 0) (s\<lparr>data_thread := th\<rparr>)))
    \<lparr>block_index := 0, block_size := 8\<rparr>"
  obtain s1 s2 s3 s4 s5 where s1: "command th 7 rca (s\<lparr>data_thread := th\<rparr>) = Inr s1" and s2: "sd_wait_until_woken th s1 = Inr s2"
    and s3: "app_command th 6 Tran rca 2 (?e s2) = Inr s3" and s4: "app_command th 51 Tran rca 0 (?f s3) = Inr s4"
    and s5: "sd_wait_until_woken th s4 = Inr s5" and s': "set_clock_rate gpu 25000000 s5 = Inr (ok, s')"
    using assms(1) by (auto simp: identify_to_transfer_def Let_def elim!: rbind_InrE split: if_splits prod.splits)
  have n: "cmds 7 \<noteq> cmds 55" "acmds 6 \<noteq> cmds 55" "acmds 51 \<noteq> cmds 55" by (simp_all add: cmds_def acmds_def)
  have c: "issued s1 = issued s @ [cmds 7]" "current_cmdtm s1 = cmds 7" "command_thread s1 = 0"
    using command_with_data [OF s1 n(1) assms(2)] by simp_all
  have i2: "issued s2 = issued s @ [cmds 7] \<and> current_cmdtm s2 = cmds 7"
    by (rule wait_keeps [OF s2, where P = "\<lambda>t. issued t = issued s @ [cmds 7] \<and> current_cmdtm t = cmds 7"])
      (use c n(1) in \<open>auto simp: irq_effect_def\<close>)
  have "woken s2 th = 0" using wait_wakes [OF s2] c(3) assms(2) by (simp split: if_splits)
  then have "quiet th (?e s2)" using assms(2) by (simp add: quiet_def)
  then have i3: "issued s3 = issued s @ [cmds 7, cmds 55, acmds 6]"
    using app_command_issues [OF s3 _ n(2)] i2 by simp
  have "app_progress (acmds 51) (issued (?f s3) @ [cmds 55]) s4" by (rule app_command_with_data [OF s4 n(3)])
  then have "app_progress (acmds 51) (issued s3 @ [cmds 55]) s5"
    by (intro wait_keeps [OF s5, where P = "app_progress (acmds 51) (issued s3 @ [cmds 55])"])
      (use app_progress_irq [OF n(3)] in simp_all)
  then have "issued s5 = issued s3 @ [cmds 55] \<or> issued s5 = issued s3 @ [cmds 55, acmds 51]"
    by (auto simp: app_progress_def)
  then show ?thesis using set_clock_rate_issues [OF s'] i3 by auto
qed

text \<open>C34. Commands reach the card in the order of its state diagram: when the identification succeeds, the commands written to the controller are
  the reset and the voltage check, application command 41 at least twice, the identification, the request for an address
  until the card has one, its selection, the bus width and the read of the configuration register (or at least its
  prefix), each application command announced by command 55.  The card has reported to be powered up, of high capacity, and without
  the switch to 1.8 V.\<close>

theorem commands_follow_the_protocol:
  assumes "identify_device gpu rounds th s = Inr (True, s')" and "th \<noteq> 0" and "data_thread s = 0" and "woken s th = 0"
  shows "\<exists>k m t. issued s' = issued s @ [cmds 0, cmds 8] @ concat (replicate (Suc (Suc k)) [cmds 55, acmds 41])
     @ [cmds 2] @ replicate (Suc m) (cmds 3) @ [cmds 7, cmds 55, acmds 6] @ t \<and> t \<in> {[cmds 55], [cmds 55, acmds 51]}"
proof -
  have q: "quiet th s" using assms(2-4) by (simp add: quiet_def)
  obtain s1 s2 rca where s1: "identify_to_ready rounds th s = Inr (True, s1)"
    and s2: "identify_to_standby rounds th s1 = Inr (rca, s2)" and s': "identify_to_transfer gpu rca th s2 = Inr (True, s')"
    using assms(1) by (auto simp: identify_device_def elim!: rbind_InrE split: if_splits prod.splits)
  obtain k where k: "issued s1 = issued s @ [cmds 0, cmds 8] @ concat (replicate (Suc (Suc k)) [cmds 55, acmds 41])" "quiet th s1"
    using identify_to_ready_issues(1) [OF s1 q] by blast
  obtain t where t: "command th 2 0 s1 = Inr t"
      "address_loop rounds th (t\<lparr>cid := (cid t)(0 := response t 0, 1 := response t 1, 2 := response t 2, 3 := response t 3)\<rparr>)
        = Inr (rca, s2)"
    using s2 by (auto simp: identify_to_standby_def Let_def elim!: rbind_InrE)
  have t2: "issued t = issued s1 @ [cmds 2]" "quiet th t" using command_issues [OF t(1) k(2)] by (simp_all add: cmds_def)
  have "quiet th (t\<lparr>cid := (cid t)(0 := response t 0, 1 := response t 1, 2 := response t 2, 3 := response t 3)\<rparr>)"
    using t2(2) by (simp add: quiet_def)
  then obtain m where m: "issued s2 = issued t @ replicate (Suc m) (cmds 3)" "quiet th s2"
    using address_loop_issues [OF t(2)] by auto
  obtain u where "u \<in> {[cmds 55], [cmds 55, acmds 51]}" "issued s' = issued s2 @ [cmds 7, cmds 55, acmds 6] @ u"
    using identify_to_transfer_issues [OF s' assms(2)] by blast
  then show ?thesis using k(1) t2(1) m(1) by (intro exI [of _ k] exI [of _ m] exI [of _ u]) simp
qed

text \<open>A card that answers every command.\<close>

definition done_irq :: "u32 \<Rightarrow> u32 \<Rightarrow> emmc_irq" where
  "done_irq flags r = \<lparr>irq_flags = flags, irq_resp = (\<lambda>_. r), irq_data = [7, 9]\<rparr>"

definition sample_irqs :: "emmc_irq list" where
  "sample_irqs = [done_irq 1 0, done_irq 1 0x1aa, done_irq 1 0, done_irq 1 0, done_irq 1 0, done_irq 1 0xc0ff8000,
    done_irq 1 5, done_irq 1 0x12340400, done_irq 3 0x700, done_irq 1 0x900, done_irq 1 0x900, done_irq 1 0x900, done_irq 1 0x900,
    done_irq 0x22 0]"

definition sample_gpu :: gpu where
  "sample_gpu b = b(1 := 0x80000000, 4 := 0x80000008, 6 := (if b 2 = 0x00030002 then 250000000 else 1))"

definition sample_sd :: sd where
  "sample_sd = \<lparr>command_thread = 0, current_cmdtm = 0, pending_app_cmdtm = 0, pending_app_command_arg = 0, acmd_expected_state = Idle,
    data_thread = 0, block_data = (\<lambda>_. 0), block_index = 0, block_size = 0, response = (\<lambda>_. 0), base_clock_rate_hz = 0,
    acmd41_response = 0, cid = (\<lambda>_. 0), control0 = 0, woken = (\<lambda>_. 0), sd_log = [], interrupts_to_come = sample_irqs,
    status_reads = [1, 0, 0], control1_reads = [0]\<rparr>"

definition identified :: "(bool \<times> sd) result \<Rightarrow> bool" where
  "identified r = (case r of Inr (ok, s) \<Rightarrow> ok \<and> block_data s 0 = 7 \<and> block_data s 1 = 9 | _ \<Rightarrow> False)"

lemma sample_identified: "identified (identify_device sample_gpu 1 6 sample_sd)"
  by code_simp

theorem commands_follow_the_protocol_witness:
  "\<exists>s' k m t. identify_device sample_gpu 1 6 sample_sd = Inr (True, s')
     \<and> issued s' = [cmds 0, cmds 8] @ concat (replicate (Suc (Suc k)) [cmds 55, acmds 41])
       @ [cmds 2] @ replicate (Suc m) (cmds 3) @ [cmds 7, cmds 55, acmds 6] @ t"
proof -
  obtain s' where s': "identify_device sample_gpu 1 6 sample_sd = Inr (True, s')"
    using sample_identified by (auto simp: identified_def split: sum.splits prod.splits)
  show ?thesis using commands_follow_the_protocol [OF s'] s' by (auto simp: sample_sd_def)
qed

section \<open>The clock\<close>

text \<open>The divider the controller reads from its control register.\<close>

definition divider_of :: "u32 \<Rightarrow> u32" where
  "divider_of c = (drop_bit 8 c AND 0xff) OR (push_bit 2 c AND 0x300)"

lemma clock_masks: "(0xff :: u32) = mask 8" "(0x300 :: u32) = push_bit 8 (mask 2)" "(0xff :: u64) = mask 8" "(0x300 :: u64) = push_bit 8 (mask 2)"
  "(0xffff003f :: u32) = mask 6 OR push_bit 16 (mask 16)" "(4 :: u32) = push_bit 2 1"
    by (simp_all add: mask_eq_exp_minus_1 push_bit_eq_mult)

lemma mask_range: "8 \<le> n \<and> n - 8 < (2 :: nat) \<longleftrightarrow> n = 8 \<or> n = 9" for n :: nat
  by auto

lemma divider_bits:
  "bit (divider_of c) n \<longleftrightarrow> (n < 8 \<and> bit c (8 + n)) \<or> (n = 8 \<and> bit c 6) \<or> (n = 9 \<and> bit c 7)"
proof -
  have "bit (divider_of c) n \<longleftrightarrow> (bit c (8 + n) \<and> n < 32 \<and> n < 8) \<or> ((2 \<le> n \<and> n < 32 \<and> bit c (n - 2)) \<and> 8 \<le> n \<and> n < 32 \<and> n - 8 < 32 \<and> n - 8 < 2)"
    unfolding divider_of_def clock_masks
    by (simp only: bit_or_iff bit_and_iff bit_drop_bit_eq bit_push_bit_iff bit_mask_iff possible_bit_word o_def) (simp add: conj_ac)
  also have "\<dots> \<longleftrightarrow> (n < 8 \<and> bit c (8 + n)) \<or> (bit c (n - 2) \<and> (n = 8 \<or> n = 9))"
    using mask_range [of n] by auto
  finally show ?thesis by auto
qed

lemma divider_field:
  fixes y :: u32 and d :: u64
  assumes d: "\<And>n. bit d n \<Longrightarrow> n < 10"
  shows "divider_of (((y AND 0xffff003f) OR ucast (push_bit 8 (d AND 0xff) OR drop_bit 2 (d AND 0x300))) OR 4) = ucast d"
proof (rule bit_word_eqI)
  let ?z = "ucast (push_bit 8 (d AND 0xff) OR drop_bit 2 (d AND 0x300)) :: u32"
  have y: "\<not> bit (y AND 0xffff003f) i" if "6 \<le> i" "i < 16" for i
    unfolding clock_masks using that by (simp only: bit_or_iff bit_and_iff bit_push_bit_iff bit_mask_iff) auto
  have f: "\<not> bit (4 :: u32) i" if "6 \<le> i" for i
    unfolding clock_masks using that by (simp only: bit_push_bit_iff bit_1_iff) auto
  have z0: "bit ?z i \<longleftrightarrow> i < 32 \<and> ((8 \<le> i \<and> i < 64 \<and> bit d (i - 8) \<and> i - 8 < 64 \<and> i - 8 < 8)
      \<or> (bit d (2 + i) \<and> 8 \<le> 2 + i \<and> 2 + i < 64 \<and> 2 + i - 8 < 64 \<and> 2 + i - 8 < 2))" for i
    unfolding clock_masks
    by (simp only: bit_or_iff bit_and_iff bit_drop_bit_eq bit_push_bit_iff bit_mask_iff possible_bit_word o_def unsigned_ucast_eq bit_unsigned_iff)
      (simp add: conj_ac)
  have z: "bit ?z 6 \<longleftrightarrow> bit d 8" "bit ?z 7 \<longleftrightarrow> bit d 9" "n < 8 \<Longrightarrow> bit ?z (8 + n) \<longleftrightarrow> bit d n" for n
    unfolding z0 by simp_all
  have b: "bit (((y AND 0xffff003f) OR ?z) OR 4) i \<longleftrightarrow> bit ?z i" if "6 \<le> i" "i < 16" for i
    using y [OF that] f [OF that(1)] by (simp only: bit_or_iff) blast
  fix n assume "n < LENGTH(32)"
  then have n: "n < 32" by simp
  have "bit (divider_of (((y AND 0xffff003f) OR ?z) OR 4)) n \<longleftrightarrow> n < 10 \<and> bit d n"
  proof -
    consider "n < 8" | "n = 8" | "n = 9" | "10 \<le> n" by linarith
    then show ?thesis
    proof cases
      case 1
      then show ?thesis using b [of "8 + n"] z(3) [of n] by (simp only: divider_bits) simp
    next
      case 2
      then show ?thesis using b [of 6] z(1) by (simp only: divider_bits) simp
    next
      case 3
      then show ?thesis using b [of 7] z(2) by (simp only: divider_bits) simp
    next
      case 4
      then show ?thesis by (simp only: divider_bits) simp
    qed
  qed
  then show "bit (divider_of (((y AND 0xffff003f) OR ?z) OR 4)) n = bit (ucast d :: u32) n"
    using d n by (auto simp: bit_unsigned_iff)
qed

lemma ceiling_div:
  assumes "0 < (r :: nat)" and "d = (b + r - 1) div r" and "0 < d"
  shows "b \<le> d * r" and "(d - 1) * r < b"
proof -
  let ?q = "(b + r - 1) mod r"
  have "b + r - 1 = d * r + ?q" using assms(2) by (simp add: mult.commute)
  then have e: "b + r = d * r + ?q + 1" using assms(1) by linarith
  have q: "?q < r" using assms(1) by simp
  show "b \<le> d * r" using e q by linarith
  have "(d - 1) * r + r = d * r" using assms(3) by (cases d) simp_all
  then show "(d - 1) * r < b" using e by linarith
qed

lemma clock_divider:
  fixes b :: u64 and r :: u32
  assumes "unat b < 2 ^ 32" and "r \<noteq> 0" and "d = (b + ucast r - 1) div ucast r"
  shows "unat d = (unat b + unat r - 1) div unat r"
proof -
  have r: "unat (ucast r :: u64) = unat r" "0 < unat r" "unat r < 2 ^ 32"
    using assms(2) unsigned_less [of r] by (simp_all add: unsigned_ucast_eq take_bit_nat_eq_self_iff unsigned_greater_eq unat_gt_0)
  have "unat (b + ucast r) = unat b + unat r" using r assms(1) by (subst unat_add_lem [THEN iffD1]) simp_all
  moreover have "unat (b + ucast r - 1) = unat (b + ucast r) - 1"
    using calculation r(2) by (intro unat_minus_one) auto
  ultimately show ?thesis using r(1) assms(3) by (simp add: unat_div)
qed

lemma small_bits:
  assumes "unat (d :: u64) < 2 ^ k" and "bit d n"
  shows "n < k"
proof -
  have "take_bit k (unat d) = unat d" using assms(1) by (rule take_bit_nat_eq_self)
  moreover have "bit (unat d) n" using assms(2) bit_imp_le_length [OF assms(2)] by (simp add: bit_unsigned_iff)
  ultimately show ?thesis by (metis bit_take_bit_iff)
qed

lemma status_polling_clock: "wait_status_idle vs s = Inr s' \<Longrightarrow> base_clock_rate_hz s' = base_clock_rate_hz s"
  by (induction vs s rule: wait_status_idle.induct) (auto split: if_splits)

text \<open>C35. The clock of the card is the fastest one that is not above the target: when the rate is set, the last write to the control
  register enables the clock with a ten-bit divider, which is the least one whose quotient of the base clock does not exceed the target.
  All intermediate sums stay within 64 bits.\<close>

theorem clock_is_fastest_allowed:
  assumes "set_clock_rate gpu rate s = Inr (True, s')" and "rate \<noteq> 0" and "unat (base_clock_rate_hz s) < 2 ^ 32"
  shows "\<exists>l c. sd_log s' = l @ [Write R_CONTROL1 c, Sleeps 2] \<and> bit c 2
     \<and> 0 < unat (divider_of c) \<and> unat (divider_of c) \<le> 1023
     \<and> unat (base_clock_rate_hz s') \<le> unat (divider_of c) * unat rate
     \<and> (unat (divider_of c) - 1) * unat rate < unat (base_clock_rate_hz s')"
proof -
  define b where "b = (if base_clock_rate_hz s = 0 then ucast (base_clock_rate gpu 1) else base_clock_rate_hz s)"
  define d where "d = (b + ucast rate - 1) div ucast rate"
  let ?s = "if base_clock_rate_hz s = 0 then s\<lparr>base_clock_rate_hz := ucast (base_clock_rate gpu 1)\<rparr> else s"
  have bs: "base_clock_rate_hz ?s = b" by (simp add: b_def)
  have d: "d \<noteq> 0" "d \<le> 0x3ff" using assms(1) bs by (auto simp: set_clock_rate_def Let_def d_def [symmetric] split: if_splits)
  obtain s1 c1 s2 where s1: "wait_status_idle (status_reads ?s) ?s = Inr s1" and s2: "read_control1 s1 = Inr (c1, s2)"
    and s': "base_clock_rate_hz s' = base_clock_rate_hz s2"
      "\<exists>l. sd_log s' = l @ [Write R_CONTROL1 (control1_with_divider (if c1 AND 4 = 0 then c1 AND NOT 4 else c1) d OR 4), Sleeps 2]"
    using assms(1) d bs
    by (auto simp: set_clock_rate_def Let_def d_def [symmetric] write_control1_def elim!: rbind_InrE split: if_splits)
  have "base_clock_rate_hz s2 = base_clock_rate_hz s1" using s2 by (auto simp: read_control1_def split: list.splits)
  then have rate: "base_clock_rate_hz s' = b" using s'(1) status_polling_clock [OF s1] bs by simp
  have "unat (base_clock_rate gpu 1) < 2 ^ LENGTH(32)" by (rule unsigned_less)
  then have "unat b < 2 ^ 32"
    using assms(3) by (simp add: b_def unsigned_ucast_eq take_bit_nat_eq_self_iff)
  then have ud: "unat d = (unat b + unat rate - 1) div unat rate" by (rule clock_divider [OF _ assms(2) d_def])
  have u: "0 < unat d" "unat d \<le> 1023" "0 < unat rate"
    using d assms(2) by (simp_all add: word_le_nat_alt unat_gt_0)
  then have "unat d < 2 ^ 10" by simp
  note bits = small_bits [OF this]
  define c where "c = control1_with_divider (if c1 AND 4 = 0 then c1 AND NOT 4 else c1) d OR 4"
  have "divider_of c = ucast d"
    unfolding c_def control1_with_divider_def Let_def by (rule divider_field [OF bits])
  then have dc: "unat (divider_of c) = unat d" using u(2) by (simp add: unsigned_ucast_eq take_bit_nat_eq_self_iff)
  have "bit (4 :: u32) 2" by (simp add: One_nat_def)
  then have "bit c 2" unfolding c_def bit_or_iff by blast
  then show ?thesis
    using s'(2) dc u ceiling_div [OF u(3) ud u(1)] rate unfolding c_def [symmetric] by auto
qed

theorem clock_is_fastest_allowed_witness:
  "\<exists>s'. set_clock_rate sample_gpu 400000 (sample_sd\<lparr>control1_reads := [0]\<rparr>) = Inr (True, s')
     \<and> (\<exists>l c. sd_log s' = l @ [Write R_CONTROL1 c, Sleeps 2] \<and> (unat (divider_of c) - 1) * 400000 < unat (base_clock_rate_hz s'))"
proof -
  have "(case set_clock_rate sample_gpu 400000 (sample_sd\<lparr>control1_reads := [0]\<rparr>) of Inr (ok, s') \<Rightarrow> ok | _ \<Rightarrow> False)"
    by code_simp
  then obtain s' where s': "set_clock_rate sample_gpu 400000 (sample_sd\<lparr>control1_reads := [0]\<rparr>) = Inr (True, s')"
    by (auto split: sum.splits prod.splits)
  show ?thesis using clock_is_fastest_allowed [OF s'] s' by (auto simp: sample_sd_def)
qed

text \<open>The test of the clock's state is inverted: a clock that runs is not stopped before its divider is changed.\<close>

theorem running_clock_is_not_stopped:
  assumes "control1_reads s = c # cs" and "bit c 2" and "set_clock_rate gpu rate s = Inr (True, s')"
  shows "\<exists>v l. sd_log s' = l @ [Write R_CONTROL1 v, Sleeps 2, Write R_CONTROL1 (v OR 4), Sleeps 2]
     \<and> bit v 2 \<and> (\<forall>w. Write R_CONTROL1 w \<notin> set l - set (sd_log s))"
proof -
  have log: "wait_status_idle vs t = Inr t' \<Longrightarrow> set (sd_log t') \<subseteq> insert (Sleeps 1) (set (sd_log t)) \<and> control1_reads t' = control1_reads t" for vs t t'
    by (induction vs t rule: wait_status_idle.induct) (auto split: if_splits)
  have c4: "c AND 4 \<noteq> 0" using assms(2) and_exp_eq_0_iff_not_bit [of c 2] by simp
  let ?s = "if base_clock_rate_hz s = 0 then s\<lparr>base_clock_rate_hz := ucast (base_clock_rate gpu 1)\<rparr> else s"
  define d where "d = (base_clock_rate_hz ?s + ucast rate - 1) div ucast rate"
  obtain t c1 t2 where t: "wait_status_idle (status_reads ?s) ?s = Inr t" "read_control1 t = Inr (c1, t2)"
    and s': "sd_log s' = sd_log (if c1 AND 4 = 0 then sd_event (Sleeps 2) (write_control1 (c1 AND NOT 4) t2) else t2) @
      [Write R_CONTROL1 (control1_with_divider (if c1 AND 4 = 0 then c1 AND NOT 4 else c1) d), Sleeps 2,
       Write R_CONTROL1 (control1_with_divider (if c1 AND 4 = 0 then c1 AND NOT 4 else c1) d OR 4), Sleeps 2]"
    using assms(3) by (auto simp: set_clock_rate_def Let_def d_def write_control1_def elim!: rbind_InrE split: if_splits)
  have "c1 = c" "sd_log t2 = sd_log t"
    using t(2) log [OF t(1)] assms(1) by (auto simp: read_control1_def split: list.splits if_splits)
  moreover have "bit (control1_with_divider c d) 2"
  proof -
    have "bit (0xfff0ffdf :: u32) 2" "bit (0xffff003f :: u32) 2" by (simp_all add: One_nat_def)
    then show ?thesis unfolding control1_with_divider_def Let_def bit_or_iff bit_and_iff using assms(2) by blast
  qed
  moreover have "Write R_CONTROL1 w \<notin> set (sd_log t) - set (sd_log s)" for w
    using log [OF t(1)] by (auto split: if_splits)
  ultimately show ?thesis using s' c4 by auto
qed

section \<open>Application commands and reads\<close>

text \<open>An application command runs to its end: the prefix is written, and when the card accepts it in the expected state, the interrupt handler
  writes the command itself; its completion wakes the caller with the card's response to the command, not to the prefix.  In any
  other state the driver stops.\<close>

theorem app_command_executes:
  assumes "th \<noteq> 0" and "woken s th = 0" and "acmds n \<noteq> 0" and "interrupts_to_come s = i1 # i2 # later"
    and "irq_flags i1 = 1" and "irq_flags i2 = 1"
  shows "if card_state (irq_resp i1 0) = state_code st
     then \<exists>s'. app_command th n st rca arg s = Inr s' \<and> response s' 0 = irq_resp i2 0 \<and> interrupts_to_come s' = later
       \<and> pending_app_cmdtm s' = 0 \<and> woken s' th = 0
       \<and> sd_log s' = sd_log s @ [Write R_ARG1 rca, Write R_CMDTM (cmds 55), Write R_INTERRUPT 1, Write R_ARG1 arg,
           Write R_CMDTM (acmds n), Write R_INTERRUPT 1, Wakes th]
     else app_command th n st rca arg s = Inl (BRK 2)"
proof -
  have "acmds n \<noteq> cmds 55" "cmds 55 \<noteq> 0" "acmds n AND 0x30000 \<noteq> 0x10000" "cmds 55 AND 0x30000 \<noteq> 0x10000"
    by (simp_all add: acmds_def cmds_def)
  then show ?thesis
    using assms
    by (simp add: app_command_def command_def cmdtm_def sd_wait_until_woken_def emmc_interrupt_def command_complete_def
        wake_sd_def Let_def)
qed

theorem app_command_executes_witness:
  "\<exists>s'. app_command 6 41 Idle 0 0x40ff8000 (sample_sd\<lparr>interrupts_to_come := [done_irq 1 0x100, done_irq 1 0xc0ff8000]\<rparr>) = Inr s'
     \<and> response s' 0 = 0xc0ff8000"
  using app_command_executes [of 6 "sample_sd\<lparr>interrupts_to_come := [done_irq 1 0x100, done_irq 1 0xc0ff8000]\<rparr>" 41
      "done_irq 1 0x100" "done_irq 1 0xc0ff8000" "[]" Idle 0 "0x40ff8000"]
  by (auto simp: sample_sd_def done_irq_def acmds_def card_state_def drop_bit_eq_div)

lemma block_count:
  assumes "unat (sz :: u32) < 2 ^ 25" and "512 dvd unat sz"
  shows "unat (drop_bit 16 (push_bit 16 (sz div 512) OR 512)) * 512 = unat sz"
    and "(push_bit 16 (sz div 512) OR 512) AND 0x3ff = 512"
proof -
  let ?n = "sz div 512"
  have n: "unat ?n = unat sz div 512" by (simp add: unat_div)
  then have "unat ?n < 2 ^ 16" using assms(1) by simp
  then have b: "i < 16" if "bit ?n i" for i
    using that small_bits [of "ucast ?n" 16 i] bit_imp_le_length [OF that]
    by (simp add: unsigned_ucast_eq take_bit_nat_eq_self_iff bit_unsigned_iff)
  have z: "(512 :: u32) = push_bit 9 1" "(0x3ff :: u32) = mask 10" by (simp_all add: push_bit_eq_mult mask_eq_exp_minus_1)
  have z9: "bit (512 :: u32) i \<longleftrightarrow> i = 9" for i unfolding z(1) by (simp only: bit_push_bit_iff bit_1_iff) auto
  have z10: "bit (0x3ff :: u32) i \<longleftrightarrow> i < 10" for i unfolding z(2) by (simp only: bit_mask_iff) auto
  have p: "bit (push_bit 16 ?n OR 512) i \<longleftrightarrow> 16 \<le> i \<and> i < 32 \<and> bit ?n (i - 16) \<or> i = 9" for i
    by (simp only: bit_or_iff bit_push_bit_iff z9 possible_bit_word) auto
  have "drop_bit 16 (push_bit 16 ?n OR 512) = ?n"
  proof (rule bit_word_eqI)
    show "bit (drop_bit 16 (push_bit 16 ?n OR 512)) i = bit ?n i" for i
      using b [of i] by (simp only: bit_drop_bit_eq p o_def) auto
  qed
  then show "unat (drop_bit 16 (push_bit 16 ?n OR 512)) * 512 = unat sz" using n assms(2) by simp
  show "(push_bit 16 ?n OR 512) AND 0x3ff = 512"
  proof (rule bit_word_eqI)
    show "bit ((push_bit 16 ?n OR 512) AND 0x3ff) i = bit (512 :: u32) i" for i
      by (simp only: bit_and_iff p z9 z10) auto
  qed
qed



text \<open>A card that offers 1.8 V is never accepted: the lines are sampled once and have to be low and high at the same time.\<close>

theorem one_volt_eight_is_rejected:
  assumes "identify_to_ready rounds th s = Inr (True, s')" and "quiet th s"
  shows "\<not> bit (acmd41_response s') 24" and "switch_to_1v8_signalling th s \<noteq> Inr (True, s')"
  using identify_to_ready_issues(2) [OF assms] one_volt_eight_fails by simp_all

text \<open>The request to power a device down is sent only to devices that are off already.\<close>

theorem power_down_ignores_running_devices:
  "power_state gpu i = POWER_STATE_ON \<Longrightarrow> power_down gpu i = ([], True)"
  by (simp add: power_down_def POWER_STATE_ON_def POWER_STATE_OFF_def)

end
