(* ===== verification/Pi_Devices.thy ===== *)
theory Pi_Devices
  imports Mailbox SD_Card
begin

text \<open>
  The rest of the driver of the board: the dispatcher of its interrupts (\<^verbatim>\<open>drivers/pi3gpu/enter.c\<close>), which calls the handlers of the
  mailbox and of the card, the pins (\<^verbatim>\<open>gpio.c\<close>) and the frame buffer (\<^verbatim>\<open>fb.c\<close>).

  Pins are natural numbers.  The registers of the pins hold what was written to them; the control sequence
  of the resistors is logged.  The GPU's answer to a request and the memory block the system driver returns are arguments.
\<close>

section \<open>Interrupts\<close>

record gpu_interrupt_object =
  gi_count :: u64
  gi_diff :: u64
  gi_slowest_response :: u64
  gi_all_ints :: u32

record board =
  gpu_object :: gpu_interrupt_object
  b_mailboxes :: mailboxes
  b_sd :: sd
  timer_thread_code :: u32
  b_wakes :: "u32 list"
  timer_clears :: nat

text \<open>What the handlers read from the devices.\<close>

record device_reads =
  ro_value :: u32
  mailbox0_config :: u32
  mailbox0_fifo :: "u32 list"
  emmc_state :: emmc_irq

definition timer_event :: "board \<Rightarrow> board" where
  "timer_event b = (if timer_thread_code b \<noteq> 0 then b\<lparr>b_wakes := b_wakes b @ [timer_thread_code b]\<rparr> else b)"

definition timer_interrupt :: "device_reads \<Rightarrow> board \<Rightarrow> board" where
  "timer_interrupt r b =
    (let b = b\<lparr>gpu_object := (gpu_object b)\<lparr>gi_diff := ucast (ro_value r)\<rparr>\<rparr>;
         b = (if gi_diff (gpu_object b) < gi_slowest_response (gpu_object b)
              then b\<lparr>gpu_object := (gpu_object b)\<lparr>gi_slowest_response := gi_diff (gpu_object b)\<rparr>\<rparr> else b);
         b = b\<lparr>timer_clears := timer_clears b + 1\<rparr>
     in timer_event b)"

definition interrupt_source :: "nat \<Rightarrow> device_reads \<Rightarrow> board \<Rightarrow> (device_reads \<times> board) result" where
  "interrupt_source i r b =
    (if i = 0 then Inr (r, timer_interrupt r b)
     else if i = 1 then
       rbind (mailbox_interrupt (mailbox0_config r) (mailbox0_fifo r) (b_mailboxes b)) (\<lambda>(fifo, m).
         Inr (r\<lparr>mailbox0_fifo := fifo\<rparr>, b\<lparr>b_mailboxes := m\<rparr>))
     else if i = 20 then rbind (emmc_interrupt (emmc_state r) (b_sd b)) (\<lambda>s. Inr (r, b\<lparr>b_sd := s\<rparr>))
     else Inl (BRK 2))"

fun interrupt_loop :: "nat list \<Rightarrow> u32 \<Rightarrow> device_reads \<Rightarrow> board \<Rightarrow> (device_reads \<times> board) result" where
  "interrupt_loop [] pending r b = Inr (r, b)"
| "interrupt_loop (i # is) pending r b =
    (if push_bit i 1 AND pending \<noteq> 0
     then rbind (interrupt_source i r b) (\<lambda>(r, b). interrupt_loop is pending r b)
     else interrupt_loop is pending r b)"

definition counted :: "u32 \<Rightarrow> board \<Rightarrow> board" where
  "counted pending b =
    (let b = b\<lparr>gpu_object := (gpu_object b)\<lparr>gi_count := gi_count (gpu_object b) + 1\<rparr>\<rparr>
     in b\<lparr>gpu_object := (gpu_object b)\<lparr>gi_all_ints := gi_all_ints (gpu_object b) OR pending\<rparr>\<rparr>)"

definition gpu_interrupt :: "u32 \<Rightarrow> device_reads \<Rightarrow> board \<Rightarrow> (device_reads \<times> board) result" where
  "gpu_interrupt pending r b =
    interrupt_loop [0..<32] pending r (counted pending b)"

text \<open>The top of memory, as the GPU reports it.\<close>

definition identify_available_memory :: "gpu \<Rightarrow> u32 result" where
  "identify_available_memory gpu =
    (let request = gpu (buffer [32, 0, 0x00010005, 8, 0, 0, 0, 0]) in
     if request 1 \<noteq> 0x80000000 \<or> request 4 \<noteq> 0x80000008 then Inl (BRK 1) else Inr (request 6))"

section \<open>Pins\<close>

datatype pin_event = Pud u32 | Pudclk nat u32 | Pin_yield

record pins =
  GPFSEL :: "nat \<Rightarrow> u32"
  GPHEN :: "nat \<Rightarrow> u32"
  GPLEN :: "nat \<Rightarrow> u32"
  GPAREN :: "nat \<Rightarrow> u32"
  GPAFEN :: "nat \<Rightarrow> u32"
  requesting_pull_up :: u64
  requesting_pull_down :: u64
  currently_pull_up :: u64
  currently_pull_down :: u64
  pin_events :: "pin_event list"

definition gpio_set_alternate_function_bits :: "nat \<Rightarrow> u32 \<Rightarrow> pins \<Rightarrow> pins result" where
  "gpio_set_alternate_function_bits gpio code s =
    (let offset = 3 * (gpio mod 10) in
     if gpio div 10 \<ge> 6 then Inl FAULT
     else Inr (s\<lparr>GPFSEL := (GPFSEL s)(gpio div 10 :=
       (GPFSEL s (gpio div 10) AND NOT (push_bit offset 7)) OR push_bit offset (code AND 7))\<rparr>))"

definition gpio_set_as_input :: "nat \<Rightarrow> pins \<Rightarrow> pins result" where
  "gpio_set_as_input gpio = gpio_set_alternate_function_bits gpio 0"

definition gpio_set_as_output :: "nat \<Rightarrow> pins \<Rightarrow> pins result" where
  "gpio_set_as_output gpio = gpio_set_alternate_function_bits gpio 1"

definition alts :: "u32 list" where "alts = [4, 5, 6, 7, 3, 2]"

definition gpio_set_function :: "nat \<Rightarrow> nat \<Rightarrow> pins \<Rightarrow> pins result" where
  "gpio_set_function gpio alt s =
    (if alt \<ge> 6 then Inl FAULT else gpio_set_alternate_function_bits gpio (alts ! alt) s)"

definition gpio_read :: "u32 \<Rightarrow> u32 \<Rightarrow> u64" where
  "gpio_read lev0 lev1 = ucast lev0 OR push_bit 32 (ucast lev1)"

definition gpio_request_pull_up :: "nat \<Rightarrow> pins \<Rightarrow> pins" where
  "gpio_request_pull_up gpio s = s\<lparr>requesting_pull_up := push_bit gpio 1\<rparr>"

definition gpio_request_pull_down :: "nat \<Rightarrow> pins \<Rightarrow> pins" where
  "gpio_request_pull_down gpio s = s\<lparr>requesting_pull_down := push_bit gpio 1\<rparr>"

definition low_word :: "u64 \<Rightarrow> u32" where "low_word v = ucast (v AND 0xffffffff)"

definition high_word :: "u64 \<Rightarrow> u32" where "high_word v = ucast (drop_bit 32 v)"

definition pin_log :: "pin_event list \<Rightarrow> pins \<Rightarrow> pins" where
  "pin_log es s = s\<lparr>pin_events := pin_events s @ es\<rparr>"

text \<open>The sequence that applies resistors to the pins of a mask.\<close>

definition apply_pull :: "u32 \<Rightarrow> u64 \<Rightarrow> pins \<Rightarrow> pins" where
  "apply_pull mode change s =
    (let s = pin_log [Pud mode, Pin_yield, Pin_yield, Pin_yield] s;
         s = (if low_word change \<noteq> 0 then pin_log [Pudclk 0 (low_word change)] s else s);
         s = (if high_word change \<noteq> 0 then pin_log [Pudclk 1 (high_word change)] s else s)
     in pin_log [Pin_yield, Pin_yield, Pin_yield, Pud 0, Pudclk 0 0, Pudclk 1 0] s)"

definition gpio_set_pull_up_down :: "pins \<Rightarrow> pins" where
  "gpio_set_pull_up_down s =
    (let change_up = requesting_pull_up s AND NOT (currently_pull_up s);
         change_down = requesting_pull_down s AND NOT (currently_pull_down s);
         s = (if change_up \<noteq> 0 then
                (let s = apply_pull 2 change_up s;
                     s = s\<lparr>currently_pull_up := currently_pull_up s OR requesting_pull_up s\<rparr>
                 in s\<lparr>currently_pull_down := currently_pull_down s AND NOT (requesting_pull_up s)\<rparr>) else s);
         s = (if change_down \<noteq> 0 then
                (let s = apply_pull 1 change_down s;
                     s = s\<lparr>currently_pull_down := currently_pull_down s OR requesting_pull_down s\<rparr>
                 in s\<lparr>currently_pull_up := currently_pull_up s AND NOT (requesting_pull_down s)\<rparr>) else s)
     in s\<lparr>requesting_pull_up := 0, requesting_pull_down := 0\<rparr>)"

definition set_detect :: "(nat \<Rightarrow> u32) \<Rightarrow> nat \<Rightarrow> (nat \<Rightarrow> u32) result" where
  "set_detect regs gpio =
    (if gpio div 32 \<ge> 2 then Inl FAULT else Inr (regs(gpio div 32 := regs (gpio div 32) OR push_bit (gpio mod 32) 1)))"

definition clear_detect :: "(nat \<Rightarrow> u32) \<Rightarrow> nat \<Rightarrow> (nat \<Rightarrow> u32) result" where
  "clear_detect regs gpio =
    (if gpio div 32 \<ge> 2 then Inl FAULT else Inr (regs(gpio div 32 := regs (gpio div 32) AND NOT (push_bit (gpio mod 32) 1))))"

definition gpio_set_detect_high :: "nat \<Rightarrow> pins \<Rightarrow> pins result" where
  "gpio_set_detect_high gpio s = rbind (set_detect (GPHEN s) gpio) (\<lambda>r. Inr (s\<lparr>GPHEN := r\<rparr>))"

definition gpio_set_detect_low :: "nat \<Rightarrow> pins \<Rightarrow> pins result" where
  "gpio_set_detect_low gpio s = rbind (set_detect (GPLEN s) gpio) (\<lambda>r. Inr (s\<lparr>GPLEN := r\<rparr>))"

definition gpio_set_detect_rising :: "nat \<Rightarrow> pins \<Rightarrow> pins result" where
  "gpio_set_detect_rising gpio s = rbind (set_detect (GPAREN s) gpio) (\<lambda>r. Inr (s\<lparr>GPAREN := r\<rparr>))"

definition gpio_set_detect_falling :: "nat \<Rightarrow> pins \<Rightarrow> pins result" where
  "gpio_set_detect_falling gpio s = rbind (set_detect (GPAFEN s) gpio) (\<lambda>r. Inr (s\<lparr>GPAFEN := r\<rparr>))"

definition gpio_clear_detect_high :: "nat \<Rightarrow> pins \<Rightarrow> pins result" where
  "gpio_clear_detect_high gpio s = rbind (clear_detect (GPHEN s) gpio) (\<lambda>r. Inr (s\<lparr>GPHEN := r\<rparr>))"

definition gpio_clear_detect_low :: "nat \<Rightarrow> pins \<Rightarrow> pins result" where
  "gpio_clear_detect_low gpio s = rbind (clear_detect (GPLEN s) gpio) (\<lambda>r. Inr (s\<lparr>GPLEN := r\<rparr>))"

definition gpio_clear_detect_rising :: "nat \<Rightarrow> pins \<Rightarrow> pins result" where
  "gpio_clear_detect_rising gpio s = rbind (clear_detect (GPAREN s) gpio) (\<lambda>r. Inr (s\<lparr>GPAREN := r\<rparr>))"

definition gpio_clear_detect_falling :: "nat \<Rightarrow> pins \<Rightarrow> pins result" where
  "gpio_clear_detect_falling gpio s = rbind (clear_detect (GPAFEN s) gpio) (\<lambda>r. Inr (s\<lparr>GPAFEN := r\<rparr>))"

section \<open>The frame buffer\<close>

record frame_buffer =
  fb_physical_address :: u64
  fb_memory_size :: u32
  screen_page :: u64
  screen_mapped :: bool
  fb_maps :: "(u64 \<times> u64) list"

definition display_request :: "u32 list" where
  "display_request =
    [132, 0, 0x00040001, 8, 0, 0x200000, 0, 0x00048003, 8, 0, 1920, 1080, 0x00048004, 8, 0, 1920, 1080,
     0x00048005, 4, 0, 32, 0x00048006, 4, 0, 0, 0x0004800a, 16, 0, 24, 24, 24, 24, 0]"

text \<open>\<open>block\<close> is the call of the system driver that makes a memory block of an address and a size.  The request is a static
  variable, so that a second call sends the GPU's last answer.\<close>

definition fake_size :: "u32 \<Rightarrow> u32" where
  "fake_size sz = ucast (ucast (sz + 0x1fffff) AND NOT (0x1fffff :: u64))"

definition initialise_display :: "gpu \<Rightarrow> (u64 \<Rightarrow> u32 \<Rightarrow> u64) \<Rightarrow> (nat \<Rightarrow> u32) \<Rightarrow> frame_buffer \<Rightarrow> (nat \<Rightarrow> u32) \<times> frame_buffer" where
  "initialise_display gpu block mailbox_request s =
    (let mailbox_request = gpu mailbox_request;
         s = s\<lparr>fb_physical_address := ucast (mailbox_request 5 AND 0x3fffffff), fb_memory_size := mailbox_request 6\<rparr>
     in (mailbox_request, s\<lparr>screen_page := block (fb_physical_address s) (fake_size (fb_memory_size s))\<rparr>))"

fun initialise_loop :: "nat \<Rightarrow> gpu \<Rightarrow> (u64 \<Rightarrow> u32 \<Rightarrow> u64) \<Rightarrow> (nat \<Rightarrow> u32) \<Rightarrow> frame_buffer \<Rightarrow> frame_buffer result" where
  "initialise_loop n gpu block r s =
    (if screen_page s = 0 then
       (case n of 0 \<Rightarrow> Inl HANG
        | Suc m \<Rightarrow> (let (r, s) = initialise_display gpu block r s in initialise_loop m gpu block r s))
     else Inr s)"

definition map_screen :: "nat \<Rightarrow> gpu \<Rightarrow> (u64 \<Rightarrow> u32 \<Rightarrow> u64) \<Rightarrow> (nat \<Rightarrow> u32) \<Rightarrow> frame_buffer \<Rightarrow> frame_buffer result" where
  "map_screen n gpu block r s =
    (if \<not> screen_mapped s then
       rbind (initialise_loop n gpu block r s) (\<lambda>s.
         Inr (s\<lparr>fb_maps := fb_maps s @ [(screen_page s, 0x200000)], screen_mapped := True\<rparr>))
     else Inr s)"

definition get_frame_buffer :: "nat \<Rightarrow> gpu \<Rightarrow> (u64 \<Rightarrow> u32 \<Rightarrow> u64) \<Rightarrow> (nat \<Rightarrow> u32) \<Rightarrow> frame_buffer \<Rightarrow> (u64 \<times> frame_buffer) result" where
  "get_frame_buffer n gpu block r s = rbind (initialise_loop n gpu block r s) (\<lambda>s. Inr (screen_page s, s))"

section \<open>Dispatching interrupts\<close>

lemma interrupt_loop_Cons:
  "interrupt_loop (i # is) pending r b =
    (if bit pending i then rbind (interrupt_source i r b) (\<lambda>(r, b). interrupt_loop is pending r b)
     else interrupt_loop is pending r b)"
proof -
  have "push_bit i 1 AND pending \<noteq> 0 \<longleftrightarrow> bit pending i"
    using and_exp_eq_0_iff_not_bit [of pending i] by (simp add: push_bit_eq_mult and.commute)
  then show ?thesis by simp
qed

declare interrupt_loop.simps(2) [simp del]

lemma interrupt_loop_filter:
  "interrupt_loop is pending r b = interrupt_loop (filter (bit pending) is) pending r b"
  by (induction "is" arbitrary: r b) (simp_all add: interrupt_loop_Cons)

lemma interrupt_loop_unknown:
  "i \<in> set is \<Longrightarrow> bit pending i \<Longrightarrow> i \<notin> {0, 1, 20} \<Longrightarrow> \<exists>e. interrupt_loop is pending r b = Inl e"
proof (induction "is" arbitrary: r b)
  case (Cons j "is")
  then show ?case
  proof (cases "i = j")
    case True
    then show ?thesis using Cons.prems by (simp add: interrupt_loop_Cons interrupt_source_def)
  next
    case False
    then have i: "i \<in> set is" using Cons.prems(1) by simp
    show ?thesis
      using Cons.IH [OF i Cons.prems(2,3)] by (cases "interrupt_source j r b") (auto simp: interrupt_loop_Cons split: prod.splits)
  qed
qed simp

text \<open>The dispatcher serves exactly the sources it knows, in ascending order: the timer, the mailbox and the card each get their
  handler when their bit is pending, and any other pending source stops the driver.\<close>

theorem gpu_interrupt_dispatches:
  "if \<forall>n. bit pending n \<longrightarrow> n \<in> {0, 1, 20}
   then gpu_interrupt pending r b =
     rbind (if bit pending 0 then interrupt_source 0 r (counted pending b) else Inr (r, counted pending b)) (\<lambda>(r, b).
       rbind (if bit pending 1 then interrupt_source 1 r b else Inr (r, b)) (\<lambda>(r, b).
         if bit pending 20 then interrupt_source 20 r b else Inr (r, b)))
   else \<exists>e. gpu_interrupt pending r b = Inl e"
proof (cases "\<forall>n. bit pending n \<longrightarrow> n \<in> {0, 1, 20}")
  case True
  have "filter (bit pending) [0..<32] = filter (bit pending) (filter (\<lambda>n. n \<in> {0, 1, 20}) [0..<32])"
    using True by (auto intro: filter_cong)
  also have "filter (\<lambda>n. n \<in> {0, 1, 20}) [0..<32] = [0, 1, 20]" by (simp add: upt_rec)
  finally have "gpu_interrupt pending r b = interrupt_loop [0, 1, 20] pending r (counted pending b)"
    unfolding gpu_interrupt_def
    by (metis interrupt_loop_filter)
  then have "gpu_interrupt pending r b =
     rbind (if bit pending 0 then interrupt_source 0 r (counted pending b) else Inr (r, counted pending b)) (\<lambda>(r, b).
       rbind (if bit pending 1 then interrupt_source 1 r b else Inr (r, b)) (\<lambda>(r, b).
         if bit pending 20 then interrupt_source 20 r b else Inr (r, b)))"
    by (simp add: interrupt_loop_Cons rbind_def split: sum.splits prod.splits)
  then show ?thesis unfolding if_P [OF True] .
next
  case False
  then obtain n where n: "bit pending n" "n \<notin> {0, 1, 20}" by blast
  then have "n \<in> set [0..<32]" using bit_imp_le_length [OF n(1)] by simp
  then have "\<exists>e. gpu_interrupt pending r b = Inl e"
    unfolding gpu_interrupt_def by (rule interrupt_loop_unknown [OF _ n])
  then show ?thesis unfolding if_not_P [OF False] .
qed

section \<open>Functions of pins\<close>

definition function_of_pin :: "pins \<Rightarrow> nat \<Rightarrow> u32" where
  "function_of_pin s gpio = drop_bit (3 * (gpio mod 10)) (GPFSEL s (gpio div 10)) AND 7"

lemma seven: "(7 :: u32) = mask 3" by (simp add: mask_eq_exp_minus_1)

lemma function_field:
  fixes w c :: u32
  assumes "i < 10" and "j < 10"
  shows "drop_bit (3 * j) ((w AND NOT (push_bit (3 * i) 7)) OR push_bit (3 * i) (c AND 7)) AND 7
    = (if i = j then c AND 7 else drop_bit (3 * j) w AND 7)"
proof (rule bit_word_eqI)
  let ?l = "drop_bit (3 * j) ((w AND NOT (push_bit (3 * i) 7)) OR push_bit (3 * i) (c AND 7)) AND 7"
  fix n assume "n < LENGTH(32)"
  have l: "bit ?l n \<longleftrightarrow> n < 3 \<and> (bit w (3 * j + n) \<and> \<not> (3 * i \<le> 3 * j + n \<and> 3 * j + n - 3 * i < 3)
      \<or> 3 * i \<le> 3 * j + n \<and> bit c (3 * j + n - 3 * i) \<and> 3 * j + n - 3 * i < 3)"
    unfolding seven
    using assms by (simp only: bit_and_iff bit_or_iff bit_not_iff bit_drop_bit_eq bit_push_bit_iff bit_mask_iff o_def possible_bit_word) auto
  have m: "bit (x AND 7) n \<longleftrightarrow> n < 3 \<and> bit x n" for x :: u32
    unfolding seven by (simp only: bit_and_iff bit_mask_iff) auto
  have e: "3 * i \<le> 3 * j + n \<and> 3 * j + n - 3 * i < 3 \<longleftrightarrow> i = j" if "n < 3" using that by linarith
  show "bit ?l n = bit (if i = j then c AND 7 else drop_bit (3 * j) w AND 7) n"
  proof (cases "n < 3")
    case False
    then have "\<not> bit ?l n" "\<not> bit (c AND 7) n" "\<not> bit (drop_bit (3 * j) w AND 7) n"
      using l m [of c] m [of "drop_bit (3 * j) w"] by blast+
    then show ?thesis by (simp only: if_distrib [of "\<lambda>x. bit x n"] if_cancel)
  next
    case n: True
    show ?thesis
    proof (cases "i = j")
      case True
      then have "bit ?l n \<longleftrightarrow> bit c n" using n unfolding l by simp
      then show ?thesis using True n m [of c] by simp
    next
      case False
      then have "bit ?l n \<longleftrightarrow> bit w (3 * j + n)" using n e [OF n] unfolding l by blast
      then show ?thesis using False n m [of "drop_bit (3 * j) w"] by (simp add: bit_drop_bit_eq)
    qed
  qed
qed

text \<open>Selecting the function of a pin selects exactly this: the pin reads back the function's three bits, every other pin keeps its own,
  and a pin beyond the six registers is a fault.\<close>

theorem pin_function_is_set:
  "if gpio < 60
   then \<exists>s'. gpio_set_alternate_function_bits gpio code s = Inr s' \<and> function_of_pin s' gpio = code AND 7
     \<and> (\<forall>p. p \<noteq> gpio \<longrightarrow> function_of_pin s' p = function_of_pin s p)
   else gpio_set_alternate_function_bits gpio code s = Inl FAULT"
proof (cases "gpio < 60")
  case True
  then have d: "\<not> 6 \<le> gpio div 10" by linarith
  define w where "w = (GPFSEL s (gpio div 10) AND NOT (push_bit (3 * (gpio mod 10)) 7)) OR push_bit (3 * (gpio mod 10)) (code AND 7)"
  define s' where "s' = s\<lparr>GPFSEL := (GPFSEL s)(gpio div 10 := w)\<rparr>"
  have s': "gpio_set_alternate_function_bits gpio code s = Inr s'"
    using d by (simp only: gpio_set_alternate_function_bits_def Let_def if_False s'_def w_def)
  have f: "function_of_pin s' p = (if p div 10 = gpio div 10 \<and> gpio mod 10 = p mod 10 then code AND 7 else function_of_pin s p)" for p
    using function_field [of "gpio mod 10" "p mod 10" "GPFSEL s (gpio div 10)" code, folded w_def]
    by (simp add: function_of_pin_def s'_def)
  have "function_of_pin s' p = function_of_pin s p" if "p \<noteq> gpio" for p
    using that f [of p] by (metis div_mult_mod_eq)
  moreover have "function_of_pin s' gpio = code AND 7" using f [of gpio] by simp
  ultimately show ?thesis unfolding if_P [OF True] using s' by blast
next
  case False
  then have "6 \<le> gpio div 10" by linarith
  then show ?thesis using False by (simp add: gpio_set_alternate_function_bits_def)
qed

section \<open>Resistors\<close>

lemma apply_pull_frame [simp]:
  "requesting_pull_up (apply_pull m c s) = requesting_pull_up s" "requesting_pull_down (apply_pull m c s) = requesting_pull_down s"
  "currently_pull_up (apply_pull m c s) = currently_pull_up s" "currently_pull_down (apply_pull m c s) = currently_pull_down s"
  by (simp_all add: apply_pull_def pin_log_def Let_def)

lemma pull_masks:
  "currently_pull_up (gpio_set_pull_up_down s) =
    (if requesting_pull_down s AND NOT (currently_pull_down s) \<noteq> 0
     then (currently_pull_up s OR requesting_pull_up s) AND NOT (requesting_pull_down s)
     else currently_pull_up s OR requesting_pull_up s)"
  "currently_pull_down (gpio_set_pull_up_down s) =
    (let down = (if requesting_pull_up s AND NOT (currently_pull_up s) \<noteq> 0
       then currently_pull_down s AND NOT (requesting_pull_up s) else currently_pull_down s)
     in if requesting_pull_down s AND NOT (currently_pull_down s) \<noteq> 0 then down OR requesting_pull_down s else down)"
proof -
  have "currently_pull_up s OR requesting_pull_up s = currently_pull_up s" if "requesting_pull_up s AND NOT (currently_pull_up s) = 0"
  proof (rule bit_word_eqI)
    fix n
    have "\<not> (bit (requesting_pull_up s) n \<and> \<not> bit (currently_pull_up s) n \<and> n < 64)"
      using that by (auto simp: bit_eq_iff bit_simps)
    then show "n < LENGTH(64) \<Longrightarrow> bit (currently_pull_up s OR requesting_pull_up s) n = bit (currently_pull_up s) n"
      by (auto simp: bit_simps)
  qed
  then show "currently_pull_up (gpio_set_pull_up_down s) =
    (if requesting_pull_down s AND NOT (currently_pull_down s) \<noteq> 0
     then (currently_pull_up s OR requesting_pull_up s) AND NOT (requesting_pull_down s)
     else currently_pull_up s OR requesting_pull_up s)"
    by (auto simp: gpio_set_pull_up_down_def Let_def)
qed (auto simp: gpio_set_pull_up_down_def Let_def)

text \<open>No pin has both resistors.\<close>

definition pins_ok :: "pins \<Rightarrow> bool" where
  "pins_ok s \<longleftrightarrow> currently_pull_up s AND currently_pull_down s = 0"

lemma disjoint_masks: "(a :: u64) AND b = 0 \<longleftrightarrow> (\<forall>n. \<not> (bit a n \<and> bit b n))"
proof
  assume "a AND b = 0"
  then have "\<not> bit (a AND b) n" for n by simp
  then show "\<forall>n. \<not> (bit a n \<and> bit b n)" by (simp add: bit_and_iff)
next
  assume "\<forall>n. \<not> (bit a n \<and> bit b n)"
  then show "a AND b = 0" by (intro bit_word_eqI) (simp add: bit_and_iff)
qed

lemma bit_u64_less: "bit (a :: u64) n \<Longrightarrow> n < 64"
  by (drule bit_imp_le_length) simp

lemma bit_not_u64: "bit (NOT (a :: u64)) n \<longleftrightarrow> n < 64 \<and> \<not> bit a n"
  by (simp add: bit_not_iff)

lemma not_within: "(a :: u64) AND NOT b = 0 \<longleftrightarrow> (\<forall>n. bit a n \<longrightarrow> bit b n)"
  using bit_u64_less by (auto simp: disjoint_masks bit_not_u64)

text \<open>The driver's record of the resistors stays consistent and follows requests: no pin is ever recorded with both, a requested
  pin ends up pulled up and not down, every other pin keeps what it had, and no request is left.\<close>

theorem pull_up_request_is_applied:
  assumes "pins_ok s" and "requesting_pull_up s = 0" and "requesting_pull_down s = 0" and "gpio < 64"
  shows "let s' = gpio_set_pull_up_down (gpio_request_pull_up gpio s) in
     pins_ok s' \<and> (\<forall>n. bit (currently_pull_up s') n \<longleftrightarrow> bit (currently_pull_up s) n \<or> n = gpio)
     \<and> (\<forall>n. bit (currently_pull_down s') n \<longleftrightarrow> bit (currently_pull_down s) n \<and> n \<noteq> gpio)
     \<and> requesting_pull_up s' = 0 \<and> requesting_pull_down s' = 0"
proof -
  let ?r = "gpio_request_pull_up gpio s"
  let ?s = "gpio_set_pull_up_down ?r"
  have q: "requesting_pull_up ?r = push_bit gpio 1" by (simp add: gpio_request_pull_up_def)
  have b: "bit (requesting_pull_up ?r) n \<longleftrightarrow> n = gpio" for n
    unfolding q using assms(4) by (simp only: bit_push_bit_iff bit_1_iff possible_bit_word) auto
  have f: "requesting_pull_down ?r = 0" "currently_pull_up ?r = currently_pull_up s" "currently_pull_down ?r = currently_pull_down s"
    using assms(3) by (simp_all add: gpio_request_pull_up_def)
  have d: "\<not> (bit (currently_pull_up s) n \<and> bit (currently_pull_down s) n)" for n
    using assms(1) by (simp add: pins_ok_def disjoint_masks)
  have up: "bit (currently_pull_up ?s) n \<longleftrightarrow> bit (currently_pull_up s) n \<or> n = gpio" for n
    using b by (simp add: pull_masks(1) f bit_or_iff)
  have "bit (currently_pull_down ?s) n \<longleftrightarrow> bit (currently_pull_down s) n \<and> n \<noteq> gpio" for n
  proof (cases "requesting_pull_up ?r AND NOT (currently_pull_up s) = 0")
    case True
    then have "bit (currently_pull_up s) gpio" using b by (simp add: not_within)
    then show ?thesis using True d [of gpio] by (auto simp: pull_masks(2) f)
  next
    case False
    then show ?thesis
      using b bit_u64_less by (auto simp: pull_masks(2) f bit_and_iff bit_not_u64)
  qed
  moreover have "requesting_pull_up ?s = 0 \<and> requesting_pull_down ?s = 0" by (simp add: gpio_set_pull_up_down_def Let_def)
  ultimately show ?thesis using up d by (auto simp: Let_def pins_ok_def disjoint_masks)
qed

text \<open>A second request before the resistors are set replaces the first.\<close>

theorem pull_up_request_is_overwritten:
  "gpio_request_pull_up p (gpio_request_pull_up q s) = gpio_request_pull_up p s"
  by (simp add: gpio_request_pull_up_def)

section \<open>The size of the screen\<close>

lemma fake_size_bounds:
  assumes "unat sz \<le> 2 ^ 32 - 2 ^ 21"
  shows "2 ^ 21 dvd unat (fake_size sz)" and "unat sz \<le> unat (fake_size sz)" and "unat (fake_size sz) < unat sz + 2 ^ 21"
proof -
  have m: "(0x1fffff :: u64) = mask 21" by (simp add: mask_eq_exp_minus_1)
  have s: "unat (sz + 0x1fffff) = unat sz + 0x1fffff"
    using assms by (subst unat_add_lem [THEN iffD1]) simp_all
  let ?n = "(unat sz + 0x1fffff) div 2 ^ 21 * 2 ^ 21"
  have "unat (ucast (sz + 0x1fffff) AND NOT (0x1fffff :: u64)) = ?n"
    unfolding m using s by (subst unat_and_not_mask) (simp_all add: unsigned_ucast_eq take_bit_nat_eq_self_iff)
  moreover have "?n < 2 ^ 32" using assms by simp
  ultimately have f: "unat (fake_size sz) = ?n"
    by (simp add: fake_size_def unsigned_ucast_eq take_bit_nat_eq_self_iff)
  show "2 ^ 21 dvd unat (fake_size sz)" unfolding f by simp
  have "unat sz + 0x1fffff = ?n + (unat sz + 0x1fffff) mod 2 ^ 21" by simp
  moreover have "(unat sz + 0x1fffff) mod 2 ^ 21 < 2 ^ 21" by simp
  ultimately show "unat sz \<le> unat (fake_size sz)" "unat (fake_size sz) < unat sz + 2 ^ 21" unfolding f by simp_all
qed

definition sample_pins :: pins where
  "sample_pins = \<lparr>GPFSEL = (\<lambda>_. 0), GPHEN = (\<lambda>_. 0), GPLEN = (\<lambda>_. 0), GPAREN = (\<lambda>_. 0), GPAFEN = (\<lambda>_. 0),
    requesting_pull_up = 0, requesting_pull_down = 0, currently_pull_up = 0x3fc01c000001ff, currently_pull_down = 0xfe3cffffe00,
    pin_events = []\<rparr>"

theorem pull_up_request_is_applied_witness:
  "bit (currently_pull_up (gpio_set_pull_up_down (gpio_request_pull_up 33 sample_pins))) 33
     \<and> \<not> bit (currently_pull_down (gpio_set_pull_up_down (gpio_request_pull_up 33 sample_pins))) 33"
  using pull_up_request_is_applied [of sample_pins 33] by (simp add: Let_def pins_ok_def sample_pins_def)

end
