(* ===== verification/Show_Page.thy ===== *)
theory Show_Page
  imports System_Properties
begin

text \<open>
  The page display (\<^verbatim>\<open>drivers/show_page.c\<close>): hexadecimal digits drawn as eight by eight pixel
  glyphs into the frame buffer, and the service that shows a page of memory as sixteen columns of words.

  The memory of the driver is a function from byte addresses of 32-bit words; the frame buffer is mapped at two
  megabytes, 1920 pixels to the line.  The glyph loop walks a pointer and a one-bit mask over the glyph; it is shown
  to draw the glyph at its coordinates and to write nothing else.  A reader that looks at lit pixels only is the
  specification of the screen: it reads back every word of a page that was shown.  The page to show is
  mapped by the system driver, whose operations are those of \<^verbatim>\<open>System_Driver\<close>.
\<close>

section \<open>Drawing\<close>

definition vwidth :: u32 where "vwidth = 1920"
definition mapped_address :: u64 where "mapped_address = 0x200000"

definition Black :: u32 where "Black = 0xff000000"
definition Green :: u32 where "Green = 0xff00ff00"
definition White :: u32 where "White = 0xffffffff"

definition bitmaps :: "u8 list list" where
  "bitmaps =
    [[0x3c, 0x66, 0x66, 0x66, 0x66, 0x66, 0x3c, 0x00],
     [0x1c, 0x3c, 0x0c, 0x0c, 0x0c, 0x0c, 0x1e, 0x00],
     [0x3c, 0x66, 0x0c, 0x18, 0x30, 0x7e, 0x7e, 0x00],
     [0x3c, 0x66, 0x06, 0x1e, 0x06, 0x66, 0x3c, 0x00],
     [0x18, 0x30, 0x60, 0x6c, 0x7e, 0x0c, 0x0c, 0x00],
     [0x7e, 0x60, 0x60, 0x7c, 0x06, 0x66, 0x3c, 0x00],
     [0x3c, 0x66, 0x60, 0x7c, 0x66, 0x66, 0x3c, 0x00],
     [0x7e, 0x06, 0x0c, 0x18, 0x30, 0x60, 0x60, 0x00],
     [0x3c, 0x66, 0x66, 0x3c, 0x66, 0x66, 0x3c, 0x00],
     [0x3c, 0x66, 0x66, 0x3e, 0x06, 0x66, 0x38, 0x00],
     [0x3c, 0x66, 0x66, 0x66, 0x7e, 0x66, 0x66, 0x00],
     [0x78, 0x66, 0x66, 0x7c, 0x66, 0x66, 0x78, 0x00],
     [0x3c, 0x66, 0x60, 0x60, 0x60, 0x66, 0x3c, 0x00],
     [0x78, 0x6c, 0x66, 0x66, 0x66, 0x6c, 0x78, 0x00],
     [0x7e, 0x60, 0x60, 0x78, 0x60, 0x60, 0x7e, 0x00],
     [0x7e, 0x60, 0x60, 0x78, 0x60, 0x60, 0x60, 0x00]]"

type_synonym memory = "u64 \<Rightarrow> u32"

text \<open>The address of an element of the array of pixels; the index is computed in 32 bits.\<close>

definition pixel :: "u32 \<Rightarrow> u64" where
  "pixel index = mapped_address + 4 * ucast index"

definition set_pixel :: "u32 \<Rightarrow> u32 \<Rightarrow> u32 \<Rightarrow> memory \<Rightarrow> memory" where
  "set_pixel x y colour m = m(pixel (x + y * vwidth) := colour)"

text \<open>Reading eight bytes as a number of 64 bits, the first byte lowest.\<close>

fun little_endian :: "u8 list \<Rightarrow> u64" where
  "little_endian [] = 0"
| "little_endian (b # bs) = ucast b OR push_bit 8 (little_endian bs)"

lemma mask_shifted_out:
  fixes b :: u64
  assumes "b \<noteq> 0"
  shows "(LEAST n. push_bit n (push_bit 1 b) = 0) < (LEAST n. push_bit n b = 0)"
proof -
  define n where "n = (LEAST n. push_bit n b = 0)"
  have "push_bit 64 b = 0" by (intro bit_eqI) (auto simp: bit_simps)
  then have n: "push_bit n b = 0" unfolding n_def by (rule LeastI)
  then obtain k where k: "n = Suc k" using assms by (cases n) auto
  then have "push_bit k (push_bit 1 b) = 0" using n by (simp add: push_bit_push_bit One_nat_def)
  then have "(LEAST n. push_bit n (push_bit 1 b) = 0) \<le> k" by (rule Least_le)
  then show ?thesis using k n_def by simp
qed

function show_nibble_loop :: "u64 \<Rightarrow> u32 \<Rightarrow> u64 \<Rightarrow> u64 \<Rightarrow> memory \<Rightarrow> memory" where
  "show_nibble_loop bitmap colour b p m =
    (if b \<noteq> 0 then
       (let m = m(p := if b AND bitmap \<noteq> 0 then colour else Black);
            p = p - 4;
            b = push_bit 1 b;
            line_offset = vwidth + 8;
            p = if b AND 0x0101010101010101 \<noteq> 0 then p + 4 * ucast line_offset else p
        in show_nibble_loop bitmap colour b p m)
     else m)"
  by pat_completeness auto
termination
  by (relation "measure (\<lambda>(bitmap, colour, b, p, m). LEAST n. push_bit n b = 0)")
     (auto simp: mask_shifted_out [simplified])

declare show_nibble_loop.simps [simp del]

definition show_nibble :: "u32 \<Rightarrow> u32 \<Rightarrow> u32 \<Rightarrow> u32 \<Rightarrow> memory \<Rightarrow> memory" where
  "show_nibble x y nibble colour m =
    (let bitmap = little_endian (bitmaps ! unat (nibble AND 0xf));
         p = pixel ((x + 7) + y * vwidth)
     in show_nibble_loop bitmap colour 1 p m)"

text \<open>The digits that are left, from the most significant one: the shift is four times their number less one.\<close>

fun show_word_loop :: "nat \<Rightarrow> u32 \<Rightarrow> u32 \<Rightarrow> u32 \<Rightarrow> u32 \<Rightarrow> memory \<Rightarrow> memory" where
  "show_word_loop 0 x y number colour m = m"
| "show_word_loop (Suc n) x y number colour m =
    show_word_loop n (x + 8) y number colour (show_nibble x y (drop_bit (4 * n) number AND 0xf) colour m)"

definition show_word :: "u32 \<Rightarrow> u32 \<Rightarrow> u32 \<Rightarrow> u32 \<Rightarrow> memory \<Rightarrow> memory" where
  "show_word x y number colour m = show_word_loop 8 x y number colour m"

definition show_qword :: "u32 \<Rightarrow> u32 \<Rightarrow> u64 \<Rightarrow> u32 \<Rightarrow> memory \<Rightarrow> memory" where
  "show_qword x y number colour m =
    show_word (x + 66) y (ucast (number AND 0xffffffff)) colour (show_word x y (ucast (drop_bit 32 number)) colour m)"

definition page_colour :: "nat \<Rightarrow> nat \<Rightarrow> u32" where
  "page_colour x y = (if y AND 7 = 0 \<or> x AND 7 = 0 then Green else White)"

text \<open>The words of the page are read from memory as they are drawn.\<close>

definition page_word :: "u64 \<Rightarrow> memory \<Rightarrow> nat \<Rightarrow> u32" where
  "page_word number m i = m (number + 4 * of_nat i)"

definition show_page_row :: "u64 \<Rightarrow> u32 \<Rightarrow> nat \<Rightarrow> memory \<Rightarrow> memory" where
  "show_page_row number label y m =
    fold (\<lambda>x m. show_word (of_nat (x * 68 + 72)) (of_nat (y * 8 + 64)) (page_word number m (x + y * 16)) (page_colour x y) m)
      [0..<16] (show_word 0 (of_nat (y * 8 + 64)) (label + of_nat (y * 64)) White m)"

definition show_page :: "u64 \<Rightarrow> u32 \<Rightarrow> memory \<Rightarrow> memory" where
  "show_page number label m = fold (show_page_row number label) [0..<4 * 16] m"

section \<open>The service\<close>

text \<open>The driver's memory, its two variables and the system driver it calls.  \<open>devices\<close>, an address that the linker
  chooses, is where the page to show is mapped.\<close>

record display =
  d_memory :: memory
  page_to_display :: u64
  page_start :: u32
  d_system :: system_world

definition show_4bits :: "u64 \<Rightarrow> u64 \<Rightarrow> u64 \<Rightarrow> u64 \<Rightarrow> display \<Rightarrow> display" where
  "show_4bits x y val colour d =
    d\<lparr>d_memory := show_nibble (ucast x) (ucast y) (ucast (val AND 0xf)) (ucast colour) (d_memory d)\<rparr>"

definition show_8bits :: "u64 \<Rightarrow> u64 \<Rightarrow> u64 \<Rightarrow> u64 \<Rightarrow> display \<Rightarrow> display" where
  "show_8bits x y val colour d =
    (let m = show_nibble (ucast (x + 8)) (ucast y) (ucast (val AND 0xf)) (ucast colour) (d_memory d);
         m = show_nibble (ucast x) (ucast y) (ucast (drop_bit 4 val AND 0xf)) (ucast colour) m
     in d\<lparr>d_memory := m\<rparr>)"

definition show_32bits :: "u64 \<Rightarrow> u64 \<Rightarrow> u64 \<Rightarrow> u64 \<Rightarrow> display \<Rightarrow> display" where
  "show_32bits x y val colour d =
    d\<lparr>d_memory := show_word (ucast x) (ucast y) (ucast val) (ucast colour) (d_memory d)\<rparr>"

definition show_64bits :: "u64 \<Rightarrow> u64 \<Rightarrow> u64 \<Rightarrow> u64 \<Rightarrow> display \<Rightarrow> display" where
  "show_64bits x y val colour d =
    d\<lparr>d_memory := show_qword (ucast x) (ucast y) val (ucast colour) (d_memory d)\<rparr>"

text \<open>\<open>me\<close> is the calling thread and \<open>mp\<close> the driver's map, the object of its system interface.\<close>

definition set_page_to_show :: "u64 \<Rightarrow> u64 \<Rightarrow> u64 \<Rightarrow> u64 \<Rightarrow> u64 \<Rightarrow> display \<Rightarrow> display result" where
  "set_page_to_show me mp devices page start d =
    rbind (if page_to_display d \<noteq> 0 then
             rbind (unmap me mp devices (d_system d)) (\<lambda>(old_block, w). Inr (d\<lparr>d_system := w\<rparr>))
           else Inr d) (\<lambda>d.
    rbind (map_at me mp page devices (d_system d)) (\<lambda>w.
      Inr (d\<lparr>d_system := w, page_to_display := page, page_start := ucast start\<rparr>)))"

definition show_page_service :: "u64 \<Rightarrow> display \<Rightarrow> display" where
  "show_page_service devices d =
    d\<lparr>d_memory := show_page devices (page_start d) (d_memory d)\<rparr>"

text \<open>The start of the driver; the frame buffer's block and its physical address come from the frame buffer and the
  memory block services, the interface to pass from the kernel.\<close>

definition show_page_entry ::
  "u64 \<Rightarrow> u64 \<Rightarrow> u64 \<Rightarrow> u64 \<Rightarrow> u64 \<Rightarrow> u64 \<Rightarrow> u64 \<Rightarrow> display \<Rightarrow> display result" where
  "show_page_entry me mp screen_page pa name_crc tnd type_crc d =
    rbind (map_at me mp screen_page mapped_address (d_system d)) (\<lambda>w.
    let m = show_word 900 500 (ucast pa) 0xffffffff (d_memory d) in
    rbind (register_service name_crc tnd type_crc (w_system w)) (\<lambda>s.
      Inr (d\<lparr>d_memory := m, d_system := w\<lparr>w_system := s\<rparr>\<rparr>)))"

section \<open>What is drawn\<close>

text \<open>The address of the pixel in a column and a line of the screen.\<close>

definition screen_pixel :: "nat \<Rightarrow> nat \<Rightarrow> u64" where
  "screen_pixel x y = mapped_address + 4 * of_nat (x + y * 1920)"

text \<open>The pixels of a rectangle.\<close>

definition rectangle :: "nat \<Rightarrow> nat \<Rightarrow> nat \<Rightarrow> u64 set" where
  "rectangle width x y = {screen_pixel (x + j) (y + i) | j i. j < width \<and> i < 8}"

definition on_screen :: "nat \<Rightarrow> nat \<Rightarrow> nat \<Rightarrow> bool" where
  "on_screen width x y \<longleftrightarrow> x + width \<le> 1920 \<and> y + 8 \<le> 1080"

lemma screen_pixel_unat:
  assumes "x < 1920" and "y < 1080"
  shows "unat (screen_pixel x y) = 0x200000 + 4 * (x + y * 1920)"
proof -
  have "x + y * 1920 < 2073600" using assms by linarith
  moreover have "screen_pixel x y = of_nat (0x200000 + 4 * (x + y * 1920))"
    by (simp add: screen_pixel_def mapped_address_def)
  ultimately show ?thesis by (simp only: unat_of_nat) simp
qed

lemma screen_pixel_inject:
  assumes "x < 1920" and "y < 1080" and "x' < 1920" and "y' < 1080"
  shows "screen_pixel x y = screen_pixel x' y' \<longleftrightarrow> x = x' \<and> y = y'"
proof
  assume "screen_pixel x y = screen_pixel x' y'"
  then have "x + y * 1920 = x' + y' * 1920"
    using screen_pixel_unat [OF assms(1,2)] screen_pixel_unat [OF assms(3,4)] by simp
  then have "(x + y * 1920) mod 1920 = (x' + y' * 1920) mod 1920" "(x + y * 1920) div 1920 = (x' + y' * 1920) div 1920"
    by (simp_all only:)
  then show "x = x' \<and> y = y'" using assms by simp
qed simp

lemma little_endian_bit:
  "n < 64 \<Longrightarrow> bit (little_endian bs) n \<longleftrightarrow> n div 8 < length bs \<and> bit (bs ! (n div 8)) (n mod 8)"
proof (induction bs arbitrary: n)
  case (Cons b bs)
  show ?case
  proof (cases "n < 8")
    case True
    then show ?thesis using Cons.prems by (auto simp: bit_simps)
  next
    case False
    then obtain k where k: "n = k + 8" by (metis add.commute le_Suc_ex not_less)
    have "bit (ucast b :: u64) n \<longleftrightarrow> False" using k by (auto simp: bit_simps dest: bit_imp_le_length)
    moreover have "(k + 8) div 8 = Suc (k div 8)" by simp
    ultimately show ?thesis using Cons k by (simp add: bit_simps del: div_add_self2)
  qed
qed simp

text \<open>The mask at the step for pixel \<open>k\<close> is the power of two \<open>k\<close>, and the pointer is at column \<open>7 - k mod 8\<close> of line
  \<open>k div 8\<close>.\<close>

definition step_pixel :: "nat \<Rightarrow> nat \<Rightarrow> nat \<Rightarrow> u64" where
  "step_pixel x y k = screen_pixel (x + (7 - k mod 8)) (y + k div 8)"

lemma power_mask: "push_bit k 1 AND (w :: u64) \<noteq> 0 \<longleftrightarrow> bit w k"
proof -
  have "push_bit k 1 AND w = (if bit w k then push_bit k 1 else 0)"
    by (intro bit_eqI) (auto simp: bit_simps)
  moreover have "bit (push_bit k (1 :: u64)) k" if "bit w k"
    using bit_imp_le_length [OF that] by (simp add: bit_simps)
  moreover have "bit w k \<Longrightarrow> k < 64" using bit_imp_le_length [of w k] by simp
  ultimately show ?thesis by auto
qed

lemma power_out: "64 \<le> k \<Longrightarrow> push_bit k (1 :: u64) = 0"
  by (intro bit_eqI) (auto simp: bit_simps)

lemma line_mask:
  assumes "n < 64"
  shows "bit (0x0101010101010101 :: u64) n \<longleftrightarrow> n mod 8 = 0"
proof -
  have "replicate 8 (1 :: u8) = [1, 1, 1, 1, 1, 1, 1, 1]" by (simp add: numeral_eq_Suc)
  then have ones: "0x0101010101010101 = little_endian (replicate 8 1)" by simp
  have "n div 8 < 8" using assms less_mult_imp_div_less [of n 8 8] by simp
  then show ?thesis unfolding ones little_endian_bit [OF assms] by (simp add: bit_1_iff)
qed

lemma step_pixel_next:
  assumes "(k + 1) mod 8 \<noteq> 0"
  shows "step_pixel x y k - 4 = step_pixel x y (k + 1)"
proof -
  have d: "(k + 1) div 8 = k div 8" and "(k + 1) mod 8 = k mod 8 + 1"
    using assms by (auto simp: div_Suc mod_Suc)
  moreover have "k mod 8 < 7" using assms mod_less_divisor [of 8 k] by (auto simp: mod_Suc less_Suc_eq split: if_splits)
  ultimately have "7 - k mod 8 = Suc (7 - (k + 1) mod 8)" by arith
  then have "x + (7 - k mod 8) + (y + k div 8) * 1920 = Suc (x + (7 - (k + 1) mod 8) + (y + (k + 1) div 8) * 1920)"
    unfolding d by (simp only: add_Suc add_Suc_right)
  then show ?thesis unfolding step_pixel_def screen_pixel_def by (simp only: of_nat_Suc) simp
qed

lemma step_pixel_next_line:
  assumes "(k + 1) mod 8 = 0"
  shows "step_pixel x y k - 4 + 4 * ucast (vwidth + 8) = step_pixel x y (k + 1)"
proof -
  have "(k + 1) div 8 = k div 8 + 1" "k mod 8 = 7" using assms by (auto simp: div_Suc mod_Suc split: if_splits)
  then have "x + (7 - (k + 1) mod 8) + (y + (k + 1) div 8) * 1920 = x + (7 - k mod 8) + (y + k div 8) * 1920 + 1927"
    using assms by simp
  then show ?thesis unfolding step_pixel_def screen_pixel_def vwidth_def by (simp only: of_nat_add) simp
qed

lemma step_pixel_inject:
  assumes "on_screen 8 x y" and "k < 64" and "k' < 64"
  shows "step_pixel x y k = step_pixel x y k' \<longleftrightarrow> k = k'"
proof -
  have b: "x + (7 - n mod 8) < 1920" "y + n div 8 < 1080" if "n < 64" for n
    using assms(1) less_mult_imp_div_less [of n 8 8] that by (auto simp: on_screen_def)
  have "step_pixel x y k = step_pixel x y k' \<longleftrightarrow> 7 - k mod 8 = 7 - k' mod 8 \<and> k div 8 = k' div 8"
    unfolding step_pixel_def screen_pixel_inject [OF b b, OF assms(2,2,3,3)] by (simp only: add_left_cancel)
  also have "\<dots> \<longleftrightarrow> k mod 8 = k' mod 8 \<and> k div 8 = k' div 8"
    using mod_less_divisor [of 8 k] mod_less_divisor [of 8 k'] by auto
  also have "\<dots> \<longleftrightarrow> k = k'" by (metis div_mult_mod_eq)
  finally show ?thesis .
qed

lemma show_nibble_loop_draws:
  assumes "on_screen 8 x y" and "k \<le> 64"
  shows "show_nibble_loop bitmap colour (push_bit k 1) (step_pixel x y k) m q =
    (case find (\<lambda>j. q = step_pixel x y j) [k..<64] of
       Some j \<Rightarrow> if bit bitmap j then colour else Black
     | None \<Rightarrow> m q)"
  using assms(2)
proof (induction "64 - k" arbitrary: k m)
  case 0
  then have "push_bit k (1 :: u64) = 0" by (intro power_out) simp
  then show ?case using 0 by (simp add: show_nibble_loop.simps)
next
  case (Suc n)
  then have k: "k < 64" "[k..<64] = k # [k + 1..<64]" by (auto simp: upt_conv_Cons One_nat_def)
  define c where "c = (if bit bitmap k then colour else Black)"
  define p where "p = (if push_bit (k + 1) 1 AND (0x0101010101010101 :: u64) \<noteq> 0
    then step_pixel x y k - 4 + 4 * ucast (vwidth + 8) else step_pixel x y k - 4)"
  have nz: "push_bit k (1 :: u64) \<noteq> 0" using k(1) power_mask [of k "NOT 0"] by (auto simp: bit_simps)
  have mask: "push_bit 1 (push_bit k 1) = (push_bit (k + 1) 1 :: u64)"
    by (simp only: push_bit_push_bit add.commute)
  have "show_nibble_loop bitmap colour (push_bit k 1) (step_pixel x y k) m
    = show_nibble_loop bitmap colour (push_bit (k + 1) 1) p (m(step_pixel x y k := c))"
    by (subst show_nibble_loop.simps) (simp only: Let_def nz mask power_mask c_def p_def if_True not_False_eq_True)
  moreover have "show_nibble_loop bitmap colour (push_bit (k + 1) 1) p (m(step_pixel x y k := c))
    = show_nibble_loop bitmap colour (push_bit (k + 1) 1) (step_pixel x y (k + 1)) (m(step_pixel x y k := c))"
  proof (cases "k + 1 < 64")
    case True
    then have "p = step_pixel x y (k + 1)"
      unfolding p_def power_mask line_mask [OF True]
      using step_pixel_next [of k x y] step_pixel_next_line [of k x y] by (cases "(k + 1) mod 8 = 0") simp_all
    then show ?thesis by simp
  next
    case False
    then have "push_bit (k + 1) (1 :: u64) = 0" by (intro power_out) simp
    then show ?thesis by (simp add: show_nibble_loop.simps)
  qed
  moreover note Suc.hyps(1) [of "k + 1" "m(step_pixel x y k := c)"]
  moreover have "find (\<lambda>j. step_pixel x y k = step_pixel x y j) [k + 1..<64] = None"
    using k(1) step_pixel_inject [OF assms(1)] by (auto simp: find_None_iff)
  ultimately show ?case using Suc.hyps(2) k by (auto simp: c_def split: option.split)
qed

text \<open>The glyph of a digit: whether the pixel in line \<open>i\<close> and column \<open>j\<close> is lit.\<close>

definition glyph :: "nat \<Rightarrow> nat \<Rightarrow> nat \<Rightarrow> bool" where
  "glyph d i j = bit (bitmaps ! d ! i) (7 - j)"

lemma bitmaps_shape: "length bitmaps = 16" "d < 16 \<Longrightarrow> length (bitmaps ! d) = 8"
proof -
  show "length bitmaps = 16" by (simp add: bitmaps_def)
  have "list_all (\<lambda>b. length b = 8) bitmaps" by (simp add: bitmaps_def)
  then show "d < 16 \<Longrightarrow> length (bitmaps ! d) = 8"
    using \<open>length bitmaps = 16\<close> by (simp add: list_all_length)
qed

lemma of_nat_pixel:
  assumes "on_screen 8 x y"
  shows "pixel ((of_nat x + 7) + of_nat y * vwidth) = step_pixel x y 0"
proof -
  have b: "x + 7 + y * 1920 < 2073600" using assms by (simp add: on_screen_def)
  have "(of_nat x + 7) + of_nat y * vwidth = (of_nat (x + 7 + y * 1920) :: u32)"
    by (simp add: vwidth_def)
  moreover have "ucast (of_nat (x + 7 + y * 1920) :: u32) = (of_nat (x + 7 + y * 1920) :: u64)"
    using b by (simp only: unsigned_of_nat) (simp add: take_bit_nat_eq_self)
  ultimately show ?thesis
    unfolding pixel_def step_pixel_def screen_pixel_def by (simp only:) simp
qed

lemma cell_step:
  assumes "i < 8" and "j < 8"
  shows "screen_pixel (x + j) (y + i) = step_pixel x y (i * 8 + (7 - j))"
    and "(i * 8 + (7 - j)) div 8 = i" and "(i * 8 + (7 - j)) mod 8 = 7 - j" and "i * 8 + (7 - j) < 64"
proof -
  have r: "(i * 8 + r) div 8 = i" "(i * 8 + r) mod 8 = r" if "r < 8" for r using that by auto
  show d: "(i * 8 + (7 - j)) div 8 = i" and m: "(i * 8 + (7 - j)) mod 8 = 7 - j"
    by (rule r; simp)+
  show "screen_pixel (x + j) (y + i) = step_pixel x y (i * 8 + (7 - j))"
    unfolding step_pixel_def d m using assms by simp
qed (use assms in simp)

lemma rectangle_steps: "q \<in> rectangle 8 x y \<longleftrightarrow> (\<exists>k<64. q = step_pixel x y k)"
proof
  assume "q \<in> rectangle 8 x y"
  then obtain j i where q: "q = screen_pixel (x + j) (y + i)" and ji: "j < 8" "i < 8" by (auto simp: rectangle_def)
  then show "\<exists>k<64. q = step_pixel x y k" using cell_step(1,4) [OF ji(2,1)] by blast
next
  assume "\<exists>k<64. q = step_pixel x y k"
  then obtain k where k: "k < 64" "q = step_pixel x y k" by blast
  have "k div 8 < 8" using k(1) by (simp add: less_mult_imp_div_less)
  moreover have "7 - k mod 8 < 8" by simp
  ultimately show "q \<in> rectangle 8 x y" using k(2) unfolding rectangle_def step_pixel_def by blast
qed

lemma low_digit: "unat (n AND 0xf :: u32) = unat n mod 16"
proof -
  have "n AND 0xf = take_bit 4 n" by (simp add: take_bit_eq_mask mask_eq_exp_minus_1)
  then show ?thesis by (simp only: unsigned_take_bit_eq) (simp add: take_bit_eq_mod)
qed

text \<open>A digit is drawn at its place, and nothing else changes.\<close>

lemma show_nibble_draws:
  assumes "on_screen 8 x y" and "i < 8" and "j < 8"
  shows "show_nibble (of_nat x) (of_nat y) nibble colour m (screen_pixel (x + j) (y + i))
    = (if glyph (unat (nibble AND 0xf)) i j then colour else Black)"
proof -
  define k where "k = i * 8 + (7 - j)"
  note k = cell_step(2-4) [OF assms(2,3), folded k_def] and q = cell_step(1) [OF assms(2,3), folded k_def]
  have "find (\<lambda>j. step_pixel x y k = step_pixel x y j) [0..<64] = Some k"
    using k(3) step_pixel_inject [OF assms(1)]
    by (auto simp: find_Some_iff intro!: exI [of _ k])
  moreover have "unat (nibble AND 0xf) < 16" by (simp add: low_digit)
  ultimately show ?thesis
    using show_nibble_loop_draws [OF assms(1), of 0] k q of_nat_pixel [OF assms(1)]
    by (simp add: show_nibble_def Let_def little_endian_bit bitmaps_shape glyph_def assms(2))
qed

lemma show_nibble_frame:
  assumes "on_screen 8 x y" and "q \<notin> rectangle 8 x y"
  shows "show_nibble (of_nat x) (of_nat y) nibble colour m q = m q"
proof -
  have "find (\<lambda>j. q = step_pixel x y j) [0..<64] = None"
    using assms(2) by (auto simp: find_None_iff rectangle_steps)
  then show ?thesis
    using show_nibble_loop_draws [OF assms(1), of 0] of_nat_pixel [OF assms(1)]
    by (simp add: show_nibble_def Let_def)
qed

lemma rectangleI: "j < w \<Longrightarrow> i < 8 \<Longrightarrow> screen_pixel (x + j) (y + i) \<in> rectangle w x y"
  unfolding rectangle_def by blast

lemma rectangle_mono:
  assumes "q \<in> rectangle w (x + d) y" and "d + w \<le> w'"
  shows "q \<in> rectangle w' x y"
proof -
  obtain j i where "q = screen_pixel (x + d + j) (y + i)" "j < w" "i < 8" using assms(1) by (auto simp: rectangle_def)
  then show ?thesis using rectangleI [of "d + j" w' i x y] assms(2) by (simp add: add.assoc)
qed

lemma show_word_loop_frame:
  assumes "on_screen (8 * n) x y" and "q \<notin> rectangle (8 * n) x y"
  shows "show_word_loop n (of_nat x) (of_nat y) number colour m q = m q"
  using assms
proof (induction n arbitrary: x m)
  case (Suc n)
  have "q \<notin> rectangle 8 x y" "q \<notin> rectangle (8 * n) (x + 8) y" 
    using Suc.prems(2) rectangle_mono [of q 8 x 0 y] rectangle_mono [of q "8 * n" x 8 y] by (auto simp: One_nat_def)
  moreover have "on_screen 8 x y" "on_screen (8 * n) (x + 8) y" using Suc.prems(1) by (simp_all add: on_screen_def)
  ultimately show ?case using Suc.IH [of "x + 8"] show_nibble_frame by (simp add: add.commute)
qed simp

lemma show_word_loop_draws:
  assumes "on_screen (8 * n) x y" and "t < n" and "i < 8" and "j < 8"
  shows "show_word_loop n (of_nat x) (of_nat y) number colour m (screen_pixel (x + 8 * t + j) (y + i))
    = (if glyph (unat (drop_bit (4 * (n - 1 - t)) number AND 0xf)) i j then colour else Black)"
  using assms
proof (induction n arbitrary: x m t)
  case (Suc n)
  have s: "on_screen 8 x y" "on_screen (8 * n) (x + 8) y" using Suc.prems(1) by (simp_all add: on_screen_def)
  let ?m = "show_nibble (of_nat x) (of_nat y) (drop_bit (4 * n) number AND 0xf) colour m"
  have l: "show_word_loop (Suc n) (of_nat x) (of_nat y) number colour m
    = show_word_loop n (of_nat (x + 8)) (of_nat y) number colour ?m" by (simp add: add.commute)
  show ?case
  proof (cases t)
    case 0
    have "screen_pixel (x + j) (y + i) \<notin> rectangle (8 * n) (x + 8) y"
      using Suc.prems(1,3,4) screen_pixel_inject by (auto simp: rectangle_def on_screen_def)
    then show ?thesis
      using show_word_loop_frame [OF s(2)] show_nibble_draws [OF s(1) Suc.prems(3,4)] 0 by (simp add: l One_nat_def ac_simps)
  next
    case (Suc t')
    have e: "x + 8 * t + j = x + 8 + 8 * t' + j" "n - 1 - t' = Suc n - 1 - t" using Suc by simp_all
    show ?thesis unfolding l e(1) e(2) [symmetric] using Suc.prems(2) Suc by (intro Suc.IH [OF s(2)] Suc.prems(3,4)) simp
  qed
qed simp

section \<open>Reading the screen\<close>

text \<open>What a viewer sees in an eight by eight cell: which pixels are not black.  The viewer knows the sixteen glyphs, and
  reads a word from eight cells.\<close>

definition cell :: "memory \<Rightarrow> nat \<Rightarrow> nat \<Rightarrow> bool list list" where
  "cell m x y = map (\<lambda>i. map (\<lambda>j. m (screen_pixel (x + j) (y + i)) \<noteq> Black) [0..<8]) [0..<8]"

definition glyph_cell :: "nat \<Rightarrow> bool list list" where
  "glyph_cell d = map (\<lambda>i. map (glyph d i) [0..<8]) [0..<8]"

definition read_nibble :: "memory \<Rightarrow> nat \<Rightarrow> nat \<Rightarrow> nat option" where
  "read_nibble m x y = find (\<lambda>d. cell m x y = glyph_cell d) [0..<16]"

fun assemble :: "nat option list \<Rightarrow> u32 \<Rightarrow> u32 option" where
  "assemble [] n = Some n"
| "assemble (None # ds) n = None"
| "assemble (Some d # ds) n = assemble ds (push_bit 4 n OR of_nat d)"

definition read_word :: "memory \<Rightarrow> nat \<Rightarrow> nat \<Rightarrow> u32 option" where
  "read_word m x y = assemble (map (\<lambda>t. read_nibble m (x + 8 * t) y) [0..<8]) 0"

definition word_digit :: "u32 \<Rightarrow> nat \<Rightarrow> nat" where
  "word_digit number t = unat (drop_bit (4 * (7 - t)) number AND 0xf)"

lemma glyph_cell_inject:
  assumes "glyph_cell d = glyph_cell d'" and "d < 16" and "d' < 16"
  shows "d = d'"
proof -
  have "\<forall>i<8. \<forall>j<8. glyph d i j = glyph d' i j" using assms(1) by (simp add: glyph_cell_def)
  then have "glyph d i (7 - n) = glyph d' i (7 - n)" if "i < 8" for i n using that by simp
  moreover have "7 - (7 - n) = n" if "n < 8" for n :: nat using that by arith
  ultimately have "bit (bitmaps ! d ! i) n = bit (bitmaps ! d' ! i) n" if "i < 8" "n < 8" for i n
    using that by (metis glyph_def)
  then have "bitmaps ! d ! i = bitmaps ! d' ! i" if "i < 8" for i
    using that by (intro bit_eqI) simp
  then have "bitmaps ! d = bitmaps ! d'" using assms(2,3) by (intro nth_equalityI) (simp_all add: bitmaps_shape)
  moreover have "distinct bitmaps" by (simp add: bitmaps_def)
  ultimately show ?thesis using assms(2,3) by (simp add: nth_eq_iff_index_eq bitmaps_shape)
qed

lemma read_nibble_glyph:
  assumes "cell m x y = glyph_cell d" and "d < 16"
  shows "read_nibble m x y = Some d"
proof -
  have "\<forall>j<d. cell m x y \<noteq> glyph_cell j" using assms glyph_cell_inject [of d] by (metis less_irrefl less_trans)
  then show ?thesis using assms unfolding read_nibble_def find_Some_iff by (intro exI [of _ d]) simp
qed

lemma take_bit_or_push_bit: "take_bit k w OR push_bit k (drop_bit k w) = (w :: u32)"
proof (rule bit_word_eqI)
  fix n assume "n < LENGTH(32)"
  then show "bit (take_bit k w OR push_bit k (drop_bit k w)) n = bit w n" by (cases "n < k") (auto simp: bit_simps)
qed

lemma next_digit: "push_bit 4 (drop_bit (4 * Suc s) n) OR (drop_bit (4 * s) n AND 0xf) = (drop_bit (4 * s) n :: u32)"
proof -
  have "drop_bit (4 * s) n AND 0xf = take_bit 4 (drop_bit (4 * s) n)"
    by (simp add: take_bit_eq_mask mask_eq_exp_minus_1)
  moreover have "drop_bit (4 * Suc s) n = drop_bit 4 (drop_bit (4 * s) n)" by simp
  ultimately show ?thesis by (simp only: or.commute [of "push_bit 4 _"] take_bit_or_push_bit)
qed

lemma assemble_digits:
  "s \<le> 8 \<Longrightarrow> assemble (map (\<lambda>t. Some (word_digit n t)) [8 - s..<8]) (drop_bit (4 * s) n) = Some n"
proof (induction s)
  case (Suc s)
  have "Suc (8 - Suc s) = 8 - s" using Suc.prems by arith
  then have "[8 - Suc s..<8] = (8 - Suc s) # [8 - s..<8]" using upt_conv_Cons [of "8 - Suc s" 8] Suc.prems by simp
  moreover have "7 - (8 - Suc s) = s" using Suc.prems by simp
  ultimately show ?case using Suc next_digit [of s n] by (simp add: word_digit_def del: mult_Suc_right)
qed simp

lemma read_word_digits:
  assumes "\<forall>t<8. cell m (x + 8 * t) y = glyph_cell (word_digit n t)"
  shows "read_word m x y = Some n"
proof -
  have "map (\<lambda>t. read_nibble m (x + 8 * t) y) [0..<8] = map (\<lambda>t. Some (word_digit n t)) [0..<8]"
    using assms by (auto intro!: read_nibble_glyph simp: word_digit_def low_digit)
  moreover have "drop_bit 32 n = 0" by (intro bit_eqI) (auto simp: bit_simps dest: bit_imp_le_length)
  ultimately show ?thesis using assemble_digits [of 8 n] unfolding read_word_def by (simp only:) simp
qed

section \<open>Words and pages\<close>

lemma show_word_frame:
  assumes "on_screen 64 x y" and "q \<notin> rectangle 64 x y"
  shows "show_word (of_nat x) (of_nat y) number colour m q = m q"
  unfolding show_word_def by (rule show_word_loop_frame) (use assms in simp_all)

lemma show_word_cells:
  assumes "on_screen 64 x y" and "colour \<noteq> Black" and "t < 8"
    and "\<forall>q\<in>rectangle 64 x y. m' q = show_word (of_nat x) (of_nat y) number colour m q"
  shows "cell m' (x + 8 * t) y = glyph_cell (word_digit number t)"
proof -
  have "m' (screen_pixel (x + 8 * t + j) (y + i)) \<noteq> Black \<longleftrightarrow> glyph (word_digit number t) i j" if "i < 8" "j < 8" for i j
  proof -
    have "screen_pixel (x + 8 * t + j) (y + i) \<in> rectangle 64 x y"
      using rectangleI [of "8 * t + j" 64 i x y] that assms(3) by (simp add: add.assoc)
    then show ?thesis
      using assms show_word_loop_draws [of 8 x y t i j number colour m] that
      by (simp add: show_word_def word_digit_def)
  qed
  then show ?thesis by (simp add: cell_def glyph_cell_def)
qed

text \<open>Drawings of words at places; those of a list are disjoint.\<close>

type_synonym drawing = "nat \<times> nat \<times> u32 \<times> u32"

fun draw :: "drawing \<Rightarrow> memory \<Rightarrow> memory" where
  "draw (x, y, number, colour) m = show_word (of_nat x) (of_nat y) number colour m"

fun apart :: "drawing \<Rightarrow> drawing \<Rightarrow> bool" where
  "apart (x, y, _) (x', y', _) \<longleftrightarrow> x + 64 \<le> x' \<or> x' + 64 \<le> x \<or> y + 8 \<le> y' \<or> y' + 8 \<le> y"

lemma draw_word: "draw (x, y, number, colour) = show_word (of_nat x) (of_nat y) number colour"
  by (rule ext) simp

definition place :: "drawing \<Rightarrow> u64 set" where
  "place d = rectangle 64 (fst d) (fst (snd d))"

definition drawable :: "drawing \<Rightarrow> bool" where
  "drawable d \<longleftrightarrow> on_screen 64 (fst d) (fst (snd d)) \<and> snd (snd (snd d)) \<noteq> Black"

lemma apart_places:
  assumes "apart d d'" and "drawable d" and "drawable d'" and "q \<in> place d"
  shows "q \<notin> place d'"
proof
  assume "q \<in> place d'"
  obtain x y n c x' y' n' c' where d: "d = (x, y, n, c)" "d' = (x', y', n', c')" by (metis prod.exhaust)
  obtain j i where q: "q = screen_pixel (x + j) (y + i)" "j < 64" "i < 8"
    using assms(4) by (auto simp: place_def d rectangle_def)
  obtain j' i' where q': "q = screen_pixel (x' + j') (y' + i')" "j' < 64" "i' < 8"
    using \<open>q \<in> place d'\<close> by (auto simp: place_def d rectangle_def)
  have "x + j = x' + j'" "y + i = y' + i'"
    using q q' assms(2,3) screen_pixel_inject [of "x + j" "y + i" "x' + j'" "y' + i'"]
    by (simp_all add: drawable_def on_screen_def d)
  then show False using assms(1) q q' d by auto
qed

lemma place_on_screen:
  assumes "q \<in> place d" and "drawable d"
  shows "\<exists>x y. x < 1920 \<and> y < 1080 \<and> q = screen_pixel x y"
proof -
  obtain j i where "q = screen_pixel (fst d + j) (fst (snd d) + i)" "j < 64" "i < 8"
    using assms(1) by (auto simp: place_def rectangle_def)
  then show ?thesis
    using assms(2) by (intro exI [of _ "fst d + j"] exI [of _ "fst (snd d) + i"]) (simp add: drawable_def on_screen_def)
qed

lemma fold_draw_frame:
  assumes "\<forall>d\<in>set ds. drawable d \<and> q \<notin> place d"
  shows "fold draw ds m q = m q"
  using assms
proof (induction ds arbitrary: m)
  case (Cons d ds)
  obtain x y n c where "d = (x, y, n, c)" by (metis prod.exhaust)
  then show ?case using Cons by (simp add: show_word_frame drawable_def place_def)
qed simp

lemma fold_draw_reads:
  assumes "\<forall>d\<in>set ds. drawable d" and "sorted_wrt apart ds" and "(x, y, n, c) \<in> set ds"
  shows "read_word (fold draw ds m) x y = Some n"
  using assms
proof (induction ds arbitrary: m)
  case (Cons d ds)
  show ?case
  proof (cases "d = (x, y, n, c)")
    case True
    have "fold draw (d # ds) m q = show_word (of_nat x) (of_nat y) n c m q" if "q \<in> rectangle 64 x y" for q
    proof -
      have "q \<in> place d" using that by (simp add: place_def True)
      then have "\<forall>d'\<in>set ds. drawable d' \<and> q \<notin> place d'" using Cons.prems(1,2) apart_places [of d] by auto
      then show ?thesis using fold_draw_frame [of ds q] by (simp add: True)
    qed
    moreover have "on_screen 64 x y" "c \<noteq> Black" using Cons.prems(1) True by (auto simp: drawable_def)
    ultimately show ?thesis by (intro read_word_digits allI impI show_word_cells) auto
  next
    case False
    then show ?thesis using Cons by auto
  qed
qed simp

text \<open>The drawings of a page, whose words are not pixels of the screen and so keep their values while it is drawn.\<close>

definition off_screen :: "u64 \<Rightarrow> bool" where
  "off_screen q \<longleftrightarrow> (\<forall>x<1920. \<forall>y<1080. q \<noteq> screen_pixel x y)"

definition row_drawings :: "(nat \<Rightarrow> u32) \<Rightarrow> u32 \<Rightarrow> nat \<Rightarrow> drawing list" where
  "row_drawings number label y =
    (0, y * 8 + 64, label + of_nat (y * 64), White)
      # map (\<lambda>x. (x * 68 + 72, y * 8 + 64, number (x + y * 16), page_colour x y)) [0..<16]"

lemma page_colour_lit: "page_colour x y \<noteq> Black" "White \<noteq> Black"
  by (simp_all add: page_colour_def Black_def White_def Green_def)

lemma page_drawable: "d \<in> set (row_drawings number label y) \<Longrightarrow> y < 64 \<Longrightarrow> drawable d"
  by (auto simp: row_drawings_def drawable_def on_screen_def page_colour_lit)

lemma row_apart: "sorted_wrt apart (row_drawings number label y)"
  by (auto simp: row_drawings_def sorted_wrt_map sorted_wrt_upt intro!: sorted_wrt_mono_rel [OF _ sorted_wrt_upt])

lemma page_apart: "sorted_wrt apart (concat (map (row_drawings number label) [0..<n]))"
proof (induction n)
  case (Suc n)
  have "apart d d'" if "d \<in> set (row_drawings number label y)" "d' \<in> set (row_drawings number label n)" "y < n" for y d d'
    using that by (auto simp: row_drawings_def)
  then show ?case using Suc row_apart by (auto simp: sorted_wrt_append)
qed simp

lemma fold_draw_off_screen:
  assumes "\<forall>d\<in>set ds. drawable d" and "off_screen q"
  shows "fold draw ds m q = m q"
proof (rule fold_draw_frame)
  show "\<forall>d\<in>set ds. drawable d \<and> q \<notin> place d" using assms place_on_screen unfolding off_screen_def by blast
qed

definition same_page :: "u64 \<Rightarrow> memory \<Rightarrow> memory \<Rightarrow> bool" where
  "same_page number m m' \<longleftrightarrow> (\<forall>i<1024. page_word number m' i = page_word number m i)"

definition page_off_screen :: "u64 \<Rightarrow> bool" where
  "page_off_screen number \<longleftrightarrow> (\<forall>i<1024. off_screen (number + 4 * of_nat i))"

lemma fold_draw_same_page:
  assumes "page_off_screen number" and "same_page number m m'" and "\<forall>d\<in>set ds. drawable d"
  shows "same_page number m (fold draw ds m')"
  using assms fold_draw_off_screen [OF assms(3)] by (simp add: same_page_def page_word_def page_off_screen_def)

lemma show_page_row_drawings:
  assumes "page_off_screen number" and "same_page number m m'" and "y < 64"
  shows "show_page_row number label y m' = fold draw (row_drawings (page_word number m) label y) m'"
proof -
  define f where "f x = (x * 68 + 72, y * 8 + 64, page_word number m (x + y * 16), page_colour x y)" for x
  define g where "g x m = show_word (of_nat (x * 68 + 72)) (of_nat (y * 8 + 64)) (page_word number m (x + y * 16)) (page_colour x y) m" for x m
  have "fold g xs m' = fold draw (map f xs) m'" if "same_page number m m'" "\<forall>x\<in>set xs. x < 16" for xs m'
    using that
  proof (induction xs arbitrary: m')
    case (Cons x xs)
    have "f x \<in> set (row_drawings (page_word number m) label y)" using Cons.prems(2) by (simp add: row_drawings_def f_def)
    then have "drawable (f x)" using assms(3) by (rule page_drawable)
    then have "same_page number m (draw (f x) m')"
      using fold_draw_same_page [OF assms(1) Cons.prems(1), of "[f x]"] by simp
    moreover have "g x m' = draw (f x) m'"
      using Cons.prems assms(3) by (simp add: g_def f_def same_page_def)
    ultimately show ?case using Cons by simp
  qed simp
  moreover have "drawable (0, y * 8 + 64, label + of_nat (y * 64), White)"
    using assms(3) by (intro page_drawable [of _ "page_word number m" label y]) (simp_all add: row_drawings_def)
  then have "same_page number m (draw (0, y * 8 + 64, label + of_nat (y * 64), White) m')"
    using fold_draw_same_page [OF assms(1,2), of "[(0, y * 8 + 64, label + of_nat (y * 64), White)]"] by simp
  ultimately have "fold g [0..<16] (draw (0, y * 8 + 64, label + of_nat (y * 64), White) m')
    = fold draw (row_drawings (page_word number m) label y) m'"
    unfolding row_drawings_def f_def by simp
  then show ?thesis unfolding show_page_row_def g_def by simp
qed

lemma show_page_drawings:
  assumes "page_off_screen number"
  shows "show_page number label m = fold draw (concat (map (row_drawings (page_word number m) label) [0..<64])) m"
proof -
  have "fold (show_page_row number label) ys m' = fold draw (concat (map (row_drawings (page_word number m) label) ys)) m'"
    if "same_page number m m'" "\<forall>y\<in>set ys. y < 64" for ys m'
    using that
  proof (induction ys arbitrary: m')
    case (Cons y ys)
    have "show_page_row number label y m' = fold draw (row_drawings (page_word number m) label y) m'"
      using Cons.prems by (intro show_page_row_drawings [OF assms]) simp_all
    moreover have "same_page number m (fold draw (row_drawings (page_word number m) label y) m')"
      using Cons.prems page_drawable by (intro fold_draw_same_page [OF assms]) auto
    ultimately show ?case using Cons by simp
  qed simp
  then show ?thesis by (simp add: show_page_def same_page_def)
qed

text \<open>C37. A page that is shown can be read from the screen: whatever was on it, after the page is shown each of the
  1024 words of the page is legible in its column and line, the label of each line is legible before it, and no
  memory outside the pixels of the screen is written.\<close>

theorem shown_page_can_be_read:
  assumes "page_off_screen number" and "x < 16" and "y < 64" and "off_screen q"
  shows "read_word (show_page number label m) (x * 68 + 72) (y * 8 + 64) = Some (page_word number m (x + y * 16))
    \<and> read_word (show_page number label m) 0 (y * 8 + 64) = Some (label + of_nat (y * 64))
    \<and> show_page number label m q = m q"
proof -
  let ?ds = "concat (map (row_drawings (page_word number m) label) [0..<64])"
  have d: "\<forall>d\<in>set ?ds. drawable d" using page_drawable by fastforce
  have w: "(x * 68 + 72, y * 8 + 64, page_word number m (x + y * 16), page_colour x y) \<in> set ?ds"
    and l: "(0, y * 8 + 64, label + of_nat (y * 64), White) \<in> set ?ds"
    using assms(2,3) by (auto simp: row_drawings_def intro!: bexI [of _ y])
  show ?thesis
    unfolding show_page_drawings [OF assms(1)]
    using fold_draw_reads [OF d page_apart w] fold_draw_reads [OF d page_apart l] fold_draw_off_screen [OF d assms(4)]
    by blast
qed

lemma below_screen:
  assumes "unat q < 0x200000"
  shows "off_screen q"
proof -
  have "unat (screen_pixel x y) \<noteq> unat q" if "x < 1920" "y < 1080" for x y
    unfolding screen_pixel_unat [OF that] using assms by simp
  then show ?thesis by (auto simp: off_screen_def)
qed

theorem shown_page_can_be_read_witness:
  "read_word (show_page 0x100000 0x8000 (\<lambda>a. ucast a)) 276 144 = Some 0x10028c
   \<and> read_word (show_page 0x100000 0x8000 (\<lambda>a. ucast a)) 0 144 = Some 0x8280
   \<and> show_page 0x100000 0x8000 (\<lambda>a. ucast a) 0x1000 = 0x1000"
proof -
  have "unat (0x100000 + 4 * of_nat i :: u64) = 0x100000 + 4 * i" if "i < 1024" for i
  proof -
    have "0x100000 + 4 * of_nat i = (of_nat (0x100000 + 4 * i) :: u64)" by simp
    then show ?thesis using that by (simp only: unat_of_nat) simp
  qed
  then have "page_off_screen 0x100000" unfolding page_off_screen_def by (intro allI impI below_screen) simp
  moreover have "off_screen 0x1000" by (rule below_screen) simp
  ultimately show ?thesis
    using shown_page_can_be_read [of "0x100000" 3 10 "0x1000" "0x8000" "\<lambda>a. ucast a"] by (simp add: page_word_def)
qed

text \<open>A number of 64 bits is read as two words, two pixels apart.\<close>

lemma show_qword_reads:
  assumes "on_screen 130 x y" and "colour \<noteq> Black"
  shows "read_word (show_qword (of_nat x) (of_nat y) number colour m) x y = Some (ucast (drop_bit 32 number))"
    and "read_word (show_qword (of_nat x) (of_nat y) number colour m) (x + 66) y = Some (ucast number)"
proof -
  let ?ds = "[(x, y, ucast (drop_bit 32 number), colour), (x + 66, y, ucast number, colour)]"
  have "ucast (number AND 0xffffffff) = (ucast number :: u32)"
  proof (rule bit_word_eqI)
    fix n assume "n < LENGTH(32)"
    moreover have "number AND 0xffffffff = take_bit 32 number" by (simp add: take_bit_eq_mask mask_eq_exp_minus_1)
    ultimately show "bit (ucast (number AND 0xffffffff) :: u32) n = bit (ucast number :: u32) n"
      by (simp add: bit_simps)
  qed
  then have "show_qword (of_nat x) (of_nat y) number colour m = fold draw ?ds m"
    by (simp add: show_qword_def add.commute)
  moreover have "\<forall>d\<in>set ?ds. drawable d" "sorted_wrt apart ?ds"
    using assms by (simp_all add: drawable_def on_screen_def)
  ultimately show "read_word (show_qword (of_nat x) (of_nat y) number colour m) x y = Some (ucast (drop_bit 32 number))"
    "read_word (show_qword (of_nat x) (of_nat y) number colour m) (x + 66) y = Some (ucast number)"
    using fold_draw_reads [of ?ds] by simp_all
qed

section \<open>The page to show\<close>

text \<open>The blocks of the driver's map: those it started with and, at the end, the block of the page to show when there
  is one.\<close>

definition page_mapped :: "u64 \<Rightarrow> u64 \<Rightarrow> u64 list \<Rightarrow> display \<Rightarrow> bool" where
  "page_mapped mp devices us d \<longleftrightarrow>
    vmb_lock (w_system (d_system d)) = 0
    \<and> (if page_to_display d = 0 then map_has_blocks (w_kernel (d_system d)) mp us
       else \<exists>b. map_has_blocks (w_kernel (d_system d)) mp (us @ [b])
         \<and> vmb_start_page b = drop_bit 12 devices \<and> vmb_memory_block b = page_to_display d)"

definition room_for_page :: "u64 \<Rightarrow> u64 \<Rightarrow> u64 list \<Rightarrow> bool" where
  "room_for_page mp devices us \<longleftrightarrow>
    length us + 1 < unat (mv_number_of_vmbs mp) \<and> (\<forall>u\<in>set us. vmb_start_page u \<noteq> drop_bit 12 devices)
    \<and> devices < 0x1000000000"

lemma special_read_interface_words:
  "special_read_interface blk (k\<lparr>heap_words := h\<rparr>) = special_read_interface blk k"
  by (simp add: special_read_interface_def interface_from_index_def interface_at_def Let_def)

lemma take_bit_small: "unat w < 2 ^ n \<Longrightarrow> take_bit n w = (w :: u64)"
  by (simp add: word_unat_eq_iff unsigned_take_bit_eq take_bit_nat_eq_self)

lemma page_unmapped:
  assumes "page_mapped mp devices us d" and "room_for_page mp devices us" and "page_to_display d \<noteq> 0"
  shows "\<exists>w. unmap me mp devices (d_system d) = Inr (page_to_display d, w) \<and> map_has_blocks (w_kernel w) mp us
    \<and> w_kernel w = (w_kernel (d_system d))\<lparr>heap_words := heap_words (w_kernel w)\<rparr> \<and> vmb_lock (w_system w) = 0"
proof -
  obtain b where b: "map_has_blocks (w_kernel (d_system d)) mp (us @ [b])" "vmb_start_page b = drop_bit 12 devices"
      "vmb_memory_block b = page_to_display d"
    using assms(1,3) by (auto simp: page_mapped_def)
  then show ?thesis
    using unmap_result [of "d_system d" mp us b "[]" devices me] assms by (auto simp: page_mapped_def room_for_page_def)
qed

text \<open>C38. The page to show is replaced, however often it is set: the block of the last page is taken from the driver's map,
  the block of the new one is mapped in its place with its number of pages, no other block of the map is
  touched, and the driver remembers the new page and its label, so that the next request finds the map as
  this one did.\<close>

theorem page_is_replaced:
  assumes "page_mapped mp devices us d" and "room_for_page mp devices us"
    and "special_read_interface page (w_kernel (d_system d)) = Inr cmb" and "cmb_page_count cmb \<noteq> 0"
    and "page \<noteq> 0" and "page < 0x40000"
  shows "\<exists>d' b. set_page_to_show me mp devices page start d = Inr d' \<and> page_mapped mp devices us d'
    \<and> map_has_blocks (w_kernel (d_system d')) mp (us @ [b]) \<and> vmb_memory_block b = page
    \<and> vmb_page_count b = cmb_page_count cmb \<and> vmb_start_page b = drop_bit 12 devices
    \<and> page_to_display d' = page \<and> page_start d' = ucast start \<and> d_memory d' = d_memory d"
proof -
  define r where "r = (if page_to_display d \<noteq> 0 then
      rbind (unmap me mp devices (d_system d)) (\<lambda>(old_block, w). Inr (d\<lparr>d_system := w\<rparr>)) else Inr d)"
  obtain d1 where d1: "r = Inr d1" "map_has_blocks (w_kernel (d_system d1)) mp us"
      "special_read_interface page (w_kernel (d_system d1)) = Inr cmb" "vmb_lock (w_system (d_system d1)) = 0"
      "d_memory d1 = d_memory d"
  proof (cases "page_to_display d = 0")
    case True
    then show thesis using that [of d] assms(1,3) by (simp add: page_mapped_def r_def)
  next
    case False
    obtain w where w: "unmap me mp devices (d_system d) = Inr (page_to_display d, w)" "map_has_blocks (w_kernel w) mp us"
        "w_kernel w = (w_kernel (d_system d))\<lparr>heap_words := heap_words (w_kernel w)\<rparr>" "vmb_lock (w_system w) = 0"
      using page_unmapped [OF assms(1,2) False, of me] by blast
    moreover have "special_read_interface page (w_kernel w) = Inr cmb"
      using assms(3) w(3) special_read_interface_words by metis
    ultimately show thesis using that [of "d\<lparr>d_system := w\<rparr>"] False by (simp add: r_def)
  qed
  have start: "take_bit 24 (drop_bit 12 devices) = drop_bit 12 devices" and blk: "take_bit 18 page = page"
    using assms(2,6) by (auto simp: room_for_page_def drop_bit_eq_div word_less_nat_alt unat_div intro!: take_bit_small)
  obtain w' b where "map_at me mp page devices (d_system d1) = Inr w'" "map_has_blocks (w_kernel w') mp (us @ [b])"
      "vmb_start_page b = drop_bit 12 devices" "vmb_page_count b = cmb_page_count cmb" "vmb_memory_block b = page"
      "vmb_lock (w_system w') = 0"
    using map_at_result [OF d1(2) _ d1(3) assms(4) d1(4), of me devices] assms(2) start blk
    by (auto simp: room_for_page_def)
  then show ?thesis
    using d1(1,5) assms(5) unfolding set_page_to_show_def r_def [symmetric]
    by (intro exI [of _ "d1\<lparr>d_system := w', page_to_display := page, page_start := ucast start\<rparr>"] exI [of _ b])
       (auto simp: page_mapped_def)
qed

text \<open>The page is set twice, and mapped once.\<close>

definition sample_display :: display where
  "sample_display = \<lparr>d_memory = (\<lambda>_. 0), page_to_display = 6, page_start = 0,
     d_system = sample_world (\<lambda>a. if a = 0x1ff000 then sample_block 0x10 else if a = 0x1ff008 then sample_block 0x20 else 0)\<rparr>"

theorem page_is_replaced_witness:
  "\<exists>d' b. set_page_to_show 1 (mk_map_value 0x100 0 4) 0x20000 6 0x5000 sample_display = Inr d'
    \<and> map_has_blocks (w_kernel (d_system d')) (mk_map_value 0x100 0 4) [sample_block 0x10, b]
    \<and> vmb_memory_block b = 6 \<and> vmb_page_count b = 2 \<and> page_start d' = 0x5000"
proof -
  have f: "vmb_page_count (sample_block p) = 1" "vmb_memory_block (sample_block p) = 6"
    "vmb_start_page (sample_block p) = take_bit 24 p" for p
    by (simp_all add: sample_block_def field_simps_packed)
  have "map_has_blocks (w_kernel (d_system sample_display)) (mk_map_value 0x100 0 4) [sample_block 0x10, sample_block 0x20]"
    unfolding sample_display_def display.simps
    by (rule sample_blocks) (auto simp: f less_Suc_eq One_nat_def vmb_page_count_def [THEN fun_cong, of 0])
  then have "page_mapped (mk_map_value 0x100 0 4) 0x20000 [sample_block 0x10] sample_display"
    by (auto simp: page_mapped_def f drop_bit_eq_div sample_display_def sample_world_def sample_driver_def
        intro!: exI [of _ "sample_block 0x20"])
  moreover have "room_for_page (mk_map_value 0x100 0 4) 0x20000 [sample_block 0x10]"
    by (simp add: room_for_page_def f drop_bit_eq_div)
  moreover have "special_read_interface 6 (w_kernel (d_system sample_display)) = Inr (mk_cmb 0x100 2 0)"
    using physical_block_reads [OF sample_world_map(2)] by (simp add: sample_display_def)
  ultimately show ?thesis
    using page_is_replaced [of "mk_map_value 0x100 0 4" "0x20000" "[sample_block 0x10]" sample_display 6 "mk_cmb 0x100 2 0" 1 "0x5000"]
    by auto
qed

end
