(* ===== verification/Provider.thy ===== *)
theory Provider
  imports Locks
begin

text \<open>
  The entry code of a provider of interfaces (\<^verbatim>\<open>include/isambard_client.h\<close>): the veneers through which
  every call from another map enters a driver.  A veneer with a shared lock and stack claims the lock, saves the registers
  that belong to the caller on the one stack of the driver, and calls the handler; the handler leaves through a
  return routine, which restores the registers and releases the lock, or through the exception routine.

  Threads call at any time and their steps interleave: each exclusive load, exclusive store and system call is a
  step of its own.  The lock is an owner and the queue of the threads that wait for it, the view of the lock
  word that \<^verbatim>\<open>Locks\<close> justifies for the kernel's handlers: the word is zero when the lock is free, and it is the
  code of its owner exactly when nobody waits.  The handler is any code that leaves the saved registers on the stack
  alone, as the compiler's calling convention demands.
\<close>

section \<open>Saving registers\<close>

type_synonym registers = "nat \<Rightarrow> u64"
type_synonym words = "u64 \<Rightarrow> u64"

definition store_pair :: "registers \<Rightarrow> nat \<Rightarrow> nat \<Rightarrow> u64 \<Rightarrow> words \<Rightarrow> words" where
  "store_pair x a b p m = m(p := x a, p + 8 := x b)"

definition load_pair :: "words \<Rightarrow> nat \<Rightarrow> nat \<Rightarrow> u64 \<Rightarrow> registers \<Rightarrow> registers" where
  "load_pair m a b p x = x(a := m p, b := m (p + 8))"

definition STORED_REGISTER_SPACE :: u64 where "STORED_REGISTER_SPACE = 16 * 6"

definition STACK_CALLEE_SAVED_REGISTERS :: "registers \<Rightarrow> u64 \<Rightarrow> words \<Rightarrow> u64 \<times> words" where
  "STACK_CALLEE_SAVED_REGISTERS x sp m =
    (let sp = sp - 16 * 6;
         m = store_pair x 19 20 sp m;
         m = store_pair x 29 30 (sp + 5 * 16) m;
         m = store_pair x 27 28 (sp + 4 * 16) m;
         m = store_pair x 25 26 (sp + 3 * 16) m;
         m = store_pair x 23 24 (sp + 2 * 16) m;
         m = store_pair x 21 22 (sp + 1 * 16) m
     in (sp, m))"

definition RESTORE_CALLEE_SAVED_REGISTERS :: "words \<Rightarrow> u64 \<Rightarrow> registers \<Rightarrow> u64 \<times> registers" where
  "RESTORE_CALLEE_SAVED_REGISTERS m sp x =
    (let x = load_pair m 21 22 (sp + 1 * 16) x;
         x = load_pair m 23 24 (sp + 2 * 16) x;
         x = load_pair m 25 26 (sp + 3 * 16) x;
         x = load_pair m 27 28 (sp + 4 * 16) x;
         x = load_pair m 29 30 (sp + 5 * 16) x;
         x = load_pair m 19 20 sp x
     in (sp + 16 * 6, x))"

section \<open>Calls\<close>

datatype phase =
    Out          \<comment> \<open>has not called\<close>
  | Called       \<comment> \<open>before the exclusive load of \<^verbatim>\<open>CLAIM_LOCK\<close>\<close>
  | Loaded bool  \<comment> \<open>has loaded the lock word; whether it was zero\<close>
  | Waiting      \<comment> \<open>in the kernel's queue for the lock\<close>
  | Claimed      \<comment> \<open>at the end of \<^verbatim>\<open>CLAIM_LOCK\<close>\<close>
  | Handling     \<comment> \<open>in the handler\<close>
  | Restored     \<comment> \<open>before the exclusive load of \<^verbatim>\<open>RELEASE_LOCK\<close>\<close>
  | Releasing bool \<comment> \<open>has loaded the lock word; whether it was the thread's own code\<close>
  | Failing      \<comment> \<open>the handler came back instead of calling a return routine\<close>
  | Returned
  | Raised

record provider =
  pv_lock :: "(u64 \<times> u64 list) option"
  pv_memory :: words
  pv_regs :: "u64 \<Rightarrow> registers"
  pv_sp :: "u64 \<Rightarrow> u64"
  pv_phase :: "u64 \<Rightarrow> phase"
  pv_caller :: "u64 \<Rightarrow> registers"  \<comment> \<open>the registers at the call, for the specification only\<close>

definition set_phase :: "u64 \<Rightarrow> phase \<Rightarrow> provider \<Rightarrow> provider" where
  "set_phase t p s = s\<lparr>pv_phase := (pv_phase s)(t := p)\<rparr>"

definition set_regs :: "u64 \<Rightarrow> u64 \<times> registers \<Rightarrow> provider \<Rightarrow> provider" where
  "set_regs t r s = s\<lparr>pv_sp := (pv_sp s)(t := fst r), pv_regs := (pv_regs s)(t := snd r)\<rparr>"

text \<open>The kernel's two system calls on the lock: the owner that asks for its lock continues when nobody waits, a thread that
  waits is continued after the system call when the lock is handed to it.\<close>

definition svc_lock_wait :: "u64 \<Rightarrow> provider \<Rightarrow> provider" where
  "svc_lock_wait t s =
    (case pv_lock s of
       None \<Rightarrow> set_phase t Claimed (s\<lparr>pv_lock := Some (t, [])\<rparr>)
     | Some (owner, qs) \<Rightarrow>
         if owner = t \<and> qs = [] then set_phase t Claimed s
         else set_phase t Waiting (s\<lparr>pv_lock := Some (owner, qs @ [t])\<rparr>))"

definition svc_lock_release :: "u64 \<Rightarrow> provider \<Rightarrow> provider result" where
  "svc_lock_release t s =
    (case pv_lock s of
       None \<Rightarrow> Inl (BSOD 364)
     | Some (owner, qs) \<Rightarrow>
         if owner \<noteq> t then Inl (BSOD 369)
         else (case qs of
                 [] \<Rightarrow> Inr (s\<lparr>pv_lock := None\<rparr>)
               | q # qs \<Rightarrow> Inr (set_phase q Claimed (s\<lparr>pv_lock := Some (q, qs)\<rparr>))))"

text \<open>The beginning of the veneer; \<open>tos\<close> (top of stack) is the end of the stack.\<close>

definition veneer :: "u64 \<Rightarrow> u64 \<Rightarrow> registers \<Rightarrow> provider \<Rightarrow> provider" where
  "veneer tos t x s =
    set_phase t Called (set_regs t (tos, x) (s\<lparr>pv_caller := (pv_caller s)(t := x)\<rparr>))"

definition CLAIM_LOCK_load :: "u64 \<Rightarrow> provider \<Rightarrow> provider" where
  "CLAIM_LOCK_load t s = set_phase t (Loaded (pv_lock s = None)) s"

definition CLAIM_LOCK_store :: "u64 \<Rightarrow> provider \<Rightarrow> provider" where
  "CLAIM_LOCK_store t s = set_phase t Claimed (s\<lparr>pv_lock := Some (t, [])\<rparr>)"

definition call_handler :: "u64 \<Rightarrow> provider \<Rightarrow> provider" where
  "call_handler t s =
    (let (sp, m) = STACK_CALLEE_SAVED_REGISTERS (pv_regs s t) (pv_sp s t) (pv_memory s)
     in set_phase t Handling (s\<lparr>pv_sp := (pv_sp s)(t := sp), pv_memory := m\<rparr>))"

definition restore :: "u64 \<Rightarrow> u64 \<Rightarrow> provider \<Rightarrow> provider" where
  "restore tos t s =
    set_regs t (RESTORE_CALLEE_SAVED_REGISTERS (pv_memory s) (tos - STORED_REGISTER_SPACE) (pv_regs s t)) s"

definition return_routine :: "u64 \<Rightarrow> u64 \<Rightarrow> provider \<Rightarrow> provider" where
  "return_routine tos t s = set_phase t Restored (restore tos t s)"

definition RELEASE_LOCK_load :: "u64 \<Rightarrow> provider \<Rightarrow> provider" where
  "RELEASE_LOCK_load t s = set_phase t (Releasing (pv_lock s = Some (t, []))) s"

definition RELEASE_LOCK_store :: "u64 \<Rightarrow> provider \<Rightarrow> provider" where
  "RELEASE_LOCK_store t s = set_phase t Returned (s\<lparr>pv_lock := None\<rparr>)"

definition RELEASE_LOCK_svc :: "u64 \<Rightarrow> provider \<Rightarrow> provider result" where
  "RELEASE_LOCK_svc t s = rbind (svc_lock_release t s) (\<lambda>s. Inr (set_phase t Returned s))"

text \<open>The exception routine, and what happens when the handler comes back: the lock is released first and the registers are
  restored afterwards.\<close>

definition exception_routine :: "u64 \<Rightarrow> u64 \<Rightarrow> provider \<Rightarrow> provider" where
  "exception_routine tos t s =
    (let s = restore tos t s;
         x = pv_regs s t
     in set_phase t Raised (s\<lparr>pv_regs := (pv_regs s)(t := x(27 := x 0))\<rparr>))"

definition handler_came_back :: "u64 \<Rightarrow> provider \<Rightarrow> provider result" where
  "handler_came_back t s = rbind (svc_lock_release t s) (\<lambda>s. Inr (set_phase t Failing s))"

definition badly_written_driver_exception :: u64 where "badly_written_driver_exception = 0xbadc0de"

definition fail_routine :: "u64 \<Rightarrow> u64 \<Rightarrow> provider \<Rightarrow> provider" where
  "fail_routine tos t s =
    exception_routine tos t (s\<lparr>pv_regs := (pv_regs s)(t := (pv_regs s t)(0 := badly_written_driver_exception))\<rparr>)"

text \<open>The veneer of a provider without a lock.\<close>

definition unlocked_veneer :: "u64 \<Rightarrow> registers \<Rightarrow> words \<Rightarrow> u64 \<times> words" where
  "unlocked_veneer tos x m = STACK_CALLEE_SAVED_REGISTERS x tos m"

definition unlocked_return :: "u64 \<Rightarrow> words \<Rightarrow> registers \<Rightarrow> u64 \<times> registers" where
  "unlocked_return tos m x = RESTORE_CALLEE_SAVED_REGISTERS m (tos - STORED_REGISTER_SPACE) x"

definition unlocked_exception :: "u64 \<Rightarrow> words \<Rightarrow> registers \<Rightarrow> u64 \<times> registers" where
  "unlocked_exception tos m x =
    (let (sp, x) = RESTORE_CALLEE_SAVED_REGISTERS m (tos - STORED_REGISTER_SPACE) x in (sp, x(27 := x 0)))"

text \<open>The words of the stack that hold the registers of the caller.\<close>

definition saved_words :: "u64 \<Rightarrow> u64 set" where
  "saved_words tos = (\<lambda>i. tos - STORED_REGISTER_SPACE + 8 * of_nat i) ` {..<12}"

inductive provider_step :: "u64 \<Rightarrow> u64 \<Rightarrow> provider \<Rightarrow> provider \<Rightarrow> bool" for tos where
  step_call: "pv_phase s t \<in> {Out, Returned, Raised} \<Longrightarrow> provider_step tos t s (veneer tos t x s)"
| step_load: "pv_phase s t = Called \<Longrightarrow> provider_step tos t s (CLAIM_LOCK_load t s)"
| step_store: "pv_phase s t = Loaded True \<Longrightarrow> pv_lock s = None \<Longrightarrow> provider_step tos t s (CLAIM_LOCK_store t s)"
| step_store_fails: "pv_phase s t = Loaded True \<Longrightarrow> provider_step tos t s (set_phase t Called s)"
| step_wait: "pv_phase s t = Loaded False \<Longrightarrow> provider_step tos t s (svc_lock_wait t s)"
| step_enter: "pv_phase s t = Claimed \<Longrightarrow> provider_step tos t s (call_handler t s)"
| step_handler: "pv_phase s t = Handling \<Longrightarrow> \<forall>a\<in>saved_words tos. m a = pv_memory s a \<Longrightarrow>
    provider_step tos t s (set_regs t r (s\<lparr>pv_memory := m\<rparr>))"
| step_return: "pv_phase s t = Handling \<Longrightarrow> provider_step tos t s (return_routine tos t s)"
| step_release_load: "pv_phase s t = Restored \<Longrightarrow> provider_step tos t s (RELEASE_LOCK_load t s)"
| step_release_store: "pv_phase s t = Releasing True \<Longrightarrow> pv_lock s = Some (t, []) \<Longrightarrow>
    provider_step tos t s (RELEASE_LOCK_store t s)"
| step_release: "pv_phase s t = Releasing b \<Longrightarrow> RELEASE_LOCK_svc t s = Inr s' \<Longrightarrow> provider_step tos t s s'"
| step_exception: "pv_phase s t = Handling \<Longrightarrow> provider_step tos t s (exception_routine tos t s)"
| step_came_back: "pv_phase s t = Handling \<Longrightarrow> handler_came_back t s = Inr s' \<Longrightarrow> provider_step tos t s s'"
| step_fail: "pv_phase s t = Failing \<Longrightarrow> provider_step tos t s (fail_routine tos t s)"

text \<open>A run, with the threads that took the steps.\<close>

inductive provider_run :: "u64 \<Rightarrow> provider \<Rightarrow> u64 list \<Rightarrow> provider \<Rightarrow> bool" for tos where
  run_nil: "provider_run tos s [] s"
| run_step: "provider_run tos s ts s' \<Longrightarrow> provider_step tos t s' s'' \<Longrightarrow> provider_run tos s (ts @ [t]) s''"

definition provider_start :: "provider \<Rightarrow> bool" where
  "provider_start s \<longleftrightarrow> pv_lock s = None \<and> (\<forall>t. pv_phase s t = Out)"

text \<open>The threads between claiming and releasing the lock.\<close>

fun inside :: "phase \<Rightarrow> bool" where
  "inside Claimed = True"
| "inside Handling = True"
| "inside Restored = True"
| "inside (Releasing b) = True"
| "inside p = False"

section \<open>Registers come back\<close>

definition caller_saved_at :: "u64 \<Rightarrow> words \<Rightarrow> registers \<Rightarrow> bool" where
  "caller_saved_at tos m x \<longleftrightarrow> (\<forall>i<12. m (tos - STORED_REGISTER_SPACE + 8 * of_nat i) = x (19 + i))"

definition same_callee_saved :: "registers \<Rightarrow> registers \<Rightarrow> bool" where
  "same_callee_saved x y \<longleftrightarrow> (\<forall>i<12. x (19 + i) = y (19 + i))"

lemma all_less_12: "(\<forall>i<12. P i) \<longleftrightarrow> P 0 \<and> P 1 \<and> P 2 \<and> P 3 \<and> P 4 \<and> P 5 \<and> P 6 \<and> P 7 \<and> P 8 \<and> P 9 \<and> P 10 \<and> P (11 :: nat)"
  by (simp add: numeral_eq_Suc All_less_Suc2 One_nat_def)

lemma drop_bit_ucast_u32: "drop_bit 32 (ucast (c :: u32) :: u64) = 0"
  by (intro bit_eqI) (auto simp: bit_simps dest: bit_imp_le_length)

lemma saving_saves:
  assumes "STACK_CALLEE_SAVED_REGISTERS x tos m = (sp, m')"
  shows "caller_saved_at tos m' x"
proof -
  have m': "m' = snd (STACK_CALLEE_SAVED_REGISTERS x tos m)" using assms by simp
  show ?thesis
    unfolding caller_saved_at_def all_less_12 STORED_REGISTER_SPACE_def m'
    by (simp add: STACK_CALLEE_SAVED_REGISTERS_def store_pair_def Let_def)
qed

lemma restoring_restores:
  assumes "caller_saved_at tos m x"
  shows "same_callee_saved (snd (RESTORE_CALLEE_SAVED_REGISTERS m (tos - STORED_REGISTER_SPACE) y)) x"
  using assms
  unfolding same_callee_saved_def caller_saved_at_def all_less_12 STORED_REGISTER_SPACE_def
  by (simp add: RESTORE_CALLEE_SAVED_REGISTERS_def load_pair_def Let_def)

text \<open>A veneer without a lock, for a provider that one thread calls: the two halves around the handler.\<close>

lemma unlocked_call_restores:
  assumes "unlocked_veneer tos x m = (sp, m')" and "\<forall>a\<in>saved_words tos. m'' a = m' a"
  shows "same_callee_saved (snd (unlocked_return tos m'' y)) x"
proof -
  have "caller_saved_at tos m' x" using assms(1) saving_saves unfolding unlocked_veneer_def by blast
  then have "caller_saved_at tos m'' x" using assms(2) by (auto simp: saved_words_def caller_saved_at_def)
  then show ?thesis unfolding unlocked_return_def by (rule restoring_restores)
qed

text \<open>The view of the lock word: the code of the owner alone when nobody waits.\<close>

lemma lock_word_own:
  assumes "qs = [] \<or> thread_code (hd qs) \<noteq> 0"
  shows "lock_word t qs = ucast (thread_code t) \<longleftrightarrow> qs = []"
proof
  assume "lock_word t qs = ucast (thread_code t)"
  then have "ucast (drop_bit 32 (lock_word t qs)) = (0 :: u32)" by (simp add: drop_bit_ucast_u32)
  then show "qs = []" using assms lock_word_halves(1) [of t qs] by (auto split: if_splits)
qed (simp add: lock_word_def)

section \<open>One thread at a time\<close>

fun phase_ok :: "u64 \<Rightarrow> words \<Rightarrow> u64 \<Rightarrow> registers \<Rightarrow> registers \<Rightarrow> phase \<Rightarrow> bool" where
  "phase_ok tos m sp x caller Called = (sp = tos \<and> x = caller)"
| "phase_ok tos m sp x caller (Loaded b) = (sp = tos \<and> x = caller)"
| "phase_ok tos m sp x caller Waiting = (sp = tos \<and> x = caller)"
| "phase_ok tos m sp x caller Claimed = (sp = tos \<and> x = caller)"
| "phase_ok tos m sp x caller Handling = caller_saved_at tos m caller"
| "phase_ok tos m sp x caller Restored = same_callee_saved x caller"
| "phase_ok tos m sp x caller (Releasing b) = same_callee_saved x caller"
| "phase_ok tos m sp x caller Returned = same_callee_saved x caller"
| "phase_ok tos m sp x caller p = True"

definition thread_ok :: "u64 \<Rightarrow> provider \<Rightarrow> u64 \<Rightarrow> bool" where
  "thread_ok tos s t = phase_ok tos (pv_memory s) (pv_sp s t) (pv_regs s t) (pv_caller s t) (pv_phase s t)"

definition queue_ok :: "(u64 \<times> u64 list) option \<Rightarrow> (u64 \<Rightarrow> phase) \<Rightarrow> bool" where
  "queue_ok l p \<longleftrightarrow>
    (\<forall>t. inside (p t) \<longrightarrow> (\<exists>qs. l = Some (t, qs)))
    \<and> (\<forall>t qs. l = Some (t, qs) \<longrightarrow> distinct qs \<and> (\<forall>q\<in>set qs. p q = Waiting))"

definition provider_inv :: "u64 \<Rightarrow> provider \<Rightarrow> bool" where
  "provider_inv tos s \<longleftrightarrow> queue_ok (pv_lock s) (pv_phase s) \<and> (\<forall>t. thread_ok tos s t)"

lemma queue_ok_owner: "queue_ok l p \<Longrightarrow> inside (p t) \<Longrightarrow> \<exists>qs. l = Some (t, qs)"
  by (simp add: queue_ok_def)

lemma queue_ok_alone: "queue_ok l p \<Longrightarrow> inside (p t) \<Longrightarrow> inside (p u) \<Longrightarrow> u = t"
  by (metis queue_ok_owner option.inject prod.inject)

text \<open>A thread moves on without touching the lock, it takes a free lock, it joins the queue, it gives the lock away.\<close>

lemma queue_ok_moves:
  assumes "queue_ok l p" and "inside q \<longrightarrow> inside (p t)" and "p t \<noteq> Waiting"
  shows "queue_ok l (p(t := q))"
  using assms by (auto simp: queue_ok_def)

lemma queue_ok_takes: "queue_ok None p \<Longrightarrow> queue_ok (Some (t, [])) (p(t := q))"
  by (auto simp: queue_ok_def)

lemma queue_ok_joins:
  assumes "queue_ok (Some (owner, qs)) p" and "\<not> inside (p t)" and "p t \<noteq> Waiting"
  shows "queue_ok (Some (owner, qs @ [t])) (p(t := Waiting))"
  using assms by (auto simp: queue_ok_def)

lemma queue_ok_frees:
  assumes "queue_ok (Some (t, [])) p" and "\<not> inside q"
  shows "queue_ok None (p(t := q))"
  using assms by (auto simp: queue_ok_def)

lemma queue_ok_hands_over:
  assumes "queue_ok (Some (t, u # qs)) p" and "inside (p t)" and "\<not> inside q"
  shows "queue_ok (Some (u, qs)) (p(u := Claimed, t := q))"
proof -
  have w: "distinct (u # qs)" "\<forall>v\<in>set (u # qs). p v = Waiting" using assms(1) by (simp_all add: queue_ok_def)
  then have "t \<notin> set (u # qs)" using assms(2) by auto
  moreover have "v = t" if "inside (p v)" for v using queue_ok_alone [OF assms(1,2) that] .
  ultimately show ?thesis using w assms(3) unfolding queue_ok_def by auto
qed

lemma saved_words_kept:
  assumes "\<forall>a\<in>saved_words tos. m' a = m a" and "caller_saved_at tos m x"
  shows "caller_saved_at tos m' x"
  using assms by (auto simp: saved_words_def caller_saved_at_def)

lemmas provider_defs = set_phase_def set_regs_def veneer_def CLAIM_LOCK_load_def CLAIM_LOCK_store_def return_routine_def
  restore_def RELEASE_LOCK_load_def RELEASE_LOCK_store_def exception_routine_def fail_routine_def

text \<open>The system calls keep the invariant; a release by the owner does not stop the machine.\<close>

lemma lock_release_keeps:
  assumes "provider_inv tos s" and "inside (pv_phase s t)" and "\<not> inside p"
    and "phase_ok tos (pv_memory s) (pv_sp s t) (pv_regs s t) (pv_caller s t) p"
  shows "\<exists>s'. svc_lock_release t s = Inr s' \<and> provider_inv tos (set_phase t p s')"
proof -
  have q: "queue_ok (pv_lock s) (pv_phase s)" and th: "thread_ok tos s u" for u
    using assms(1) by (simp_all add: provider_inv_def)
  obtain qs where l: "pv_lock s = Some (t, qs)" using queue_ok_owner [OF q assms(2)] by blast
  show ?thesis
  proof (cases qs)
    case Nil
    then show ?thesis
      using l q th assms(3,4) queue_ok_frees [of t "pv_phase s" p]
      by (simp add: svc_lock_release_def provider_inv_def set_phase_def thread_ok_def)
  next
    case (Cons u us)
    have "pv_phase s u = Waiting" using q l Cons by (simp add: queue_ok_def)
    then show ?thesis
      using l q th [of u] th assms(2-4) queue_ok_hands_over [of t u us "pv_phase s" p] Cons
      by (simp add: svc_lock_release_def provider_inv_def set_phase_def thread_ok_def)
  qed
qed

lemma lock_wait_keeps:
  assumes "provider_inv tos s" and "pv_phase s t = Loaded b"
  shows "provider_inv tos (svc_lock_wait t s)"
proof -
  have q: "queue_ok (pv_lock s) (pv_phase s)" and th: "thread_ok tos s u" for u
    using assms(1) by (simp_all add: provider_inv_def)
  have "queue_ok (pv_lock s) ((pv_phase s)(t := Claimed))" if "pv_lock s = Some (t, [])"
    using q that by (auto simp: queue_ok_def)
  then show ?thesis
    using q th th [of t] assms(2) queue_ok_takes [of "pv_phase s" t Claimed] queue_ok_joins [of _ _ "pv_phase s" t]
    by (auto simp: svc_lock_wait_def provider_inv_def set_phase_def thread_ok_def split: option.split)
qed

text \<open>A step of one thread that leaves the lock and the memory alone concerns this thread only.\<close>

lemma local_step_keeps:
  assumes "provider_inv tos s" and "pv_lock s' = pv_lock s" and "pv_memory s' = pv_memory s"
    and "pv_phase s' = (pv_phase s)(t := q)" and "inside q \<longrightarrow> inside (pv_phase s t)" and "pv_phase s t \<noteq> Waiting"
    and "\<And>u. u \<noteq> t \<Longrightarrow> pv_sp s' u = pv_sp s u \<and> pv_regs s' u = pv_regs s u \<and> pv_caller s' u = pv_caller s u"
    and "phase_ok tos (pv_memory s) (pv_sp s' t) (pv_regs s' t) (pv_caller s' t) q"
  shows "provider_inv tos s'"
proof -
  have "queue_ok (pv_lock s') (pv_phase s')"
    using assms(1,2,4-6) queue_ok_moves [of "pv_lock s" "pv_phase s" q t] by (simp add: provider_inv_def)
  moreover have "thread_ok tos s' u" for u
    using assms(1,3,4,7,8) by (cases "u = t") (simp_all add: provider_inv_def thread_ok_def)
  ultimately show ?thesis by (simp add: provider_inv_def)
qed

text \<open>A step of the thread inside that changes the memory.\<close>

lemma memory_step_keeps:
  assumes "provider_inv tos s" and "inside (pv_phase s t)" and "pv_lock s' = pv_lock s"
    and "pv_phase s' = (pv_phase s)(t := Handling)" and "caller_saved_at tos (pv_memory s') (pv_caller s' t)"
    and "\<And>u. u \<noteq> t \<Longrightarrow> pv_sp s' u = pv_sp s u \<and> pv_regs s' u = pv_regs s u \<and> pv_caller s' u = pv_caller s u"
  shows "provider_inv tos s'"
proof -
  have q: "queue_ok (pv_lock s) (pv_phase s)" using assms(1) by (simp add: provider_inv_def)
  have "pv_phase s t \<noteq> Waiting" using assms(2) by auto
  then have "queue_ok (pv_lock s') (pv_phase s')" using q assms(2-4) queue_ok_moves by simp
  moreover have "thread_ok tos s' u" for u
  proof (cases "u = t")
    case False
    then have "pv_phase s u \<noteq> Handling" using queue_ok_alone [OF q assms(2)] by force
    moreover have "thread_ok tos s u" using assms(1) by (simp add: provider_inv_def)
    ultimately show ?thesis using False assms(4,6) by (cases "pv_phase s u") (simp_all add: thread_ok_def)
  qed (use assms(4,5) in \<open>simp add: thread_ok_def\<close>)
  ultimately show ?thesis by (simp add: provider_inv_def)
qed

lemma provider_step_keeps:
  assumes "provider_step tos t s s'" and "provider_inv tos s"
  shows "provider_inv tos s'"
  using assms
proof cases
  case (step_call x)
  then show ?thesis using assms(2) by (intro local_step_keeps [of tos s s' t Called]) (auto simp: provider_defs)
next
  case step_load
  then show ?thesis
    using assms(2) by (intro local_step_keeps [of tos s s' t "Loaded (pv_lock s = None)"])
      (auto simp: provider_defs provider_inv_def thread_ok_def dest!: spec [of _ t])
next
  case step_store
  have "thread_ok tos s u" for u using assms(2) by (simp add: provider_inv_def)
  from this [of t] this show ?thesis
    using step_store assms(2) queue_ok_takes [of "pv_phase s" t Claimed]
    by (simp add: provider_inv_def provider_defs thread_ok_def)
next
  case step_store_fails
  then show ?thesis
    using assms(2) by (intro local_step_keeps [of tos s s' t Called])
      (auto simp: provider_defs provider_inv_def thread_ok_def dest!: spec [of _ t])
next
  case step_wait
  then show ?thesis using lock_wait_keeps assms(2) by simp
next
  case step_enter
  obtain sp m where m: "STACK_CALLEE_SAVED_REGISTERS (pv_regs s t) (pv_sp s t) (pv_memory s) = (sp, m)" by fastforce
  have "thread_ok tos s t" using assms(2) by (simp add: provider_inv_def)
  then have e: "pv_sp s t = tos" "pv_regs s t = pv_caller s t" using step_enter(2) by (simp_all add: thread_ok_def)
  have c: "caller_saved_at tos m (pv_caller s t)" by (rule saving_saves [OF m [unfolded e]])
  have s': "s' = set_phase t Handling (s\<lparr>pv_sp := (pv_sp s)(t := sp), pv_memory := m\<rparr>)"
    unfolding step_enter(1) call_handler_def m by simp
  have i: "inside (pv_phase s t)" using step_enter(2) by simp
  show ?thesis unfolding s' by (rule memory_step_keeps [OF assms(2) i]) (simp_all add: set_phase_def c)
next
  case (step_handler m r)
  have "thread_ok tos s t" using assms(2) by (simp add: provider_inv_def)
  then have "caller_saved_at tos (pv_memory s) (pv_caller s t)" using step_handler(2) by (simp add: thread_ok_def)
  then have c: "caller_saved_at tos m (pv_caller s t)" by (rule saved_words_kept [OF step_handler(3)])
  have i: "inside (pv_phase s t)" "(pv_phase s)(t := Handling) = pv_phase s" using step_handler(2) by auto
  show ?thesis
    unfolding step_handler(1) by (rule memory_step_keeps [OF assms(2) i(1)]) (simp_all add: set_regs_def c i(2))
next
  case step_return
  have "thread_ok tos s t" using assms(2) by (simp add: provider_inv_def)
  then show ?thesis
    using step_return assms(2) restoring_restores
    by (intro local_step_keeps [of tos s s' t Restored]) (auto simp: provider_defs thread_ok_def)
next
  case step_release_load
  have "thread_ok tos s t" using assms(2) by (simp add: provider_inv_def)
  then show ?thesis
    using step_release_load assms(2)
    by (intro local_step_keeps [of tos s s' t "Releasing (pv_lock s = Some (t, []))"]) (auto simp: provider_defs thread_ok_def)
next
  case step_release_store
  have "thread_ok tos s u" for u using assms(2) by (simp add: provider_inv_def)
  from this [of t] this show ?thesis
    using step_release_store assms(2) queue_ok_frees [of t "pv_phase s" Returned]
    by (simp add: provider_inv_def provider_defs thread_ok_def)
next
  case (step_release b)
  have "thread_ok tos s t" using assms(2) by (simp add: provider_inv_def)
  then have "\<exists>s'. svc_lock_release t s = Inr s' \<and> provider_inv tos (set_phase t Returned s')"
    using step_release assms(2) by (intro lock_release_keeps) (simp_all add: thread_ok_def)
  then show ?thesis using step_release(2) by (auto simp: RELEASE_LOCK_svc_def)
next
  case step_exception
  then show ?thesis
    using assms(2) by (intro local_step_keeps [of tos s s' t Raised]) (auto simp: provider_defs Let_def)
next
  case step_came_back
  have "\<exists>s'. svc_lock_release t s = Inr s' \<and> provider_inv tos (set_phase t Failing s')"
    using step_came_back assms(2) by (intro lock_release_keeps) simp_all
  then show ?thesis using step_came_back(2) by (auto simp: handler_came_back_def)
next
  case step_fail
  then show ?thesis
    using assms(2) by (intro local_step_keeps [of tos s s' t Raised]) (auto simp: provider_defs Let_def)
qed

lemma provider_run_keeps: "provider_run tos s ts s' \<Longrightarrow> provider_inv tos s \<Longrightarrow> provider_inv tos s'"
  by (induction rule: provider_run.induct) (auto intro: provider_step_keeps)

lemma provider_start_inv: "provider_start s \<Longrightarrow> provider_inv tos s"
  by (simp add: provider_start_def provider_inv_def queue_ok_def thread_ok_def)


definition sample_provider :: provider where
  "sample_provider = \<lparr>pv_lock = None, pv_memory = (\<lambda>_. 0), pv_regs = (\<lambda>_ _. 0), pv_sp = (\<lambda>_. 0), pv_phase = (\<lambda>_. Out),
     pv_caller = (\<lambda>_ _. 0)\<rparr>"

lemma provider_run_first:
  assumes "provider_step tos t s s1" and "provider_run tos s1 ts s2"
  shows "provider_run tos s (t # ts) s2"
  using assms(2,1)
proof (induction rule: provider_run.induct)
  case (run_nil s1)
  then show ?case using provider_run.run_step [OF provider_run.run_nil] by fastforce
next
  case (run_step s1 ts s' u s'')
  then show ?case using provider_run.run_step [of tos s "t # ts" s' u s''] by simp
qed

text \<open>A thread has entered the handler while a second one waits.\<close>

definition sample_served :: provider where
  "sample_served = svc_lock_wait 2 (CLAIM_LOCK_load 2 (veneer 0x9000 2 (\<lambda>i. 7)
     (call_handler 1 (CLAIM_LOCK_store 1 (CLAIM_LOCK_load 1 (veneer 0x9000 1 of_nat sample_provider))))))"

lemma sample_served_phases:
  "pv_phase sample_served 1 = Handling" "pv_phase sample_served 2 = Waiting" "pv_lock sample_served = Some (1, [2])"
  "provider_run 0x9000 sample_provider [1, 1, 1, 1, 2, 2, 2] sample_served"
proof -
  let ?a = "veneer 0x9000 1 of_nat sample_provider"
  let ?c = "CLAIM_LOCK_store 1 (CLAIM_LOCK_load 1 ?a)"
  define d where "d = call_handler 1 ?c"
  let ?e = "veneer 0x9000 2 (\<lambda>i. 7) d"
  have d: "pv_phase d = (\<lambda>_. Out)(1 := Handling)" "pv_lock d = Some (1, [])"
    by (simp_all add: d_def call_handler_def STACK_CALLEE_SAVED_REGISTERS_def Let_def provider_defs sample_provider_def)
  then show "pv_phase sample_served 1 = Handling" "pv_phase sample_served 2 = Waiting" "pv_lock sample_served = Some (1, [2])"
    unfolding sample_served_def d_def [symmetric] by (simp_all add: svc_lock_wait_def provider_defs)
  have "provider_step 0x9000 1 sample_provider ?a" by (rule step_call) (simp add: sample_provider_def)
  moreover have "provider_step 0x9000 1 ?a (CLAIM_LOCK_load 1 ?a)" by (rule step_load) (simp add: provider_defs)
  moreover have "provider_step 0x9000 1 (CLAIM_LOCK_load 1 ?a) ?c"
    by (rule step_store) (simp_all add: provider_defs sample_provider_def)
  moreover have "provider_step 0x9000 1 ?c d" unfolding d_def by (rule step_enter) (simp add: provider_defs)
  moreover have "provider_step 0x9000 2 d ?e" by (rule step_call) (simp add: d)
  moreover have "provider_step 0x9000 2 ?e (CLAIM_LOCK_load 2 ?e)" by (rule step_load) (simp add: provider_defs)
  moreover have "provider_step 0x9000 2 (CLAIM_LOCK_load 2 ?e) sample_served"
    unfolding sample_served_def d_def [symmetric] by (rule step_wait) (simp add: provider_defs d)
  ultimately show "provider_run 0x9000 sample_provider [1, 1, 1, 1, 2, 2, 2] sample_served"
    by (blast intro: provider_run_first provider_run.run_nil)
qed




end
