(* ===== verification/Interface_Generator.thy ===== *)
theory Interface_Generator
  imports Interface_Compiler
begin

text \<open>
  The generator of the interface compiler (\<^verbatim>\<open>tools/interfaces.c\<close>): from the line of a routine it prints the
  function a client calls and the declarations, the branch of the dispatcher and the return label a provider needs.

  A line is a buffer of characters that the compiler cuts with terminating zeros while a routine is printed and mends
  afterwards.  What is printed is a string, or the exit of the compiler, or an overflow of one of its buffers.  The
  specification is a routine as a name with its parameters and results: its line in an interface file, and the text
  that client and provider get for it.  A line is shown to be printed as the routine it is the line of, on both
  sides with the same code and the parameters in the same order, and to be left as it was, so that every pass of
  the compiler over it computes the same code.
\<close>

section \<open>Scanning\<close>

definition tool_bind :: "tool_error + 'a \<Rightarrow> ('a \<Rightarrow> tool_error + 'b) \<Rightarrow> tool_error + 'b" where
  "tool_bind r f = (case r of Inl e \<Rightarrow> Inl e | Inr a \<Rightarrow> f a)"

lemma tool_bind_simps [simp]: "tool_bind (Inl e) f = Inl e" "tool_bind (Inr a) f = f a"
  by (simp_all add: tool_bind_def)

definition name_char :: "char \<Rightarrow> bool" where
  "name_char c \<longleftrightarrow> c \<in> set ''abcdefghijklmnopqrstuvwxyzABCDEFGHIJKLMNOPQRSTUVWXYZ0123456789_''"

definition type_char :: "char \<Rightarrow> bool" where
  "type_char c \<longleftrightarrow> name_char c \<or> c = CHR ''&''"

definition skip_space :: "string \<Rightarrow> string" where
  "skip_space s = dropWhile (\<lambda>c. c \<in> {CHR '' '', CHR 0x09, CHR 0x0A, CHR 0x0B, CHR 0x0C, CHR 0x0D}) s"

text \<open>\<^verbatim>\<open>sscanf( p, " %[a-zA-Z0-9_]:", name )\<close> into 32 characters, and with \<^verbatim>\<open>" %[a-zA-Z0-9_&]"\<close> into 128 more.\<close>

definition print_parameter_name :: "string \<Rightarrow> tool_error + string" where
  "print_parameter_name p =
    (let name = takeWhile name_char (skip_space p)
     in if name = [] then Inl (Exit 1) else if length name \<ge> 32 then Inl Overflow else Inr name)"

definition scan_parameter :: "string \<Rightarrow> tool_error + (string \<times> string)" where
  "scan_parameter p =
    tool_bind (print_parameter_name p) (\<lambda>name.
      case dropWhile name_char (skip_space p) of
        [] \<Rightarrow> Inl (Exit 1)
      | c # rest \<Rightarrow>
          if c \<noteq> CHR '':'' then Inl (Exit 1)
          else (let type_set = takeWhile type_char (skip_space rest)
                in if type_set = [] then Inl (Exit 1) else if length type_set \<ge> 128 then Inl Overflow
                   else Inr (name, type_set)))"

definition print_parameter_type :: "string \<Rightarrow> tool_error + string" where
  "print_parameter_type p = tool_bind (scan_parameter p) (\<lambda>(name, type_set). Inr type_set)"

definition print_parameter_decl :: "string \<Rightarrow> tool_error + string" where
  "print_parameter_decl p = tool_bind (scan_parameter p) (\<lambda>(name, type_set). Inr (type_set @ '' '' @ name))"

text \<open>\<^verbatim>\<open>p = strchr( p, ',' ) + 1\<close>; after the last parameter the pointer is not used.\<close>

definition after_comma :: "string \<Rightarrow> string" where
  "after_comma p = tl (dropWhile (\<lambda>c. c \<noteq> CHR '','') p)"

fun print_parameters :: "(nat \<Rightarrow> string \<Rightarrow> tool_error + string) \<Rightarrow> nat \<Rightarrow> nat \<Rightarrow> string \<Rightarrow> tool_error + string" where
  "print_parameters f 0 i p = Inr ''''"
| "print_parameters f (Suc n) i p =
    tool_bind (f i p) (\<lambda>text. tool_bind (print_parameters f n (i + 1) (after_comma p)) (\<lambda>rest. Inr (text @ rest)))"

definition pointer :: "string option \<Rightarrow> string" where
  "pointer p = (case p of None \<Rightarrow> '''' | Some s \<Rightarrow> s)"

section \<open>Printing numbers\<close>

definition hex_digit :: "nat \<Rightarrow> char" where
  "hex_digit d = ''0123456789abcdef'' ! d"

definition hex8 :: "u32 \<Rightarrow> string" where
  "hex8 n = map (\<lambda>i. hex_digit (unat (drop_bit (4 * (7 - i)) n AND 0xf))) [0..<8]"

fun decimal :: "nat \<Rightarrow> string" where
  "decimal n = (if n < 10 then [hex_digit n] else decimal (n div 10) @ [hex_digit (n mod 10)])"

declare decimal.simps [simp del]

definition nl :: string where "nl = [CHR 0x0A]"
definition continued :: string where "continued = '' '' @ [CHR 0x5C, CHR 0x0A]"
definition quote :: string where "quote = [CHR 0x22]"

section \<open>Cutting a line\<close>

fun strstr :: "string \<Rightarrow> string \<Rightarrow> nat option" where
  "strstr pat [] = (if pat = [] then Some 0 else None)"
| "strstr pat (c # cs) = (if take (length pat) (c # cs) = pat then Some 0 else map_option Suc (strstr pat cs))"

definition NUL :: char where "NUL = CHR 0x00"

definition c_string :: "string \<Rightarrow> nat \<Rightarrow> string" where
  "c_string b i = takeWhile (\<lambda>c. c \<noteq> NUL) (drop i b)"

definition put_at :: "nat option \<Rightarrow> char \<Rightarrow> string \<Rightarrow> string" where
  "put_at i c b = (case i of None \<Rightarrow> b | Some i \<Rightarrow> b[i := c])"

type_synonym routine_parser = "string \<Rightarrow> string \<Rightarrow> u32 \<Rightarrow> string option \<Rightarrow> string option \<Rightarrow> tool_error + string"

definition split_line :: "string \<Rightarrow> string \<Rightarrow> routine_parser \<Rightarrow> u32 \<Rightarrow> (tool_error + string) \<times> string" where
  "split_line interface_name routine fn prefix_crc =
    (let crc = crc32 (bytes_of (c_string routine 0)) prefix_crc;
         outparams = strstr '' OUT '' (c_string routine 0);
         routine = put_at outparams NUL routine;
         inparams = strstr '' IN '' (c_string routine 0);
         routine = put_at inparams NUL routine;
         first_space = strstr '' '' (c_string routine 0);
         routine = put_at first_space NUL routine;
         result = fn interface_name (c_string routine 0) crc
           (map_option (\<lambda>i. c_string routine (i + 4)) inparams) (map_option (\<lambda>i. c_string routine (i + 5)) outparams);
         routine = put_at first_space (CHR '' '') routine;
         routine = put_at outparams (CHR '' '') routine;
         routine = put_at inparams (CHR '' '') routine
     in (result, routine))"

section \<open>The text of a routine\<close>

definition export_interface_routine_client_code :: routine_parser where
  "export_interface_routine_client_code interface_name name crc inp out =
    (let out_params = parameters_count out; in_params = parameters_count inp in
     tool_bind (if out_params = 0 then Inr ''void'' else if out_params = 1 then print_parameter_type (pointer out)
                else Inr ''TODO '') (\<lambda>result_type.
     tool_bind (print_parameters (\<lambda>i p. tool_bind (print_parameter_decl p) (\<lambda>d. Inr ('', '' @ d))) in_params 0 (pointer inp)) (\<lambda>decls.
     tool_bind (if out_params > 0 then
                  tool_bind (print_parameter_type (pointer out)) (\<lambda>t. Inr (''  return '' @ t @ ''__from_integer_register( Isambard_''))
                else Inr ''  Isambard_'') (\<lambda>call.
     tool_bind (print_parameters (\<lambda>i p. tool_bind (print_parameter_name p) (\<lambda>n. Inr ('', '' @ n @ ''.r''))) in_params 0 (pointer inp)) (\<lambda>args.
       Inr (''static inline '' @ result_type @ '' '' @ interface_name @ ''__'' @ name @ ''( '' @ interface_name @ '' o'' @ decls
         @ '' )'' @ nl @ ''{'' @ nl @ call @ decimal in_params @ decimal out_params @ ''( o.r, 0x'' @ hex8 crc @ args
         @ (if out_params > 0 then '' ) );'' else '' );'') @ nl @ ''}'' @ nl @ nl))))))"

definition export_interface_routine_server_code :: routine_parser where
  "export_interface_routine_server_code interface_name name crc inp out =
    tool_bind (print_parameters (\<lambda>i p. tool_bind (print_parameter_decl p) (\<lambda>d. Inr ((if i \<noteq> 0 then '', '' else '''') @ d)))
      (parameters_count out) 0 (pointer out)) (\<lambda>results.
    tool_bind (print_parameters (\<lambda>i p. tool_bind (print_parameter_decl p) (\<lambda>d. Inr ('', '' @ d)))
      (parameters_count inp) 0 (pointer inp)) (\<lambda>decls.
      Inr (''extern void __attribute__(( noreturn )) c##__'' @ interface_name @ ''__'' @ name @ ''__return( '' @ results @ '' );'' @ continued
        @ ''void __attribute__(( noreturn )) c##__'' @ interface_name @ ''__'' @ name @ ''( c o'' @ decls @ '' );'' @ continued)))"

definition export_interface_routine_case_code :: routine_parser where
  "export_interface_routine_case_code interface_name name crc inp out =
    tool_bind (print_parameters (\<lambda>i p. tool_bind (print_parameter_type p) (\<lambda>t.
        Inr ('', '' @ t @ ''__from_integer_register( p'' @ decimal (i + 1) @ '' )''))) (parameters_count inp) 0 (pointer inp)) (\<lambda>args.
      Inr (''  case 0x'' @ hex8 crc @ '': '' @ ''c##__'' @ interface_name @ ''__'' @ name @ ''( o'' @ args @ '' );'' @ continued))"

definition export_interface_routine_return_functions :: routine_parser where
  "export_interface_routine_return_functions interface_name name crc inp out =
    Inr (quote @ [CHR 0x5C] @ ''n'' @ quote @ ''#c'' @ quote @ ''__'' @ interface_name @ ''__'' @ name @ ''__return:'' @ quote)"

section \<open>The text of a file\<close>

text \<open>The lines between an interface and its end, each printed by the same function; the lines are handed on.\<close>

fun export_routines :: "nat \<Rightarrow> string \<Rightarrow> routine_parser \<Rightarrow> u32 \<Rightarrow> nat \<Rightarrow> string list \<Rightarrow> tool_error + (string \<times> string list)" where
  "export_routines 0 interface_name fn crc l lines = Inr ('''', lines)"
| "export_routines (Suc n) interface_name fn crc l lines =
    (case split_line interface_name (lines ! l) fn crc of
       (Inl e, routine) \<Rightarrow> Inl e
     | (Inr text, routine) \<Rightarrow>
         tool_bind (export_routines n interface_name fn crc (l + 1) (lines[l := routine])) (\<lambda>(rest, lines).
           Inr (text @ rest, lines)))"

definition get_service_text :: "string \<Rightarrow> u32 \<Rightarrow> string" where
  "get_service_text interface_name crc =
    ''static inline '' @ interface_name @ '' '' @ interface_name @ ''__get_service( const char *name, long timeout )'' @ nl
    @ ''{'' @ nl
    @ ''  NUMBER result = {};'' @ nl
    @ ''  do {'' @ nl
    @ ''    result = SYSTEM__get_service( system, name_code( name ), NUMBER__from_integer_register( 0x'' @ hex8 crc
    @ '' ), NUMBER__from_integer_register( 0 ) );'' @ nl
    @ ''    if (timeout > 0) { timeout--; }'' @ nl
    @ ''    if (result.r == 0 && timeout != 0) { sleep_ms( 1 ); }'' @ nl
    @ ''  } while (timeout != 0 && result.r == 0);'' @ nl
    @ ''  return '' @ interface_name @ ''__from_integer_register( result.r );'' @ nl
    @ ''}'' @ nl"

definition export_client_interface :: "nat \<Rightarrow> nat \<Rightarrow> string list \<Rightarrow> tool_error + (string \<times> string list)" where
  "export_client_interface l end_line lines =
    (let interface_name = drop 10 (lines ! l);
         crc = crc32 (bytes_of ''__'') (crc32 (bytes_of interface_name) 0)
     in tool_bind (export_routines (end_line - (l + 1)) interface_name export_interface_routine_client_code crc (l + 1) lines)
          (\<lambda>(text, lines). Inr ((if interface_name \<noteq> ''SYSTEM'' then get_service_text interface_name crc else '''') @ text, lines)))"

definition server_text :: "string \<Rightarrow> u32 \<Rightarrow> string \<Rightarrow> string \<Rightarrow> string \<Rightarrow> string" where
  "server_text interface_name crc decls cases returns =
    ''#define ISAMBARD_'' @ interface_name @ ''__SERVER( c )'' @ continued
    @ ''extern void __attribute__ ((noreturn)) c##__veneer();'' @ continued
    @ ''extern void __attribute__ ((noreturn)) c##__return();'' @ continued
    @ ''extern void __attribute__ ((noreturn)) c##__exception( integer_register code );'' @ continued
    @ decls
    @ ''void c##__call_handler( c o, integer_register call, integer_register p1, integer_register p2, integer_register p3, integer_register p4 );'' @ continued
    @ (if interface_name \<noteq> ''SYSTEM'' then
    ''static inline void c##__'' @ interface_name @ ''__register_service( const char *name, void * v ) { SYSTEM__register_service( system, name_code( name ), NUMBER__from_integer_register( interface_to_pass_to( system.r, c##__veneer, v ) ), NUMBER__from_integer_register( 0x'' @ hex8 crc @ '' ) ); }'' @ continued
    else '''')
    @ ''static inline '' @ interface_name @ '' c##__'' @ interface_name @ ''__to_return( void * v ) { '' @ interface_name @ '' result; result.r = interface_to_return( c##__veneer, v ); return result; }'' @ continued
    @ ''static inline '' @ interface_name @ '' c##__'' @ interface_name @ ''__to_pass_to( integer_register target, void * v ) { '' @ interface_name @ '' result; result.r = interface_to_pass_to( target, c##__veneer, v ); return result; }'' @ nl @ nl
    @ ''#define AS_'' @ interface_name @ ''( c )  switch (call) {'' @ [CHR 0x5C] @ nl
    @ cases
    @ ''  }'' @ nl
    @ ''#define RETURN_FUNCTIONS_'' @ interface_name @ ''( c ) ''
    @ returns
    @ nl"

definition export_server_interface :: "nat \<Rightarrow> nat \<Rightarrow> string list \<Rightarrow> tool_error + (string \<times> string list)" where
  "export_server_interface l end_line lines =
    (let interface_name = drop 10 (lines ! l);
         crc = crc32 (bytes_of ''__'') (crc32 (bytes_of interface_name) 0);
         n = end_line - (l + 1)
     in tool_bind (export_routines n interface_name export_interface_routine_server_code crc (l + 1) lines) (\<lambda>(decls, lines).
        tool_bind (export_routines n interface_name export_interface_routine_case_code crc (l + 1) lines) (\<lambda>(cases, lines).
        tool_bind (export_routines n interface_name export_interface_routine_return_functions crc (l + 1) lines) (\<lambda>(returns, lines).
          Inr (server_text interface_name crc decls cases returns, lines)))))"

fun export_interfaces ::
    "(nat \<Rightarrow> nat \<Rightarrow> string list \<Rightarrow> tool_error + (string \<times> string list)) \<Rightarrow> (nat \<times> nat) list \<Rightarrow> string list
      \<Rightarrow> tool_error + string" where
  "export_interfaces f [] lines = Inr ''''"
| "export_interfaces f ((l, end_line) # others) lines =
    tool_bind (f l end_line lines) (\<lambda>(text, lines). tool_bind (export_interfaces f others lines) (\<lambda>rest. Inr (text @ rest)))"

definition export_client_code :: "parsed \<Rightarrow> tool_error + string" where
  "export_client_code s = export_interfaces export_client_interface (zip (p_interfaces s) (p_ends s)) (p_lines s)"

definition export_server_code :: "parsed \<Rightarrow> tool_error + string" where
  "export_server_code s = export_interfaces export_server_interface (zip (p_interfaces s) (p_ends s)) (p_lines s)"

definition interface_tool :: "string \<Rightarrow> string \<Rightarrow> tool_error + string" where
  "interface_tool program file =
    (if program = ''client'' then tool_bind (parse_file file) export_client_code
     else if program = ''server'' then tool_bind (parse_file file) export_server_code
     else Inl (Exit 1))"

section \<open>Lines are mended\<close>

lemma strstr_at:
  assumes "strstr (c # pat) s = Some i"
  shows "i < length s" and "s ! i = c"
proof -
  have "i < length s \<and> s ! i = c" using assms
  proof (induction s arbitrary: i)
    case (Cons d s)
    then show ?case by (cases i) (auto split: if_splits)
  qed simp
  then show "i < length s" "s ! i = c" by blast+
qed

lemma c_string_nth: "i < length (c_string b 0) \<Longrightarrow> c_string b 0 ! i = b ! i \<and> i < length b"
  unfolding c_string_def by (auto simp: takeWhile_nth dest: less_le_trans [OF _ length_takeWhile_le])

lemma found_space:
  assumes "strstr (CHR '' '' # pat) (c_string b 0) = Some i"
  shows "i < length b" and "b ! i = CHR '' ''"
  using strstr_at [OF assms] c_string_nth [of i b] by simp_all

lemma put_at_length [simp]: "length (put_at i c b) = length b"
  by (simp add: put_at_def split: option.split)

lemma put_at_nth: "i < length b \<Longrightarrow> put_at j c b ! i = (if j = Some i then c else b ! i)"
  by (cases j) (auto simp: put_at_def nth_list_update_neq)

lemma uncut_space:
  assumes "put_at j NUL b ! i = CHR '' ''" and "i < length b"
  shows "b ! i = CHR '' ''" and "j \<noteq> Some i"
  using assms by (auto simp: put_at_nth NUL_def split: if_splits)

text \<open>A position found in a cut line is not the place of a cut, and holds a space in the line itself.\<close>

lemma space_in_cut_line:
  assumes "strstr (CHR '' '' # pat) (c_string (put_at j NUL b) 0) = Some i"
  shows "b ! i = CHR '' ''" and "j \<noteq> Some i" and "i < length b"
proof -
  have i: "i < length b" "put_at j NUL b ! i = CHR '' ''" using found_space [OF assms] by simp_all
  then show "j \<noteq> Some i" "b ! i = CHR '' ''" "i < length b" using uncut_space by blast+
qed

text \<open>Whatever is printed, the line is the same afterwards.\<close>

lemma split_line_mends: "snd (split_line interface_name routine fn prefix_crc) = routine"
proof -
  define out where "out = strstr '' OUT '' (c_string routine 0)"
  define r1 where "r1 = put_at out NUL routine"
  define inp where "inp = strstr '' IN '' (c_string r1 0)"
  define r2 where "r2 = put_at inp NUL r1"
  define sp where "sp = strstr '' '' (c_string r2 0)"
  define r3 where "r3 = put_at sp NUL r2"
  have o: "routine ! i = CHR '' ''" "i < length routine" if "out = Some i" for i
    using found_space that unfolding out_def by blast+
  have n: "routine ! i = CHR '' ''" if "inp = Some i" for i
  proof -
    have "r1 ! i = CHR '' ''" using found_space that unfolding inp_def by blast
    moreover have "out \<noteq> Some i" "i < length routine"
      using space_in_cut_line that unfolding inp_def r1_def by blast+
    ultimately show ?thesis by (auto simp: r1_def put_at_def split: option.splits)
  qed
  have s: "routine ! i = CHR '' ''" if "sp = Some i" for i
  proof -
    have "r1 ! i = CHR '' ''" "inp \<noteq> Some i" "i < length r1"
      using space_in_cut_line that unfolding sp_def r2_def by blast+
    then show ?thesis using uncut_space(1) unfolding r1_def by simp
  qed
  have "put_at inp (CHR '' '') (put_at out (CHR '' '') (put_at sp (CHR '' '') r3)) = routine"
  proof (rule nth_equalityI)
    fix i assume "i < length (put_at inp (CHR '' '') (put_at out (CHR '' '') (put_at sp (CHR '' '') r3)))"
    then show "put_at inp (CHR '' '') (put_at out (CHR '' '') (put_at sp (CHR '' '') r3)) ! i = routine ! i"
      using o n s by (auto simp: r1_def r2_def r3_def put_at_nth)
  qed (simp add: r1_def r2_def r3_def)
  then show ?thesis
    by (simp add: split_line_def Let_def out_def r1_def inp_def r2_def sp_def r3_def)
qed

section \<open>Routines and their lines\<close>

record routine =
  r_name :: string
  r_in :: "(string \<times> string) list"
  r_out :: "(string \<times> string) list"

fun parameter_words :: "(string \<times> string) list \<Rightarrow> string list" where
  "parameter_words [] = []"
| "parameter_words [(n, ty)] = [n @ '':'', ty]"
| "parameter_words ((n, ty) # ps) = [n @ '':'', ty @ '',''] @ parameter_words ps"

fun join :: "string list \<Rightarrow> string" where
  "join [] = ''''"
| "join [w] = w"
| "join (w # ws) = w @ '' '' @ join ws"

definition line_words :: "routine \<Rightarrow> string list" where
  "line_words r =
    r_name r # (if r_in r = [] then [] else ''IN'' # parameter_words (r_in r))
      @ (if r_out r = [] then [] else ''OUT'' # parameter_words (r_out r))"

definition routine_line :: "routine \<Rightarrow> string" where
  "routine_line r = join (line_words r)"

definition is_name :: "string \<Rightarrow> bool" where
  "is_name s \<longleftrightarrow> s \<noteq> [] \<and> list_all name_char s"

fun well_formed_parameter :: "string \<times> string \<Rightarrow> bool" where
  "well_formed_parameter (n, ty) \<longleftrightarrow>
    is_name n \<and> length n < 32 \<and> ty \<noteq> [] \<and> list_all type_char ty \<and> length ty < 128 \<and> ty \<noteq> ''OUT''"

definition well_formed_routine :: "routine \<Rightarrow> bool" where
  "well_formed_routine r \<longleftrightarrow>
    is_name (r_name r) \<and> list_all well_formed_parameter (r_in r) \<and> list_all well_formed_parameter (r_out r)
    \<and> length (r_out r) \<le> 1"

section \<open>Finding the parts of a line\<close>

definition no_space :: "string \<Rightarrow> bool" where
  "no_space w \<longleftrightarrow> CHR '' '' \<notin> set w"

lemma strstr_skip: "no_space w \<Longrightarrow> strstr (CHR '' '' # pat) (w @ rest) = map_option (\<lambda>i. length w + i) (strstr (CHR '' '' # pat) rest)"
  by (cases "strstr (CHR '' '' # pat) rest"; induction w) (auto simp: no_space_def)

lemma take_word:
  assumes "no_space w" and "no_space v"
  shows "take (length w + 1) (v @ CHR '' '' # rest) = w @ '' '' \<longleftrightarrow> v = w"
proof
  assume a: "take (length w + 1) (v @ CHR '' '' # rest) = w @ '' ''"
  define s where "s = v @ CHR '' '' # rest"
  have s: "s = w @ CHR '' '' # drop (length w + 1) s"
    using a append_take_drop_id [of "length w + 1" s] unfolding s_def by simp
  have "takeWhile (\<lambda>c. c \<noteq> CHR '' '') s = v" using assms(2) by (simp add: s_def no_space_def takeWhile_append)
  moreover have "takeWhile (\<lambda>c. c \<noteq> CHR '' '') s = w"
    by (subst s) (use assms(1) in \<open>auto simp: no_space_def takeWhile_append\<close>)
  ultimately show "v = w" by simp
qed simp

lemma take_last_word:
  assumes "no_space v"
  shows "take (length w + 1) v \<noteq> w @ '' ''"
proof
  assume "take (length w + 1) v = w @ '' ''"
  then have "CHR '' '' \<in> set (take (length w + 1) v)" by simp
  then show False using assms in_set_takeD by (fastforce simp: no_space_def)
qed

lemma strstr_word_None:
  assumes "\<forall>w\<in>set ws. no_space w" and "no_space pat" and "pat \<notin> set (tl ws)"
  shows "strstr (CHR '' '' # pat @ '' '') (join ws) = None"
  using assms
proof (induction ws rule: join.induct)
  case (2 w)
  then show ?case using strstr_skip [of w "pat @ '' ''" "[]"] by simp
next
  case (3 w v ws)
  have n: "take (length pat + 1) (join (v # ws)) \<noteq> pat @ '' ''"
    using 3 take_word [of pat v] take_last_word [of v pat] by (cases ws) auto
  have "strstr (CHR '' '' # pat @ '' '') (join (v # ws)) = None"
    using 3 by (intro "3.IH") (auto dest: list.set_sel(2) [rotated])
  then show ?case using 3 n strstr_skip [of w "pat @ '' ''" "CHR '' '' # join (v # ws)"] by (simp add: One_nat_def)
qed simp

lemma strstr_word_Some:
  assumes "\<forall>w\<in>set us. no_space w" and "no_space pat" and "pat \<notin> set (tl us)" and "us \<noteq> []" and "vs \<noteq> []"
  shows "strstr (CHR '' '' # pat @ '' '') (join (us @ pat # vs)) = Some (length (join us))"
  using assms
proof (induction us rule: join.induct)
  case (2 w)
  obtain v vs' where "vs = v # vs'" using 2 by (cases vs) auto
  then have "join ([w] @ pat # vs) = w @ CHR '' '' # pat @ '' '' @ join vs" by simp
  then show ?case using 2 strstr_skip [of w "pat @ '' ''" "CHR '' '' # pat @ '' '' @ join vs"] by simp
next
  case (3 w v us)
  obtain x xs where x: "us @ pat # vs = x # xs" by (cases us) auto
  have "join (v # us @ pat # vs) = v @ CHR '' '' # join (x # xs)" by (simp add: x)
  then have n: "take (length pat + 1) (join (v # us @ pat # vs)) \<noteq> pat @ '' ''"
    using 3 take_word [of pat v] by auto
  have "strstr (CHR '' '' # pat @ '' '') (join ((v # us) @ pat # vs)) = Some (length (join (v # us)))"
    using 3 by (intro "3.IH") (auto dest: list.set_sel(2) [rotated])
  then show ?case
    using 3 n strstr_skip [of w "pat @ '' ''" "CHR '' '' # join (v # us @ pat # vs)"] by (simp add: One_nat_def)
qed simp

lemma join_append: "us \<noteq> [] \<Longrightarrow> vs \<noteq> [] \<Longrightarrow> join (us @ vs) = join us @ '' '' @ join vs"
proof (induction us rule: join.induct)
  case (2 w)
  then show ?case by (cases vs) auto
qed auto

text \<open>The words of parameters are not keywords.\<close>

lemma name_char_facts: "\<not> name_char (CHR '' '')" "\<not> name_char (CHR '':'')" "\<not> name_char (CHR '','')" "\<not> name_char (CHR 0x00)"
  "\<not> type_char (CHR '' '')" "\<not> type_char (CHR '','')" "\<not> type_char (CHR 0x00)"
  by (simp_all add: name_char_def type_char_def)

lemma parameter_words_facts:
  assumes "list_all well_formed_parameter ps" and "w \<in> set (parameter_words ps)"
  shows "no_space w" and "w \<noteq> ''OUT''" and "NUL \<notin> set w"
proof -
  have "no_space w \<and> w \<noteq> ''OUT'' \<and> NUL \<notin> set w" using assms
  proof (induction ps rule: parameter_words.induct)
    case (2 n ty)
    then show ?case
      using name_char_facts by (auto simp: no_space_def is_name_def list_all_iff NUL_def append_eq_Cons_conv)
  next
    case (3 n ty p ps)
    then show ?case
      using name_char_facts by (auto simp: no_space_def is_name_def list_all_iff NUL_def append_eq_Cons_conv)
  qed simp
  then show "no_space w" "w \<noteq> ''OUT''" "NUL \<notin> set w" by blast+
qed

section \<open>Reading parameters\<close>

definition parameter_text :: "(string \<times> string) list \<Rightarrow> string" where
  "parameter_text ps = join (parameter_words ps)"

lemma parameter_words_nonempty: "parameter_words ps = [] \<longleftrightarrow> ps = []"
  by (cases ps rule: parameter_words.cases) auto

lemma parameter_text_Cons:
  "parameter_text ((n, ty) # ps) = n @ '': '' @ ty @ (if ps = [] then '''' else '', '' @ parameter_text ps)"
proof (cases ps)
  case (Cons q qs)
  have "parameter_words ps \<noteq> []" by (simp add: Cons parameter_words_nonempty)
  then show ?thesis using Cons by (simp add: parameter_text_def neq_Nil_conv) auto
qed (simp add: parameter_text_def)

lemma name_char_visible:
  assumes "type_char c"
  shows "c \<notin> {CHR '' '', CHR 0x09, CHR 0x0A, CHR 0x0B, CHR 0x0C, CHR 0x0D}" and "c \<noteq> CHR '',''" and "c \<noteq> CHR 0x00"
  using assms by (auto simp: name_char_def type_char_def)

lemma name_char_type_char: "name_char c \<Longrightarrow> type_char c"
  by (simp add: type_char_def)

lemma skip_space_word:
  assumes "w \<noteq> []" and "list_all type_char w" and "sp \<in> {'''', '' ''}"
  shows "skip_space (sp @ w @ rest) = w @ rest"
  using assms name_char_visible(1) [of "hd w"] by (cases w) (auto simp: skip_space_def)

lemma word_then:
  assumes "list_all P w" and "rest = [] \<or> \<not> P (hd rest)"
  shows "takeWhile P (w @ rest) = w" and "dropWhile P (w @ rest) = rest"
  using assms by (cases rest; auto simp: takeWhile_append list_all_iff)+

lemma parameter_scanned:
  assumes "well_formed_parameter (n, ty)" and "sp \<in> {'''', '' ''}"
  shows "print_parameter_name (sp @ parameter_text ((n, ty) # ps)) = Inr n"
    and "scan_parameter (sp @ parameter_text ((n, ty) # ps)) = Inr (n, ty)"
proof -
  let ?more = "if ps = [] then '''' else '', '' @ parameter_text ps"
  have n: "n \<noteq> []" "list_all name_char n" "list_all type_char n" "length n < 32"
    and ty: "ty \<noteq> []" "list_all type_char ty" "length ty < 128"
    using assms(1) by (auto simp: is_name_def list_all_iff name_char_type_char)
  have s: "skip_space (sp @ parameter_text ((n, ty) # ps)) = n @ '': '' @ ty @ ?more"
    unfolding parameter_text_Cons by (rule skip_space_word [OF n(1,3) assms(2)])
  have s': "skip_space (CHR '' '' # ty @ ?more) = ty @ ?more" using skip_space_word [OF ty(1,2), of "'' ''" ?more] by simp
  have w: "takeWhile name_char (n @ '': '' @ ty @ ?more) = n" "dropWhile name_char (n @ '': '' @ ty @ ?more) = '': '' @ ty @ ?more"
    using n(2) name_char_facts(2) by (intro word_then; simp)+
  show name: "print_parameter_name (sp @ parameter_text ((n, ty) # ps)) = Inr n"
    unfolding print_parameter_name_def s w(1) Let_def using n by simp
  have "takeWhile type_char (ty @ ?more) = ty" using ty(2) name_char_facts(6) by (intro word_then) simp_all
  then show "scan_parameter (sp @ parameter_text ((n, ty) # ps)) = Inr (n, ty)"
    unfolding scan_parameter_def name s w(2) using s' ty by simp
qed

lemma after_comma_text:
  assumes "well_formed_parameter (n, ty)" and "sp \<in> {'''', '' ''}"
  shows "after_comma (sp @ parameter_text ((n, ty) # p # ps)) = '' '' @ parameter_text (p # ps)"
proof -
  have l: "list_all (\<lambda>c. c \<noteq> CHR '','') (sp @ n @ '': '' @ ty)"
    using assms name_char_visible(2) name_char_type_char by (auto simp: list_all_iff is_name_def)
  have e: "sp @ parameter_text ((n, ty) # p # ps) = (sp @ n @ '': '' @ ty) @ '', '' @ parameter_text (p # ps)"
    unfolding parameter_text_Cons [of n ty "p # ps"] by simp
  have "dropWhile (\<lambda>c. c \<noteq> CHR '','') ((sp @ n @ '': '' @ ty) @ '', '' @ parameter_text (p # ps)) = '', '' @ parameter_text (p # ps)"
    by (rule word_then(2) [OF l]) simp
  then show ?thesis unfolding after_comma_def e by simp
qed

lemma parameters_counted:
  assumes "list_all well_formed_parameter ps" and "ps \<noteq> []"
  shows "parameters_count (Some (parameter_text ps)) = length ps"
proof -
  have "length (filter (\<lambda>c. c = CHR '','') (parameter_text ps)) = length ps - 1" using assms
  proof (induction ps)
    case (Cons p ps)
    obtain n ty where p: "p = (n, ty)" by fastforce
    have "filter (\<lambda>c. c = CHR '','') n = []" "filter (\<lambda>c. c = CHR '','') ty = []"
      using Cons.prems p name_char_visible(2) name_char_type_char by (auto simp: filter_empty_conv list_all_iff is_name_def)
    then show ?case using Cons p by (cases ps) (simp_all add: parameter_text_Cons)
  qed simp
  moreover obtain n ty qs where ps: "ps = (n, ty) # qs" using assms(2) by (cases ps) auto
  moreover obtain c cs where "n = c # cs" "c \<noteq> CHR '',''"
    using assms(1) ps name_char_visible(2) name_char_type_char by (cases n) (auto simp: is_name_def)
  ultimately show ?thesis by (simp add: parameters_count_def parameter_text_Cons)
qed

text \<open>A loop over the parameters prints one text for each, numbered from its start.\<close>

lemma print_parameters_text:
  assumes "list_all well_formed_parameter ps"
    and "\<And>j n ty qs sp. well_formed_parameter (n, ty) \<Longrightarrow> sp \<in> {'''', '' ''} \<Longrightarrow>
      f j (sp @ parameter_text ((n, ty) # qs)) = Inr (g j (n, ty))"
    and "sp \<in> {'''', '' ''}"
  shows "print_parameters f (length ps) i (sp @ parameter_text ps) = Inr (concat (map (case_prod g) (enumerate i ps)))"
  using assms(1,3)
proof (induction ps arbitrary: i sp)
  case (Cons p ps)
  obtain n ty where p: "p = (n, ty)" by fastforce
  have f: "f i (sp @ parameter_text (p # ps)) = Inr (g i p)" using Cons.prems p assms(2) by simp
  show ?case
  proof (cases ps)
    case Nil
    then show ?thesis using f by simp
  next
    case (Cons q qs)
    have "after_comma (sp @ parameter_text (p # ps)) = '' '' @ parameter_text ps"
      using Cons.prems p Cons after_comma_text [of n ty sp q qs] by simp
    then show ?thesis using Cons.IH [of "'' ''" "Suc i"] Cons.prems f by (simp add: One_nat_def)
  qed
qed simp

section \<open>Cutting the line of a routine\<close>

lemma c_string_upto:
  assumes "NUL \<notin> set w"
  shows "c_string (w @ NUL # rest) 0 = w" and "c_string w 0 = w"
  using assms by (auto simp: c_string_def takeWhile_append takeWhile_eq_all_conv)

lemma c_string_from:
  assumes "NUL \<notin> set w"
  shows "c_string (v @ w @ NUL # rest) (length v) = w" and "c_string (v @ w) (length v) = w"
  using c_string_upto [OF assms] by (simp_all add: c_string_def)

lemma no_NUL_join: "\<forall>w\<in>set ws. NUL \<notin> set w \<Longrightarrow> NUL \<notin> set (join ws)"
  by (induction ws rule: join.induct) (auto simp: NUL_def)

lemma name_facts:
  assumes "is_name n"
  shows "no_space n" and "NUL \<notin> set n" and "n \<noteq> []"
  using assms name_char_facts by (auto simp: is_name_def no_space_def NUL_def list_all_iff)

lemma no_space_strstr: "no_space w \<Longrightarrow> strstr '' '' w = None"
  using strstr_skip [of w "[]" "[]"] by simp

definition in_text :: "routine \<Rightarrow> string option" where
  "in_text r = (if r_in r = [] then None else Some (parameter_text (r_in r)))"

definition out_text :: "routine \<Rightarrow> string option" where
  "out_text r = (if r_out r = [] then None else Some (parameter_text (r_out r)))"

definition head_words :: "routine \<Rightarrow> string list" where
  "head_words r = r_name r # (if r_in r = [] then [] else ''IN'' # parameter_words (r_in r))"

lemma routine_line_parts:
  "routine_line r = join (head_words r) @ (case out_text r of None \<Rightarrow> '''' | Some p \<Rightarrow> '' OUT '' @ p)"
  "join (head_words r) = r_name r @ (case in_text r of None \<Rightarrow> '''' | Some p \<Rightarrow> '' IN '' @ p)"
proof -
  show "join (head_words r) = r_name r @ (case in_text r of None \<Rightarrow> '''' | Some p \<Rightarrow> '' IN '' @ p)"
    using join_append [of "[r_name r]" "''IN'' # parameter_words (r_in r)"] join_append [of "[''IN'']" "parameter_words (r_in r)"]
    by (simp add: head_words_def in_text_def parameter_text_def parameter_words_nonempty)
  have "line_words r = head_words r @ (if r_out r = [] then [] else ''OUT'' # parameter_words (r_out r))"
    by (simp add: line_words_def head_words_def)
  then show "routine_line r = join (head_words r) @ (case out_text r of None \<Rightarrow> '''' | Some p \<Rightarrow> '' OUT '' @ p)"
    using join_append [of "head_words r" "''OUT'' # parameter_words (r_out r)"] join_append [of "[''OUT'']" "parameter_words (r_out r)"]
    by (simp add: routine_line_def out_text_def parameter_text_def parameter_words_nonempty head_words_def)
qed

lemma head_words_facts:
  assumes "well_formed_routine r"
  shows "\<forall>w\<in>set (head_words r). no_space w" and "''OUT'' \<notin> set (tl (head_words r))" and "head_words r \<noteq> []"
    and "NUL \<notin> set (join (head_words r))" and "NUL \<notin> set (parameter_text (r_in r))" and "NUL \<notin> set (parameter_text (r_out r))"
proof -
  have n: "no_space (r_name r)" "NUL \<notin> set (r_name r)" and p: "list_all well_formed_parameter (r_in r)"
    and q: "list_all well_formed_parameter (r_out r)"
    using assms name_facts by (auto simp: well_formed_routine_def)
  have k: "no_space ''IN''" "NUL \<notin> set ''IN''" by (simp_all add: no_space_def NUL_def)
  show "\<forall>w\<in>set (head_words r). no_space w" using n k parameter_words_facts(1) [OF p] by (auto simp: head_words_def)
  show "''OUT'' \<notin> set (tl (head_words r))" using parameter_words_facts(2) [OF p] by (auto simp: head_words_def)
  show "NUL \<notin> set (join (head_words r))"
    using n k parameter_words_facts(3) [OF p] by (intro no_NUL_join) (auto simp: head_words_def)
  show "NUL \<notin> set (parameter_text (r_in r))" "NUL \<notin> set (parameter_text (r_out r))"
    unfolding parameter_text_def using parameter_words_facts(3) [OF p] parameter_words_facts(3) [OF q] no_NUL_join by simp_all
qed (simp add: head_words_def)

text \<open>The parts that are passed on are the name, the parameters and the results, with the code of the whole line.\<close>

lemma split_routine_line:
  assumes "well_formed_routine r"
  shows "split_line i (routine_line r) fn prefix =
    (fn i (r_name r) (crc32 (bytes_of (routine_line r)) prefix) (in_text r) (out_text r), routine_line r)"
proof -
  note f = head_words_facts [OF assms] and l = routine_line_parts [of r]
  have n: "no_space (r_name r)" "NUL \<notin> set (r_name r)" using assms name_facts by (auto simp: well_formed_routine_def)
  let ?h = "join (head_words r)"
  define cut where "cut = put_at (map_option (\<lambda>_. length ?h) (out_text r)) NUL (routine_line r)"
  have out: "strstr '' OUT '' (routine_line r) = map_option (\<lambda>_. length ?h) (out_text r)"
    using strstr_word_None [OF f(1), of "''OUT''"] strstr_word_Some [OF f(1), of "''OUT''" "parameter_words (r_out r)"] f(2,3)
    by (auto simp: routine_line_def line_words_def head_words_def out_text_def no_space_def parameter_words_nonempty)
  have cut: "cut = ?h @ (case out_text r of None \<Rightarrow> '''' | Some p \<Rightarrow> NUL # ''OUT '' @ p)"
    by (simp add: cut_def put_at_def l(1) split: option.split)
  have h: "c_string cut 0 = ?h" unfolding cut using c_string_upto [OF f(4)] by (auto split: option.split)
  have inp: "strstr '' IN '' ?h = map_option (\<lambda>_. length (r_name r)) (in_text r)"
    using strstr_word_None [of "[r_name r]" "''IN''"] strstr_word_Some [of "[r_name r]" "''IN''" "parameter_words (r_in r)"] n
    by (auto simp: head_words_def in_text_def no_space_def parameter_words_nonempty)
  define cut2 where "cut2 = put_at (map_option (\<lambda>_. length (r_name r)) (in_text r)) NUL cut"
  have cut2: "cut2 = r_name r @ (case in_text r of None \<Rightarrow> '''' | Some p \<Rightarrow> NUL # ''IN '' @ p)
      @ (case out_text r of None \<Rightarrow> '''' | Some p \<Rightarrow> NUL # ''OUT '' @ p)"
    by (simp add: cut2_def put_at_def cut l(2) split: option.split)
  have name: "c_string cut2 0 = r_name r"
    unfolding cut2 using c_string_upto [OF n(2)] by (auto split: option.split)
  have "NUL \<notin> set (routine_line r)" using f(4,6) l(1) by (auto simp: out_text_def NUL_def)
  then have line: "c_string (routine_line r) 0 = routine_line r" by (rule c_string_upto(2))
  have i: "map_option (\<lambda>i. c_string cut2 (i + 4)) (map_option (\<lambda>_. length (r_name r)) (in_text r)) = in_text r"
    using c_string_from [OF f(5), of "r_name r @ NUL # ''IN ''"]
    by (auto simp: cut2 in_text_def eval_nat_numeral split: option.split)
  have o: "map_option (\<lambda>i. c_string cut2 (i + 5)) (map_option (\<lambda>_. length ?h) (out_text r)) = out_text r"
    using c_string_from(2) [OF f(6), of "r_name r @ (case in_text r of None \<Rightarrow> '''' | Some p \<Rightarrow> NUL # ''IN '' @ p) @ NUL # ''OUT ''"]
    by (auto simp: cut2 l(2) out_text_def eval_nat_numeral split: option.split)
  have s: "put_at (strstr '' '' (r_name r)) NUL cut2 = cut2" by (simp add: no_space_strstr [OF n(1)] put_at_def)
  have "fst (split_line i (routine_line r) fn prefix)
    = fn i (r_name r) (crc32 (bytes_of (routine_line r)) prefix) (in_text r) (out_text r)"
    by (simp only: split_line_def Let_def line out cut_def [symmetric] h inp cut2_def [symmetric] name s i o fst_conv)
  then show ?thesis using split_line_mends [of i "routine_line r" fn prefix] by (metis prod.collapse)
qed

section \<open>The text of a routine, from the routine\<close>

definition client_routine :: "string \<Rightarrow> u32 \<Rightarrow> routine \<Rightarrow> string" where
  "client_routine i code r =
    ''static inline '' @ (case r_out r of [] \<Rightarrow> ''void'' | (n, ty) # _ \<Rightarrow> ty) @ '' '' @ i @ ''__'' @ r_name r @ ''( '' @ i @ '' o''
    @ concat (map (\<lambda>(n, ty). '', '' @ ty @ '' '' @ n) (r_in r)) @ '' )'' @ nl @ ''{'' @ nl
    @ (case r_out r of [] \<Rightarrow> ''  Isambard_'' | (n, ty) # _ \<Rightarrow> ''  return '' @ ty @ ''__from_integer_register( Isambard_'')
    @ decimal (length (r_in r)) @ decimal (length (r_out r)) @ ''( o.r, 0x'' @ hex8 code
    @ concat (map (\<lambda>(n, ty). '', '' @ n @ ''.r'') (r_in r))
    @ (if r_out r = [] then '' );'' else '' ) );'') @ nl @ ''}'' @ nl @ nl"

definition provider_routine :: "string \<Rightarrow> routine \<Rightarrow> string" where
  "provider_routine i r =
    ''extern void __attribute__(( noreturn )) c##__'' @ i @ ''__'' @ r_name r @ ''__return( ''
    @ concat (map (\<lambda>(n, ty). ty @ '' '' @ n) (r_out r)) @ '' );'' @ continued
    @ ''void __attribute__(( noreturn )) c##__'' @ i @ ''__'' @ r_name r @ ''( c o''
    @ concat (map (\<lambda>(n, ty). '', '' @ ty @ '' '' @ n) (r_in r)) @ '' );'' @ continued"

definition provider_case :: "string \<Rightarrow> u32 \<Rightarrow> routine \<Rightarrow> string" where
  "provider_case i code r =
    ''  case 0x'' @ hex8 code @ '': c##__'' @ i @ ''__'' @ r_name r @ ''( o''
    @ concat (map (\<lambda>(j, n, ty). '', '' @ ty @ ''__from_integer_register( p'' @ decimal (j + 1) @ '' )'') (enumerate 0 (r_in r)))
    @ '' );'' @ continued"

definition provider_return :: "string \<Rightarrow> routine \<Rightarrow> string" where
  "provider_return i r =
    quote @ [CHR 0x5C] @ ''n'' @ quote @ ''#c'' @ quote @ ''__'' @ i @ ''__'' @ r_name r @ ''__return:'' @ quote"

lemma map_enumerate: "map (\<lambda>(j, n, ty). f n ty) (enumerate i ps) = map (\<lambda>(n, ty). f n ty) ps"
  by (induction ps arbitrary: i) auto

lemma text_counts:
  assumes "well_formed_routine r"
  shows "parameters_count (in_text r) = length (r_in r)" and "parameters_count (out_text r) = length (r_out r)"
  using assms parameters_counted by (auto simp: well_formed_routine_def in_text_def out_text_def parameters_count_def [of None])

lemma pointer_texts:
  "pointer (in_text r) = (if r_in r = [] then '''' else parameter_text (r_in r))"
  "pointer (out_text r) = (if r_out r = [] then '''' else parameter_text (r_out r))"
  by (simp_all add: pointer_def in_text_def out_text_def)

lemma print_all:
  assumes "list_all well_formed_parameter ps"
    and "\<And>j n ty qs sp. well_formed_parameter (n, ty) \<Longrightarrow> sp \<in> {'''', '' ''} \<Longrightarrow>
      f j (sp @ parameter_text ((n, ty) # qs)) = Inr (g j (n, ty))"
  shows "print_parameters f (length ps) 0 (if ps = [] then '''' else parameter_text ps)
    = Inr (concat (map (case_prod g) (enumerate 0 ps)))"
proof (cases "ps = []")
  case False
  have "print_parameters f (length ps) 0 ('''' @ parameter_text ps) = Inr (concat (map (case_prod g) (enumerate 0 ps)))"
    by (rule print_parameters_text [where f = f and g = g]) (use assms in simp_all)
  then show ?thesis using False by simp
qed simp

lemma parameter_printed:
  assumes "well_formed_parameter (n, ty)" and "sp \<in> {'''', '' ''}"
  shows "print_parameter_decl (sp @ parameter_text ((n, ty) # ps)) = Inr (ty @ '' '' @ n)"
    and "print_parameter_type (sp @ parameter_text ((n, ty) # ps)) = Inr ty"
  using parameter_scanned(2) [OF assms, of ps] by (simp_all add: print_parameter_decl_def print_parameter_type_def)

lemma decls_printed:
  assumes "list_all well_formed_parameter ps"
  shows "print_parameters (\<lambda>i p. tool_bind (print_parameter_decl p) (\<lambda>d. Inr ('', '' @ d))) (length ps) 0
      (if ps = [] then '''' else parameter_text ps) = Inr (concat (map (\<lambda>(n, ty). '', '' @ ty @ '' '' @ n) ps))"
  using print_all [where ps = ps and f = "\<lambda>i p. tool_bind (print_parameter_decl p) (\<lambda>d. Inr ('', '' @ d))"
      and g = "\<lambda>i (n, ty). '', '' @ ty @ '' '' @ n"] assms parameter_printed(1)
  by (simp add: map_enumerate)

lemma names_printed:
  assumes "list_all well_formed_parameter ps"
  shows "print_parameters (\<lambda>i p. tool_bind (print_parameter_name p) (\<lambda>n. Inr ('', '' @ n @ ''.r''))) (length ps) 0
      (if ps = [] then '''' else parameter_text ps) = Inr (concat (map (\<lambda>(n, ty). '', '' @ n @ ''.r'') ps))"
  using print_all [where ps = ps and f = "\<lambda>i p. tool_bind (print_parameter_name p) (\<lambda>n. Inr ('', '' @ n @ ''.r''))"
      and g = "\<lambda>i (n, ty). '', '' @ n @ ''.r''"] assms parameter_scanned(1)
  by (simp add: map_enumerate)

lemma arguments_printed:
  assumes "list_all well_formed_parameter ps"
  shows "print_parameters (\<lambda>i p. tool_bind (print_parameter_type p) (\<lambda>t. Inr ('', '' @ t @ ''__from_integer_register( p'' @ decimal (i + 1) @ '' )'')))
      (length ps) 0 (if ps = [] then '''' else parameter_text ps)
    = Inr (concat (map (\<lambda>(j, n, ty). '', '' @ ty @ ''__from_integer_register( p'' @ decimal (j + 1) @ '' )'') (enumerate 0 ps)))"
  using print_all [where ps = ps
      and f = "\<lambda>i p. tool_bind (print_parameter_type p) (\<lambda>t. Inr ('', '' @ t @ ''__from_integer_register( p'' @ decimal (i + 1) @ '' )''))"
      and g = "\<lambda>i (n, ty). '', '' @ ty @ ''__from_integer_register( p'' @ decimal (i + 1) @ '' )''"] assms parameter_printed(2)
  by simp

lemma results_printed:
  assumes "list_all well_formed_parameter ps" and "length ps \<le> 1"
  shows "print_parameters (\<lambda>i p. tool_bind (print_parameter_decl p) (\<lambda>d. Inr ((if i \<noteq> 0 then '', '' else '''') @ d))) (length ps) 0
      (if ps = [] then '''' else parameter_text ps) = Inr (concat (map (\<lambda>(n, ty). ty @ '' '' @ n) ps))"
proof (cases ps)
  case (Cons p qs)
  obtain n ty where "ps = [(n, ty)]" using assms(2) Cons by (cases p) auto
  then show ?thesis using assms(1) parameter_printed(1) [of n ty "''''" "[]"] by (simp add: One_nat_def)
qed simp

lemma result_type_printed:
  assumes "well_formed_routine r" and "r_out r = (n, ty) # qs"
  shows "print_parameter_type (parameter_text (r_out r)) = Inr ty"
  using assms parameter_printed(2) [of n ty "''''" qs] by (simp add: well_formed_routine_def)

text \<open>What the compiler prints for the line of a routine.\<close>

lemma routine_texts:
  assumes "well_formed_routine r"
  shows "export_interface_routine_client_code i (r_name r) code (in_text r) (out_text r) = Inr (client_routine i code r)"
    and "export_interface_routine_server_code i (r_name r) code (in_text r) (out_text r) = Inr (provider_routine i r)"
    and "export_interface_routine_case_code i (r_name r) code (in_text r) (out_text r) = Inr (provider_case i code r)"
    and "export_interface_routine_return_functions i (r_name r) code (in_text r) (out_text r) = Inr (provider_return i r)"
proof -
  have p: "list_all well_formed_parameter (r_in r)" "list_all well_formed_parameter (r_out r)" "length (r_out r) \<le> 1"
    using assms by (simp_all add: well_formed_routine_def)
  note c = text_counts [OF assms] pointer_texts
  show "export_interface_routine_server_code i (r_name r) code (in_text r) (out_text r) = Inr (provider_routine i r)"
    unfolding export_interface_routine_server_code_def c results_printed [OF p(2,3)] decls_printed [OF p(1)]
    by (simp add: provider_routine_def)
  show "export_interface_routine_case_code i (r_name r) code (in_text r) (out_text r) = Inr (provider_case i code r)"
    unfolding export_interface_routine_case_code_def c arguments_printed [OF p(1)] by (simp add: provider_case_def)
  show "export_interface_routine_return_functions i (r_name r) code (in_text r) (out_text r) = Inr (provider_return i r)"
    by (simp add: export_interface_routine_return_functions_def provider_return_def)
  show "export_interface_routine_client_code i (r_name r) code (in_text r) (out_text r) = Inr (client_routine i code r)"
  proof (cases "r_out r")
    case Nil
    then show ?thesis
      unfolding export_interface_routine_client_code_def c decls_printed [OF p(1)] names_printed [OF p(1)] Let_def
      by (simp add: client_routine_def)
  next
    case (Cons q qs)
    obtain n ty where q: "q = (n, ty)" by fastforce
    have "length (r_out r) = 1" using p(3) Cons by simp
    moreover have "print_parameter_type (parameter_text (r_out r)) = Inr ty" using result_type_printed [OF assms] Cons q by simp
    ultimately show ?thesis
      unfolding export_interface_routine_client_code_def c decls_printed [OF p(1)] names_printed [OF p(1)] Let_def
      using Cons q by (simp add: client_routine_def)
  qed
qed

section \<open>Interfaces and their files\<close>

lemma export_routines_prints:
  assumes "list_all well_formed_routine rs" and "l + length rs \<le> length lines"
    and "\<forall>j<length rs. lines ! (l + j) = routine_line (rs ! j)"
    and "\<And>r code. well_formed_routine r \<Longrightarrow> fn i (r_name r) code (in_text r) (out_text r) = Inr (g code r)"
  shows "export_routines (length rs) i fn crc l lines
    = Inr (concat (map (\<lambda>r. g (crc32 (bytes_of (routine_line r)) crc) r) rs), lines)"
  using assms(1-3)
proof (induction rs arbitrary: l)
  case (Cons r rs)
  have r: "lines ! l = routine_line r" using Cons.prems(3) by force
  have "export_routines (length rs) i fn crc (l + 1) lines
    = Inr (concat (map (\<lambda>r. g (crc32 (bytes_of (routine_line r)) crc) r) rs), lines)"
    using Cons.prems by (intro Cons.IH) (auto simp: One_nat_def dest: spec [of _ "Suc _"])
  moreover have "lines[l := routine_line r] = lines" using r list_update_id [of lines l] by simp
  ultimately show ?case using Cons.prems(1) assms(4) r by (simp add: split_routine_line)
qed simp

definition routine_code :: "string \<Rightarrow> routine \<Rightarrow> u32" where
  "routine_code i r = routine_crc (''interface '' @ i) (routine_line r)"

definition client_header :: "string \<Rightarrow> routine list \<Rightarrow> string" where
  "client_header i rs =
    (if i \<noteq> ''SYSTEM'' then get_service_text i (interface_crc (''interface '' @ i)) else '''')
    @ concat (map (\<lambda>r. client_routine i (routine_code i r) r) rs)"

definition provider_header :: "string \<Rightarrow> routine list \<Rightarrow> string" where
  "provider_header i rs =
    server_text i (interface_crc (''interface '' @ i)) (concat (map (provider_routine i) rs))
      (concat (map (\<lambda>r. provider_case i (routine_code i r) r) rs)) (concat (map (provider_return i) rs))"

definition interface_lines :: "string \<Rightarrow> routine list \<Rightarrow> string list" where
  "interface_lines i rs = (''interface '' @ i) # map routine_line rs @ [''end'']"

lemma interface_printed:
  assumes "list_all well_formed_routine rs"
  shows "export_client_interface 0 (length rs + 1) (interface_lines i rs) = Inr (client_header i rs, interface_lines i rs)"
    and "export_server_interface 0 (length rs + 1) (interface_lines i rs) = Inr (provider_header i rs, interface_lines i rs)"
proof -
  let ?crc = "crc32 (bytes_of ''__'') (crc32 (bytes_of i) 0)"
  have crc: "interface_crc (''interface '' @ i) = ?crc" by (simp add: interface_crc_def)
  have l: "Suc 0 + length rs \<le> length (interface_lines i rs)" "\<forall>j<length rs. interface_lines i rs ! (Suc 0 + j) = routine_line (rs ! j)"
    by (auto simp: interface_lines_def nth_append)
  have e: "export_routines (length rs) i fn ?crc (Suc 0) (interface_lines i rs)
      = Inr (concat (map (\<lambda>r. g (routine_code i r) r) rs), interface_lines i rs)"
    if "\<And>r code. well_formed_routine r \<Longrightarrow> fn i (r_name r) code (in_text r) (out_text r) = Inr (g code r)" for fn g
    unfolding routine_code_def routine_crc_def crc
    by (rule export_routines_prints [where fn = fn and g = g and i = i and crc = ?crc, OF assms l that])
  have first: "drop 10 (interface_lines i rs ! 0) = i" by (simp add: interface_lines_def)
  show "export_client_interface 0 (length rs + 1) (interface_lines i rs) = Inr (client_header i rs, interface_lines i rs)"
    unfolding export_client_interface_def first Let_def client_header_def crc
    using e [where fn = export_interface_routine_client_code and g = "client_routine i"] routine_texts(1) by simp
  show "export_server_interface 0 (length rs + 1) (interface_lines i rs) = Inr (provider_header i rs, interface_lines i rs)"
    unfolding export_server_interface_def first Let_def provider_header_def crc
    using e [where fn = export_interface_routine_server_code and g = "\<lambda>_. provider_routine i"]
      e [where fn = export_interface_routine_case_code and g = "provider_case i"]
      e [where fn = export_interface_routine_return_functions and g = "\<lambda>_. provider_return i"] routine_texts(2-4)
    by simp
qed

text \<open>The file of an interface, line by line.\<close>

definition interface_file :: "string \<Rightarrow> routine list \<Rightarrow> string" where
  "interface_file i rs = concat (map (\<lambda>l. l @ [newline]) (interface_lines i rs))"

definition plain_line :: "string \<Rightarrow> bool" where
  "plain_line l \<longleftrightarrow> l \<noteq> [] \<and> newline \<notin> set l \<and> NUL \<notin> set l \<and> strip l = l \<and> \<not> is_comment l"

lemma strtok_lines_line:
  "newline \<notin> set l \<Longrightarrow> piece @ l \<noteq> [] \<Longrightarrow> strtok_lines (l @ newline # rest) piece = (piece @ l) # strtok_lines rest []"
  by (induction l arbitrary: piece) auto

lemma strtok_lines_file:
  "list_all plain_line ls \<Longrightarrow> strtok_lines (concat (map (\<lambda>l. l @ [newline]) ls)) [] = ls"
  by (induction ls) (auto simp: plain_line_def strtok_lines_line)

lemma parse_routines:
  assumes "list_all (\<lambda>l. plain_line l \<and> \<not> is_interface l \<and> l \<noteq> ''end'') ls" and "length (p_lines s) + length ls < 1000"
  shows "parse_lines (ls @ rest) s = parse_lines rest (s\<lparr>p_lines := p_lines s @ ls\<rparr>)"
  using assms
proof (induction ls arbitrary: s)
  case (Cons l ls)
  then have "parse_line l s = Inr (s\<lparr>p_lines := p_lines s @ [l]\<rparr>)" by (simp add: parse_line_def plain_line_def Let_def)
  then show ?case using Cons by simp
qed simp

lemma parameter_word_chars:
  assumes "list_all well_formed_parameter ps" and "w \<in> set (parameter_words ps)" and "c \<in> set w"
  shows "type_char c \<or> c = CHR '':'' \<or> c = CHR '',''"
  using assms
  by (induction ps rule: parameter_words.induct) (auto simp: is_name_def list_all_iff name_char_type_char)

lemma join_chars: "c \<in> set (join ws) \<Longrightarrow> c = CHR '' '' \<or> (\<exists>w\<in>set ws. c \<in> set w)"
  by (induction ws rule: join.induct) auto

lemma routine_line_chars:
  assumes "well_formed_routine r" and "c \<in> set (routine_line r)"
  shows "type_char c \<or> c \<in> {CHR '' '', CHR '':'', CHR '',''}"
proof -
  have p: "list_all well_formed_parameter (r_in r)" "list_all well_formed_parameter (r_out r)" "is_name (r_name r)"
    using assms(1) by (simp_all add: well_formed_routine_def)
  have k: "type_char c" if "c \<in> set ''IN'' \<union> set ''OUT''" for c
    using that by (auto simp: type_char_def name_char_def)
  have "c = CHR '' '' \<or> (\<exists>w\<in>set (line_words r). c \<in> set w)"
    using join_chars assms(2) unfolding routine_line_def by blast
  then show ?thesis
    using p(3) k [of c] parameter_word_chars [OF p(1)] parameter_word_chars [OF p(2)]
    by (fastforce simp: line_words_def is_name_def list_all_iff name_char_type_char split: if_splits)
qed

lemma routine_line_shape: "routine_line r = r_name r \<or> (\<exists>rest. routine_line r = r_name r @ CHR '' '' # rest)"
  unfolding routine_line_parts by (auto split: option.split)

definition nameable :: "routine \<Rightarrow> bool" where
  "nameable r \<longleftrightarrow> well_formed_routine r \<and> r_name r \<noteq> ''interface'' \<and> r_name r \<noteq> ''end''"

lemma routine_line_plain:
  assumes "nameable r"
  shows "plain_line (routine_line r) \<and> \<not> is_interface (routine_line r) \<and> routine_line r \<noteq> ''end''"
proof -
  have w: "well_formed_routine r" and n: "is_name (r_name r)" "r_name r \<noteq> ''interface''" "r_name r \<noteq> ''end''"
    using assms by (simp_all add: nameable_def well_formed_routine_def)
  obtain c cs where c: "r_name r = c # cs" "name_char c" using n(1) by (cases "r_name r") (auto simp: is_name_def)
  have v: "c \<notin> {CHR '' '', CHR 0x09, CHR ''#'', CHR ''/''}" using c(2) by (auto simp: name_char_def)
  obtain rest where l: "routine_line r = c # rest" using routine_line_shape [of r] c(1) by auto
  have "newline \<notin> set (routine_line r)" "NUL \<notin> set (routine_line r)"
    using routine_line_chars [OF w] name_char_visible(1,3) by (fastforce simp: newline_def NUL_def)+
  then have "plain_line (routine_line r)" using l v by (auto simp: plain_line_def strip_def is_comment_def One_nat_def numeral_2_eq_2)
  moreover have s: "no_space (r_name r)" "no_space ''interface''" using n(1) name_facts(1) by (auto simp: no_space_def)
  have w10: "length ''interface'' + 1 = (10::nat)" "''interface'' @ '' '' = ''interface ''" by simp_all
  have "\<not> is_interface (r_name r)" "\<And>rest. \<not> is_interface (r_name r @ CHR '' '' # rest)"
    using n(2) unfolding is_interface_def
    by (simp_all only: take_word [OF s(2,1), unfolded w10] take_last_word [OF s(1), of "''interface''", unfolded w10] simp_thms)
  then have "\<not> is_interface (routine_line r)" using routine_line_shape [of r] by metis
  moreover have "routine_line r \<noteq> ''end''"
  proof
    assume e: "routine_line r = ''end''"
    have "CHR '' '' \<notin> set ''end''" by simp
    then show False using routine_line_shape [of r] n(3) unfolding e by (metis in_set_conv_decomp)
  qed
  ultimately show ?thesis by blast
qed

lemma interface_line_plain:
  assumes "is_name i"
  shows "plain_line (''interface '' @ i)" and "is_interface (''interface '' @ i)"
proof -
  have "newline \<notin> set i" "NUL \<notin> set i"
    using assms name_char_visible(1,3) [OF name_char_type_char] unfolding is_name_def list_all_iff newline_def NUL_def by blast+
  then show "plain_line (''interface '' @ i)"
    by (simp add: plain_line_def newline_def NUL_def strip_def is_comment_def One_nat_def numeral_2_eq_2)
qed (simp add: is_interface_def)

lemma interface_file_parsed:
  assumes "is_name i" and "list_all nameable rs" and "length rs < 997"
  shows "parse_file (interface_file i rs) = Inr \<lparr>p_lines = interface_lines i rs, p_interfaces = [0], p_ends = [length rs + 1]\<rparr>"
proof -
  let ?ls = "map routine_line rs"
  note i = interface_line_plain [OF assms(1)]
  have ls: "list_all (\<lambda>l. plain_line l \<and> \<not> is_interface l \<and> l \<noteq> ''end'') ?ls"
    using assms(2) routine_line_plain by (simp add: list_all_iff)
  have e: "plain_line ''end''" "\<not> is_interface ''end''"
    by (simp_all add: plain_line_def newline_def NUL_def strip_def is_comment_def is_interface_def One_nat_def numeral_2_eq_2)
  have plain: "list_all plain_line (interface_lines i rs)" using i ls e by (auto simp: interface_lines_def list_all_iff)
  then have "NUL \<notin> set (interface_file i rs)"
    by (auto simp: interface_file_def plain_line_def list_all_iff newline_def NUL_def)
  then have z: "takeWhile (\<lambda>c. c \<noteq> CHR 0x00) (interface_file i rs) = interface_file i rs"
    unfolding takeWhile_eq_all_conv by (auto simp: NUL_def)
  have s: "strtok_lines (interface_file i rs) [] = interface_lines i rs"
    unfolding interface_file_def by (rule strtok_lines_file [OF plain])
  have p: "parse_line (''interface '' @ i) \<lparr>p_lines = [], p_interfaces = [], p_ends = []\<rparr>
      = Inr \<lparr>p_lines = [''interface '' @ i], p_interfaces = [0], p_ends = []\<rparr>"
    using i by (simp add: parse_line_def plain_line_def Let_def)
  have q: "parse_lines (?ls @ [''end'']) \<lparr>p_lines = [''interface '' @ i], p_interfaces = [0], p_ends = []\<rparr>
      = Inr \<lparr>p_lines = interface_lines i rs, p_interfaces = [0], p_ends = [length rs + 1]\<rparr>"
    using assms(3) e ls by (subst parse_routines) (simp_all add: parse_line_def plain_line_def Let_def interface_lines_def)
  have "parse_lines (interface_lines i rs) \<lparr>p_lines = [], p_interfaces = [], p_ends = []\<rparr>
      = Inr \<lparr>p_lines = interface_lines i rs, p_interfaces = [0], p_ends = [length rs + 1]\<rparr>"
    unfolding interface_lines_def [of i rs] parse_lines.simps p using q by (simp add: interface_lines_def)
  then show ?thesis unfolding parse_file_def z s by simp
qed

text \<open>C26. The interface compiler prints what an interface means, and its two programs agree: from the file of an interface,
  the client's program prints for each routine a function that passes the routine's parameters in their order with
  the routine's code and returns its result, and the provider's program prints a branch for the same code that takes
  the same number of parameters in the same order, with the types of the interface, and the declarations and labels to
  return from it.\<close>

theorem client_and_provider_agree:
  assumes "is_name i" and "list_all nameable rs" and "length rs < 997"
  shows "interface_tool ''client'' (interface_file i rs) = Inr (client_header i rs)
    \<and> interface_tool ''server'' (interface_file i rs) = Inr (provider_header i rs)"
proof -
  have "list_all well_formed_routine rs" using assms(2) by (simp add: nameable_def list_all_iff)
  from interface_printed [OF this, of i] show ?thesis
    by (simp add: interface_tool_def interface_file_parsed [OF assms] export_client_code_def export_server_code_def)
qed

definition sample_routine :: routine where
  "sample_routine = \<lparr>r_name = ''create_thread'', r_in = [(''code'', ''NUMBER''), (''stack_top'', ''NUMBER'')], r_out = [(''id'', ''NUMBER'')]\<rparr>"

theorem client_and_provider_agree_witness:
  "interface_tool ''client'' (''interface SYSTEM'' @ [newline]
      @ ''create_thread IN code: NUMBER, stack_top: NUMBER OUT id: NUMBER'' @ [newline] @ ''end'' @ [newline])
    = Inr (''static inline NUMBER SYSTEM__create_thread( SYSTEM o, NUMBER code, NUMBER stack_top )'' @ nl @ ''{'' @ nl
        @ ''  return NUMBER__from_integer_register( Isambard_21( o.r, 0x''
        @ hex8 (routine_crc ''interface SYSTEM'' ''create_thread IN code: NUMBER, stack_top: NUMBER OUT id: NUMBER'')
        @ '', code.r, stack_top.r ) );'' @ nl @ ''}'' @ nl @ nl)"
proof -
  have l: "routine_line sample_routine = ''create_thread IN code: NUMBER, stack_top: NUMBER OUT id: NUMBER''"
    by (simp add: routine_line_def line_words_def sample_routine_def)
  have f: "interface_file ''SYSTEM'' [sample_routine] = ''interface SYSTEM'' @ [newline]
      @ ''create_thread IN code: NUMBER, stack_top: NUMBER OUT id: NUMBER'' @ [newline] @ ''end'' @ [newline]"
    by (simp add: interface_file_def interface_lines_def l)
  have n: "list_all nameable [sample_routine]" "is_name ''SYSTEM''"
    by (simp_all add: nameable_def well_formed_routine_def sample_routine_def is_name_def name_char_def type_char_def)
  have "interface_tool ''client'' (interface_file ''SYSTEM'' [sample_routine]) = Inr (client_header ''SYSTEM'' [sample_routine])"
    using client_and_provider_agree [OF n(2,1)] by simp
  moreover have "client_header ''SYSTEM'' [sample_routine]
      = ''static inline NUMBER SYSTEM__create_thread( SYSTEM o, NUMBER code, NUMBER stack_top )'' @ nl @ ''{'' @ nl
        @ ''  return NUMBER__from_integer_register( Isambard_21( o.r, 0x''
        @ hex8 (routine_crc ''interface SYSTEM'' ''create_thread IN code: NUMBER, stack_top: NUMBER OUT id: NUMBER'')
        @ '', code.r, stack_top.r ) );'' @ nl @ ''}'' @ nl @ nl"
    unfolding client_header_def routine_code_def list.map concat.simps l
    by (simp add: client_routine_def sample_routine_def decimal.simps hex_digit_def)
  ultimately show ?thesis unfolding f by (simp only:)
qed

end
