(* ===== verification/Spec2Isabelle.thy ===== *)
theory Spec2Isabelle
  imports Boot Riscos_VM World_Switch Pi_Devices Show_Page Provider Interface_Generator
begin

text \<open>
  Isambard OS is a small operating system for 64-bit ARM processors (the Raspberry Pi 3).  A kernel in
  secure EL1 knows threads, maps and interfaces; everything else is a driver in a map of its own at EL0.
  A thread calls an interface, which takes it into the map that provides the interface, and returns.
  This library models the C code under \<^verbatim>\<open>src/\<close> and proves what makes it correct.

  \<^bold>\<open>Parts and theories.\<close>

  \<^item> \<^verbatim>\<open>Prelude\<close>: words of 8 to 64 bits, results (\<^verbatim>\<open>halt + 'a\<close>), general lemmas.
  \<^item> \<^verbatim>\<open>VMSA\<close> (\<^verbatim>\<open>include/aarch64_vmsa.h\<close>): translation table entries as 64-bit words with their bit fields, and
    what the processor reads from them.
  \<^item> \<^verbatim>\<open>System_Services\<close> (\<^verbatim>\<open>include/system_services.h\<close>, \<^verbatim>\<open>include/isambard_syscalls.h\<close>): call numbers and the packed
    objects that kernel and system driver share.
  \<^item> \<^verbatim>\<open>Kernel_State\<close> (\<^verbatim>\<open>include/core_isambard.h\<close>, \<^verbatim>\<open>secure_el1.c\<close>): thread contexts, interfaces, the core, and the
    table walk that user accesses go through.
  \<^item> \<^verbatim>\<open>Dll\<close> (\<^verbatim>\<open>include/doubly_linked_lists.h\<close>): the owned circular lists, as pointers in a heap of threads, and their
    refinement of sequences.
  \<^item> \<^verbatim>\<open>Heap\<close>, \<^verbatim>\<open>Interfaces\<close>, \<^verbatim>\<open>Maps\<close>, \<^verbatim>\<open>System_Request\<close> (\<^verbatim>\<open>secure_el1.c\<close>): kernel storage, the table of interfaces with
    its free list, loading of maps and mapping on demand, and the requests of the system driver.
  \<^item> \<^verbatim>\<open>Gate\<close>, \<^verbatim>\<open>Locks\<close>, \<^verbatim>\<open>Svc\<close> (\<^verbatim>\<open>include/svc_handling.h\<close>, \<^verbatim>\<open>secure_el1.c\<close>): sleeping, waking and timeouts, locks, and the
    dispatch of system calls and exceptions.
  \<^item> \<^verbatim>\<open>Isolation\<close>, \<^verbatim>\<open>Kernel_Properties\<close>: invariants over all system calls and the properties of the kernel.
  \<^item> \<^verbatim>\<open>PMA\<close> (\<^verbatim>\<open>drivers/physical_memory_allocator.c\<close>, \<^verbatim>\<open>include/aligned_blocks.h\<close>): the allocator of physical memory.
  \<^item> \<^verbatim>\<open>System_Driver\<close>, \<^verbatim>\<open>System_Properties\<close> (\<^verbatim>\<open>drivers/system.c\<close>): the system driver over the kernel's requests and the
    allocator's entry point.
  \<^item> \<^verbatim>\<open>Boot\<close> (\<^verbatim>\<open>el3.c\<close>, \<^verbatim>\<open>kernel_translation_tables.c\<close>, \<^verbatim>\<open>secure_el1.c\<close>): from the roll call of the cores to the first
    thread.
  \<^item> \<^verbatim>\<open>Client\<close> (\<^verbatim>\<open>include/exclusive.h\<close>, \<^verbatim>\<open>include/atomic.h\<close>, \<^verbatim>\<open>include/drivers.h\<close>, \<^verbatim>\<open>include/isambard_client.h\<close>): the
    drivers' side of locks, gates and virtual machine registers.
  \<^item> \<^verbatim>\<open>Interface_Compiler\<close> (\<^verbatim>\<open>tools/interfaces.c\<close>): checksums of names, call codes and the reader of interface files.
  \<^item> \<^verbatim>\<open>Interface_Generator\<close> (\<^verbatim>\<open>tools/interfaces.c\<close>): the cutting of lines and the text printed for clients and providers.
  \<^item> \<^verbatim>\<open>Riscos_VM\<close> (\<^verbatim>\<open>drivers/riscos.c\<close>): the monitor of a RISC OS guest with its emulated devices.

  \<^item> \<^verbatim>\<open>World_Switch\<close> (\<^verbatim>\<open>include/aarch64_c_vector_table.h\<close>, \<^verbatim>\<open>el3_virtual_machines.c\<close>): registers around the kernel's
    handlers, and the change between the secure and the non-secure state at EL2 and EL3.
  \<^item> \<^verbatim>\<open>Mailbox\<close> (\<^verbatim>\<open>drivers/pi3gpu/mailbox.c\<close>, \<^verbatim>\<open>mailbox_properties.c\<close>), \<^verbatim>\<open>SD_Card\<close> (\<^verbatim>\<open>sd.c\<close>) and \<^verbatim>\<open>Pi_Devices\<close> (\<^verbatim>\<open>enter.c\<close>, \<^verbatim>\<open>gpio.c\<close>,
    \<^verbatim>\<open>fb.c\<close>): the driver of the board, with what its devices answer as arguments.
  \<^item> \<^verbatim>\<open>Show_Page\<close> (\<^verbatim>\<open>drivers/show_page.c\<close>): digits, words and pages of memory drawn into the frame buffer, over the map
    operations of the system driver.
  \<^item> \<^verbatim>\<open>Provider\<close> (\<^verbatim>\<open>include/isambard_client.h\<close>): the entry code of providers, whose steps interleave over one lock and stack.

  \<^bold>\<open>State and operations.\<close>  The kernel is one record: threads, interfaces, translation tables and
  physical memory are maps from addresses or indexes, in which pointers are the numbers the code
  computes.  A handler is a function from the thread and the state to a result.  Every stop of the code is a
  value: \<^verbatim>\<open>BSOD n\<close> with the source line, \<^verbatim>\<open>SMC n\<close>, \<^verbatim>\<open>BRK n\<close>, \<^verbatim>\<open>HANG\<close> for a loop without exit and \<^verbatim>\<open>FAULT\<close> for an
  access outside an array.  The kernel's accesses to user memory go through the table walk.  Exclusive
  loads and stores that may fail take the list of values other agents leave behind; the list is finite
  and otherwise arbitrary.  Loops over linked structures take as fuel the number of elements they can visit,
  or are functions with a measure; the theorems on them prove that they return.  Loops that ask a device again
  take the list of its answers, or a bound on the rounds; the answers are arbitrary, and running out of them is \<^verbatim>\<open>HANG\<close>.

  \<^bold>\<open>What is shown.\<close>  Isolation: a thread resumed by the kernel runs on the tables of its own map
  (\<^verbatim>\<open>sync_entry_isolates\<close>, \<^verbatim>\<open>irq_entry_isolates\<close>, \<^verbatim>\<open>change_map_isolates\<close>, \<^verbatim>\<open>first_thread_on_own_map\<close>) and no system call
  lets a map obtain an interface that it was not given (\<^verbatim>\<open>interfaces_not_forged\<close>).  Memory: a fault in a
  block is answered with the block's memory and rights, outside all blocks the machine stops; what the system
  driver maps is what the kernel provides; storage blocks are disjoint; freed physical memory is tiled by aligned
  powers of two; a guest reaches its own memory only.  Scheduling: locks are first come, first
  served, timeouts expire at their tick, wakes are counted up to a bound, yields rotate.  Calls: a
  call and its return restore the caller, depth is bounded, freed interfaces are dead.  Data structures: the lists and
  the interface table refine sequences and free lists.  Tools: one checksum everywhere, balanced interface files, and
  programs for clients and providers that agree on codes, order and types (\<^verbatim>\<open>client_and_provider_agree\<close>).
  Virtual machines: traps reach the monitor and interrupts the kernel with the whole state of the guest saved, and it is restored on
  return (\<^verbatim>\<open>guest_trap_reaches_monitor\<close>, \<^verbatim>\<open>guest_resumes_with_its_state\<close>, \<^verbatim>\<open>guest_interrupt_is_transparent\<close>).  The board: messages and requests
  are kept and answered in order over all interleavings, commands follow the card's protocol, clock and transfers are
  programmed exactly.  Drivers: calls of a provider are served one at a time and restore the registers of their callers
  (\<^verbatim>\<open>calls_are_serialised\<close>); a page that is shown can be read back from the pixels (\<^verbatim>\<open>shown_page_can_be_read\<close>) and is replaced in
  the map without touching other blocks (\<^verbatim>\<open>page_is_replaced\<close>).
  Where the code departs from what it is meant to do (\<^verbatim>\<open>allocate_split_overlaps\<close>, \<^verbatim>\<open>unmap_keeps_one_successor\<close>,
  \<^verbatim>\<open>enabled_interrupt_stops\<close>, \<^verbatim>\<open>held_back_message_is_stranded\<close>, \<^verbatim>\<open>sending_while_blocked_stops\<close>, \<^verbatim>\<open>one_volt_eight_is_rejected\<close>,
  \<^verbatim>\<open>running_clock_is_not_stopped\<close>, \<^verbatim>\<open>exception_keeps_the_lock\<close>) the theorem states what it does.

  \<^bold>\<open>Interfaces between components\<close> are locales, interpreted on the model's definitions in the theory of
  the component that provides them.

  \<^bold>\<open>Not modelled.\<close>  A second core running at the same time, caches, the translation look-aside
  buffer and barriers; the first instructions after reset (\<^verbatim>\<open>boot.c\<close>) and the output of a stopped machine (\<^verbatim>\<open>el3_bsod.c\<close>,
  \<^verbatim>\<open>el3_gpio4_debug.c\<close>); \<^verbatim>\<open>drivers/arm11vm.c\<close>, which the build leaves out and which is an earlier form of the RISC OS monitor; debug
  and test threads of the card's driver; functions of the interface compiler that it does not call; loading the guest's image, the creation of the
  monitor's threads and the drivers' output of numbers on the screen, which changes no state of theirs; the veneers with pools
  of stacks, which no driver uses; test programs.  The
  generated list of drivers is a component of the state that the theorems do not restrict beyond their hypotheses.
\<close>

section \<open>Isolation of maps\<close>



text \<open>C15. Interrupts: the thread registered for interrupts runs next, at the head of the runnable
  threads, on the tables of its own map.\<close>

theorem irq_entry_isolates:
  assumes "SEL1_LOWER_AARCH64_IRQ_CODE th k = Inr (sw, k')" and "loaded_map k = current_map (threads k th)"
  shows "loaded_map k' = current_map (threads k' (sw_now sw)) \<and> runnable k' = sw_now sw
     \<and> sw = \<lparr>sw_then = th, sw_now = interrupt_thread k\<rparr>"
  by (rule irq_runs_on_own_map [OF assms])

theorem irq_entry_isolates_witness:
  "\<exists>k'. SEL1_LOWER_AARCH64_IRQ_CODE T1 (sample_kernel\<lparr>interrupt_thread := T4\<rparr>)
       = Inr (\<lparr>sw_then = T1, sw_now = T4\<rparr>, k') \<and> loaded_map k' = current_map (threads k' T4)"
proof -
  let ?k = "sample_kernel\<lparr>interrupt_thread := T4\<rparr>"
  have q: "queue ?k Runnable_list [T1, T2, T3]"
    using sample_ring by (simp add: queue_def deref_list_def del: ring.simps)
  obtain k1 where k1: "insert_thread_as_head Runnable_list T4 ?k = Inr k1" "queue k1 Runnable_list [T4, T1, T2, T3]"
    using queue_insert_head [OF q, of T4] by (auto simp: is_head_def)
  have "current_map (threads k1 u) = 3" for u
    using maps_viewD [OF maps.view_insert_head [OF k1(1)], of u] by simp
  then have e: "SEL1_LOWER_AARCH64_IRQ_CODE T1 ?k = Inr (\<lparr>sw_then = T1, sw_now = T4\<rparr>, k1)"
    using k1 by (simp add: SEL1_LOWER_AARCH64_IRQ_CODE_def queue_def deref_list_def)
  show ?thesis using irq_entry_isolates [OF e] e by simp
qed

end
